(* ===== verification/Kernel_Prelude.thy ===== *)
theory Kernel_Prelude
  imports Main "HOL-Library.Word"
begin

text \<open>
  Vocabulary shared by the components of the kernel model: addresses and the null pointer,
  the error numbers of \<^verbatim>\<open>include/errno.h\<close>, the collections the component proofs
  draw on, and generic facts about lists that several components need.
\<close>

section \<open>Addresses and error numbers\<close>

text \<open>
  A pointer to a kernel object is a natural number; 0 is the null pointer. Kernel calls return an
  \<^typ>\<open>int\<close>: a non-negative result, or a negated error number.
\<close>

type_synonym addr = nat

abbreviation (input) NULL :: addr where "NULL \<equiv> 0"

abbreviation (input) EOK :: int where "EOK \<equiv> 0"
abbreviation (input) EPERM :: int where "EPERM \<equiv> 1"
abbreviation (input) ENOENT :: int where "ENOENT \<equiv> 2"
abbreviation (input) ESRCH :: int where "ESRCH \<equiv> 3"
abbreviation (input) EINTR :: int where "EINTR \<equiv> 4"
abbreviation (input) EIO :: int where "EIO \<equiv> 5"
abbreviation (input) ENXIO :: int where "ENXIO \<equiv> 6"
abbreviation (input) E2BIG :: int where "E2BIG \<equiv> 7"
abbreviation (input) ENOEXEC :: int where "ENOEXEC \<equiv> 8"
abbreviation (input) EBADF :: int where "EBADF \<equiv> 9"
abbreviation (input) ECHILD :: int where "ECHILD \<equiv> 10"
abbreviation (input) EAGAIN :: int where "EAGAIN \<equiv> 11"
abbreviation (input) ENOMEM :: int where "ENOMEM \<equiv> 12"
abbreviation (input) EACCES :: int where "EACCES \<equiv> 13"
abbreviation (input) EFAULT :: int where "EFAULT \<equiv> 14"
abbreviation (input) EBUSY :: int where "EBUSY \<equiv> 16"
abbreviation (input) EEXIST :: int where "EEXIST \<equiv> 17"
abbreviation (input) ENODEV :: int where "ENODEV \<equiv> 19"
abbreviation (input) ENOTDIR :: int where "ENOTDIR \<equiv> 20"
abbreviation (input) EISDIR :: int where "EISDIR \<equiv> 21"
abbreviation (input) EINVAL :: int where "EINVAL \<equiv> 22"
abbreviation (input) ENFILE :: int where "ENFILE \<equiv> 23"
abbreviation (input) EMFILE :: int where "EMFILE \<equiv> 24"
abbreviation (input) ENOTTY :: int where "ENOTTY \<equiv> 25"
abbreviation (input) ENOSPC :: int where "ENOSPC \<equiv> 28"
abbreviation (input) ESPIPE :: int where "ESPIPE \<equiv> 29"
abbreviation (input) EPIPE :: int where "EPIPE \<equiv> 32"
abbreviation (input) ERANGE :: int where "ERANGE \<equiv> 34"
abbreviation (input) ENOSYS :: int where "ENOSYS \<equiv> 35"
abbreviation (input) ENAMETOOLONG :: int where "ENAMETOOLONG \<equiv> 36"
abbreviation (input) ETIME :: int where "ETIME \<equiv> 37"
abbreviation (input) EDEADLK :: int where "EDEADLK \<equiv> 38"
abbreviation (input) ENOTSOCK :: int where "ENOTSOCK \<equiv> 88"
abbreviation (input) EPROTOTYPE :: int where "EPROTOTYPE \<equiv> 91"
abbreviation (input) ENOPROTOOPT :: int where "ENOPROTOOPT \<equiv> 92"
abbreviation (input) EPROTONOSUPPORT :: int where "EPROTONOSUPPORT \<equiv> 93"
abbreviation (input) EOPNOTSUPP :: int where "EOPNOTSUPP \<equiv> 95"
abbreviation (input) EAFNOSUPPORT :: int where "EAFNOSUPPORT \<equiv> 97"
abbreviation (input) EADDRINUSE :: int where "EADDRINUSE \<equiv> 98"
abbreviation (input) EISCONN :: int where "EISCONN \<equiv> 106"
abbreviation (input) ENOTCONN :: int where "ENOTCONN \<equiv> 107"
abbreviation (input) ECONNREFUSED :: int where "ECONNREFUSED \<equiv> 111"
abbreviation (input) EWOULDBLOCK :: int where "EWOULDBLOCK \<equiv> EAGAIN"

section \<open>Generic facts\<close>

named_theorems kernel_simps \<open>unfolding rules of the operations of the model\<close>

lemma remove1_split:
  assumes "distinct (as @ t # bs)"
  shows "remove1 t (as @ t # bs) = as @ bs"
  using assms by (simp add: remove1_append)

lemma distinct_split_at:
  assumes "t \<in> set xs"
  obtains as bs where "xs = as @ t # bs"
  using assms by (metis split_list)

end
