(* ===== verification/Lib_List.thy ===== *)
theory Lib_List
  imports Kernel_Prelude
begin

text \<open>
  The intrusive circular doubly-linked list of \<^verbatim>\<open>lib/list.c\<close>, at pointer level. The
  two offsets \<open>noff\<close> and \<open>poff\<close> of the C routines select the \<open>next\<close> and
  \<open>prev\<close> fields of the node type; the heap of the model has one function per field.
  \<open>dlist h l xs\<close> says that the list with head pointer \<open>l\<close> holds exactly the
  nodes \<open>xs\<close>, in order. The lemmas show that the routines implement append, removal and
  membership on that sequence and leave every other list in the heap alone.
\<close>

section \<open>Model of list.c\<close>

record lheap =
  nxt :: "addr \<Rightarrow> addr"
  prv :: "addr \<Rightarrow> addr"

definition lib_listAdd :: "lheap \<Rightarrow> addr \<Rightarrow> addr \<Rightarrow> lheap \<times> addr" where
  "lib_listAdd h list t =
     (if t = NULL then (h, list)
      else if list = NULL then
        (let h1 = h\<lparr>nxt := (nxt h)(t := t)\<rparr>;
             h2 = h1\<lparr>prv := (prv h1)(t := t)\<rparr>
         in (h2, t))
      else
        (let h1 = h\<lparr>prv := (prv h)(t := prv h list)\<rparr>;
             h2 = h1\<lparr>nxt := (nxt h1)(prv h1 list := t)\<rparr>;
             h3 = h2\<lparr>nxt := (nxt h2)(t := list)\<rparr>;
             h4 = h3\<lparr>prv := (prv h3)(list := t)\<rparr>
         in (h4, list)))"

definition lib_listRemove :: "lheap \<Rightarrow> addr \<Rightarrow> addr \<Rightarrow> lheap \<times> addr" where
  "lib_listRemove h list t =
     (if t = NULL then (h, list)
      else
        (let (h', list') =
           (if nxt h t = t \<and> prv h t = t then (h, NULL)
            else
              (let h1 = h\<lparr>nxt := (nxt h)(prv h t := nxt h t)\<rparr>;
                   h2 = h1\<lparr>prv := (prv h1)(nxt h1 t := prv h1 t)\<rparr>
               in (h2, if t = list then nxt h2 t else list)));
           h3 = h'\<lparr>nxt := (nxt h')(t := NULL)\<rparr>;
           h4 = h3\<lparr>prv := (prv h3)(t := NULL)\<rparr>
         in (h4, list')))"

text \<open>
  The \<open>do ... while\<close> loop of \<open>lib_listBelongs\<close>; it need not end on a heap that does
  not hold a ring, so it is a partial function and not returning is \<open>None\<close>.
\<close>

partial_function (option) listBelongs_loop :: "lheap \<Rightarrow> addr \<Rightarrow> addr \<Rightarrow> addr \<Rightarrow> bool option" where
  "listBelongs_loop h list t iter =
     (if iter = t then Some True
      else if nxt h iter \<noteq> list then listBelongs_loop h list t (nxt h iter)
      else Some False)"

definition lib_listBelongs :: "lheap \<Rightarrow> addr \<Rightarrow> addr \<Rightarrow> bool option" where
  "lib_listBelongs h list t =
     (if t = NULL \<or> list = NULL then Some False else listBelongs_loop h list t list)"

section \<open>The abstraction\<close>

fun seg :: "lheap \<Rightarrow> addr \<Rightarrow> addr list \<Rightarrow> addr \<Rightarrow> bool" where
  "seg h a [] b \<longleftrightarrow> nxt h a = b \<and> prv h b = a"
| "seg h a (x # xs) b \<longleftrightarrow> nxt h a = x \<and> prv h x = a \<and> seg h x xs b"

fun dlist :: "lheap \<Rightarrow> addr \<Rightarrow> addr list \<Rightarrow> bool" where
  "dlist h l [] \<longleftrightarrow> l = NULL"
| "dlist h l (x # xs) \<longleftrightarrow> l = x \<and> NULL \<notin> set (x # xs) \<and> distinct (x # xs) \<and> seg h x xs x"

lemma seg_append: "seg h a (xs @ y # ys) b \<longleftrightarrow> seg h a xs y \<and> seg h y ys b"
  by (induction xs arbitrary: a) auto

lemma seg_prv: "seg h a xs b \<Longrightarrow> prv h b = last (a # xs)"
  by (induction xs arbitrary: a) auto

lemma seg_nxt: "seg h a xs b \<Longrightarrow> nxt h a = hd (xs @ [b])"
  by (cases xs) auto

lemma seg_frame:
  assumes "\<forall>x \<in> set (a # xs). nxt h' x = nxt h x"
    and "\<forall>x \<in> set (xs @ [b]). prv h' x = prv h x"
  shows "seg h' a xs b = seg h a xs b"
  using assms by (induction xs arbitrary: a) auto

lemma dlist_frame:
  assumes "\<forall>x \<in> set xs. nxt h' x = nxt h x \<and> prv h' x = prv h x"
  shows "dlist h' l xs = dlist h l xs"
proof (cases xs)
  case (Cons y ys)
  have "seg h' y ys y = seg h y ys y"
    by (rule seg_frame) (use assms Cons in auto)
  then show ?thesis using Cons by simp
qed simp

lemma dlist_distinct: "dlist h l xs \<Longrightarrow> distinct xs"
  by (cases xs) auto

lemma dlist_nonnull: "dlist h l xs \<Longrightarrow> NULL \<notin> set xs"
  by (cases xs) auto

lemma dlist_head: "dlist h l xs \<Longrightarrow> l = (case xs of [] \<Rightarrow> NULL | x # _ \<Rightarrow> x)"
  by (cases xs) auto

lemma dlist_Nil_iff: "dlist h NULL xs \<longleftrightarrow> xs = []"
  by (cases xs) auto


section \<open>Correctness of the routines\<close>

text \<open>Taking \<open>t\<close> out of a chain: its neighbours are linked to each other.\<close>

lemma seg_bypass:
  assumes "seg h a as t" and "seg h t bs b"
    and "distinct (a # as)" and "distinct (bs @ [b])" and "set as \<inter> set (bs @ [b]) = {}"
    and "a \<notin> set bs"
    and "\<forall>x \<in> set (a # as @ bs). nxt h' x = (if x = last (a # as) then hd (bs @ [b]) else nxt h x)"
    and "\<forall>x \<in> set (as @ bs @ [b]). prv h' x = (if x = hd (bs @ [b]) then last (a # as) else prv h x)"
  shows "seg h' a (as @ bs) b"
  using assms
proof (induction as arbitrary: a)
  case Nil
  show ?case
  proof (cases bs)
    case Nil
    with Nil.prems show ?thesis by simp
  next
    case (Cons y cs)
    have "seg h' y cs b = seg h y cs b"
      by (rule seg_frame) (use Nil.prems Cons in auto)
    with Nil.prems Cons show ?thesis by auto
  qed
next
  case (Cons c as)
  have "seg h' c (as @ bs) b"
    by (rule Cons.IH) (use Cons.prems in auto)
  moreover have "nxt h' a = c" and "prv h' c = a"
    using Cons.prems hd_in_set [of "bs @ [b]"] by (auto simp: last_in_set split: if_splits)
  ultimately show ?case by simp
qed

lemma seg_extend:
  assumes "seg h a xs b" and "distinct (a # xs)" and "t \<notin> set (a # xs)" and "b \<notin> set xs"
    and "\<forall>x \<in> set (a # xs). nxt h' x = (if x = last (a # xs) then t else nxt h x)"
    and "\<forall>x \<in> set xs. prv h' x = prv h x"
    and "nxt h' t = b" and "prv h' t = last (a # xs)" and "prv h' b = t"
  shows "seg h' a (xs @ [t]) b"
  using assms
proof (induction xs arbitrary: a)
  case (Cons c xs)
  have "seg h' c (xs @ [t]) b"
    by (rule Cons.IH) (use Cons.prems in auto)
  moreover have "nxt h' a = c" and "prv h' c = a"
    using Cons.prems by (auto simp: last_in_set split: if_splits)
  ultimately show ?case by simp
qed simp

lemma lib_listAdd_dlist:
  assumes "dlist h l xs" and "t \<noteq> NULL" and "t \<notin> set xs"
    and "lib_listAdd h l t = (h', l')"
  shows "dlist h' l' (xs @ [t])"
proof (cases xs)
  case Nil
  with assms show ?thesis by (auto simp: lib_listAdd_def)
next
  case (Cons x ys)
  have la: "prv h x = last (x # ys)"
    by (rule seg_prv) (use assms Cons in auto)
  have h': "nxt h' = (nxt h)(last (x # ys) := t, t := x)"
    "prv h' = (prv h)(t := last (x # ys), x := t)" and l': "l' = x"
    using assms Cons la by (auto simp: lib_listAdd_def Let_def)
  have "seg h' x (ys @ [t]) x"
    by (rule seg_extend [where h = h]) (use assms Cons h' in auto)
  with assms Cons l' show ?thesis by auto
qed

lemma lib_listRemove_dlist:
  assumes "dlist h l xs" and "t \<in> set xs" and "lib_listRemove h l t = (h', l')"
  shows "dlist h' l' (remove1 t xs) \<and> nxt h' t = NULL \<and> prv h' t = NULL"
proof -
  obtain as bs where xs: "xs = as @ t # bs"
    using assms(2) by (metis split_list)
  have rem: "remove1 t xs = as @ bs"
    using dlist_distinct [OF assms(1)] xs by (simp add: remove1_append)
  have t0: "t \<noteq> NULL" using dlist_nonnull [OF assms(1)] xs by auto
  have null: "nxt h' t = NULL" "prv h' t = NULL"
    using assms(3) t0 by (auto simp: lib_listRemove_def Let_def split: if_splits)
  show ?thesis
  proof (cases as)
    case Nil
    then have ring: "seg h t bs t" and l: "l = t" and dist: "distinct (t # bs)"
      and nn: "NULL \<notin> set (t # bs)"
      using assms(1) xs by auto
    show ?thesis
    proof (cases bs)
      case Nil
      then have "nxt h t = t" "prv h t = t" using ring by auto
      then show ?thesis using Nil \<open>as = []\<close> null rem assms(3) t0
        by (auto simp: lib_listRemove_def Let_def)
    next
      case (Cons y cs)
      have la: "prv h t = last (y # cs)" using seg_prv [OF ring] Cons by simp
      have ny: "nxt h t = y" "seg h t [] y" "seg h y cs t" using ring Cons by auto
      have h': "nxt h' = (nxt h)(last (y # cs) := y, t := NULL)"
        "prv h' = (prv h)(y := last (y # cs), t := NULL)" and l': "l' = y"
        using assms(3) t0 la ny dist Cons l last_in_set [of "y # cs"]
        by (auto simp: lib_listRemove_def Let_def split: if_splits)
      have "seg h' y (cs @ []) y"
        by (rule seg_bypass [OF ny(3) ny(2)]) (use dist Cons h' in auto)
      then show ?thesis using Cons \<open>as = []\<close> rem l' nn dist null by auto
    qed
  next
    case (Cons x as')
    then have ring: "seg h x as' t" "seg h t bs x" and l: "l = x"
      and dist: "distinct (x # as' @ t # bs)" and nn: "NULL \<notin> set xs"
      using assms(1) xs by (auto simp: seg_append)
    have la: "prv h t = last (x # as')" by (rule seg_prv [OF ring(1)])
    have nt: "nxt h t = hd (bs @ [x])" by (rule seg_nxt [OF ring(2)])
    have in1: "last (x # as') \<in> set (x # as')" by (rule last_in_set) simp
    have in2: "hd (bs @ [x]) \<in> set (bs @ [x])" by (rule hd_in_set) simp
    have ne: "last (x # as') \<noteq> t" "hd (bs @ [x]) \<noteq> t"
      using in1 in2 dist by auto
    have h': "nxt h' = (nxt h)(last (x # as') := hd (bs @ [x]), t := NULL)"
      "prv h' = (prv h)(hd (bs @ [x]) := last (x # as'), t := NULL)" and l': "l' = x"
      using assms(3) t0 la nt ne l dist
      by (auto simp: lib_listRemove_def Let_def split: if_splits)
    have "seg h' x (as' @ bs) x"
      by (rule seg_bypass [OF ring]) (use dist h' in auto)
    then show ?thesis using Cons rem l' nn dist null xs by auto
  qed
qed

lemma listBelongs_loop_correct:
  assumes "seg h a xs l" and "distinct (a # xs)" and "l \<notin> set xs"
  shows "listBelongs_loop h l t a = Some (t \<in> set (a # xs))"
  using assms
proof (induction xs arbitrary: a)
  case Nil
  then show ?case by (subst listBelongs_loop.simps) auto
next
  case (Cons x xs)
  then have "listBelongs_loop h l t x = Some (t \<in> set (x # xs))" by auto
  with Cons.prems show ?case by (subst listBelongs_loop.simps) auto
qed

lemma lib_listBelongs_dlist:
  assumes "dlist h l xs"
  shows "lib_listBelongs h l t = Some (t \<in> set xs)"
proof (cases xs)
  case Nil
  with assms show ?thesis by (auto simp: lib_listBelongs_def)
next
  case (Cons x ys)
  then have "listBelongs_loop h l t x = Some (t \<in> set (x # ys))"
    using assms by (intro listBelongs_loop_correct) auto
  with assms Cons show ?thesis by (auto simp: lib_listBelongs_def)
qed

text \<open>Nodes that are neither in the list nor the argument keep their links.\<close>

lemma lib_listAdd_frame:
  assumes "dlist h l xs" and "lib_listAdd h l t = (h', l')" and "y \<notin> set xs" and "y \<noteq> t"
  shows "nxt h' y = nxt h y \<and> prv h' y = prv h y"
proof (cases xs)
  case Nil
  with assms show ?thesis by (auto simp: lib_listAdd_def Let_def split: if_splits)
next
  case (Cons x ys)
  have "prv h x = last (x # ys)" by (rule seg_prv) (use assms Cons in auto)
  then have "prv h x \<in> set xs" using Cons last_in_set [of "x # ys"] by simp
  with assms Cons show ?thesis by (auto simp: lib_listAdd_def Let_def split: if_splits)
qed

lemma dlist_links_closed:
  assumes "dlist h l xs" and "t \<in> set xs"
  shows "nxt h t \<in> set xs \<and> prv h t \<in> set xs"
proof -
  obtain as bs where xs: "xs = as @ t # bs" using assms(2) by (metis split_list)
  show ?thesis
  proof (cases as)
    case Nil
    then have "seg h t bs t" using assms(1) xs by auto
    then have "nxt h t = hd (bs @ [t])" "prv h t = last (t # bs)"
      by (auto simp: seg_nxt seg_prv simp del: last.simps)
    then show ?thesis using xs Nil hd_in_set [of "bs @ [t]"] last_in_set [of "t # bs"]
      by (auto simp del: last.simps)
  next
    case (Cons x as')
    then have "seg h x as' t" "seg h t bs x" using assms(1) xs by (auto simp: seg_append)
    then have "nxt h t = hd (bs @ [x])" "prv h t = last (x # as')"
      by (auto simp: seg_nxt seg_prv simp del: last.simps)
    then show ?thesis using xs Cons hd_in_set [of "bs @ [x]"] last_in_set [of "x # as'"]
      by (auto simp del: last.simps)
  qed
qed

lemma lib_listRemove_frame:
  assumes "dlist h l xs" and "t \<in> set xs" and "lib_listRemove h l t = (h', l')" and "y \<notin> set xs"
  shows "nxt h' y = nxt h y \<and> prv h' y = prv h y"
  using dlist_links_closed [OF assms(1,2)] assms(2,3,4)
  by (auto simp: lib_listRemove_def Let_def split: if_splits)

section \<open>The contract the kernel's queues rely on\<close>

text \<open>
  Every queue of the kernel (the free lists of the page allocator, the zone lists of the kernel
  heap, the ready, waiting and ghost queues of the scheduler, the locks a thread owns) is used
  through this contract: \<open>add\<close> appends, \<open>remove\<close> takes one node out, \<open>belongs\<close>
  decides membership, and the queues that share a heap do not disturb each other.
\<close>

locale intrusive_list =
  fixes repr :: "'h \<Rightarrow> 'p \<Rightarrow> 'p list \<Rightarrow> bool"
    and node :: "'p \<Rightarrow> bool"
    and add :: "'h \<Rightarrow> 'p \<Rightarrow> 'p \<Rightarrow> 'h \<times> 'p"
    and remove :: "'h \<Rightarrow> 'p \<Rightarrow> 'p \<Rightarrow> 'h \<times> 'p"
    and belongs :: "'h \<Rightarrow> 'p \<Rightarrow> 'p \<Rightarrow> bool option"
  assumes repr_distinct: "repr h l xs \<Longrightarrow> distinct xs"
    and repr_node: "repr h l xs \<Longrightarrow> x \<in> set xs \<Longrightarrow> node x"
    and add_law: "repr h l xs \<Longrightarrow> node t \<Longrightarrow> t \<notin> set xs \<Longrightarrow> add h l t = (h', l') \<Longrightarrow>
      repr h' l' (xs @ [t])"
    and add_other: "repr h l xs \<Longrightarrow> repr h m ys \<Longrightarrow> set ys \<inter> insert t (set xs) = {} \<Longrightarrow>
      add h l t = (h', l') \<Longrightarrow> repr h' m ys"
    and remove_law: "repr h l xs \<Longrightarrow> t \<in> set xs \<Longrightarrow> remove h l t = (h', l') \<Longrightarrow>
      repr h' l' (remove1 t xs)"
    and remove_other: "repr h l xs \<Longrightarrow> repr h m ys \<Longrightarrow> set ys \<inter> set xs = {} \<Longrightarrow>
      t \<in> set xs \<Longrightarrow> remove h l t = (h', l') \<Longrightarrow> repr h' m ys"
    and belongs_law: "repr h l xs \<Longrightarrow> belongs h l t = Some (t \<in> set xs)"
begin

text \<open>Moving a node from one queue to the tail of another.\<close>

lemma move:
  assumes "repr h l xs" and "repr h m ys" and "set xs \<inter> set ys = {}" and "t \<in> set xs"
    and "remove h l t = (h1, l1)" and "add h1 m t = (h2, m2)"
  shows "repr h2 l1 (remove1 t xs) \<and> repr h2 m2 (ys @ [t])"
proof -
  have 1: "repr h1 l1 (remove1 t xs)" by (rule remove_law [OF assms(1,4,5)])
  have 2: "repr h1 m ys"
    by (rule remove_other [OF assms(1,2) _ assms(4,5)]) (use assms(3) in auto)
  have "t \<notin> set ys" using assms(3,4) by auto
  then have "repr h2 m2 (ys @ [t])"
    using add_law [OF 2 repr_node [OF assms(1,4)] _ assms(6)] by blast
  moreover have "repr h2 l1 (remove1 t xs)"
    by (rule add_other [OF 2 1 _ assms(6)])
      (use assms(3) repr_distinct [OF assms(1)] in \<open>auto simp: set_remove1_eq\<close>)
  ultimately show ?thesis by blast
qed

text \<open>Taking the head and adding it again at the tail rotates the queue: round robin.\<close>

lemma rotate_head:
  assumes "repr h l (t # xs)" and "remove h l t = (h1, l1)" and "add h1 l1 t = (h2, l2)"
  shows "repr h2 l2 (xs @ [t])"
proof -
  have "repr h1 l1 xs" using remove_law [OF assms(1) _ assms(2)] by simp
  moreover have "t \<notin> set xs" using repr_distinct [OF assms(1)] by simp
  moreover have "node t" using repr_node [OF assms(1)] by simp
  ultimately show ?thesis using add_law assms(3) by blast
qed

lemma add_then_remove:
  assumes "repr h l xs" and "node t" and "t \<notin> set xs"
    and "add h l t = (h1, l1)" and "remove h1 l1 t = (h2, l2)"
  shows "repr h2 l2 xs"
  using remove_law [OF add_law [OF assms(1-4)] _ assms(5)] assms(3)
  by (simp add: remove1_append)

end

interpretation klist: intrusive_list dlist "\<lambda>t. t \<noteq> NULL" lib_listAdd lib_listRemove lib_listBelongs
proof (unfold_locales, goal_cases)
  case (1 h l xs) then show ?case by (rule dlist_distinct)
next
  case (2 h l xs x) then show ?case using dlist_nonnull by metis
next
  case (3 h l xs t h' l') then show ?case by (rule lib_listAdd_dlist)
next
  case (4 h l xs m ys t h' l')
  then have "\<forall>y \<in> set ys. nxt h' y = nxt h y \<and> prv h' y = prv h y"
    using lib_listAdd_frame by fastforce
  then show ?case using 4 dlist_frame by blast
next
  case (5 h l xs t h' l') then show ?case using lib_listRemove_dlist by blast
next
  case (6 h l xs m ys t h' l')
  then have "\<forall>y \<in> set ys. nxt h' y = nxt h y \<and> prv h' y = prv h y"
    using lib_listRemove_frame by fastforce
  then show ?case using 6 dlist_frame by blast
next
  case (7 h l xs t) then show ?case by (rule lib_listBelongs_dlist)
qed

text \<open>
  The sequence-level operations through which the other components use their queues; the
  interpretation above is what allows a queue to be its sequence of nodes.
\<close>

definition LIST_ADD :: "'a list \<Rightarrow> 'a \<Rightarrow> 'a list" where
  "LIST_ADD q t = q @ [t]"

definition LIST_REMOVE :: "'a list \<Rightarrow> 'a \<Rightarrow> 'a list" where
  "LIST_REMOVE q t = remove1 t q"

lemma set_LIST_ADD [simp]: "set (LIST_ADD q t) = insert t (set q)"
  by (simp add: LIST_ADD_def)

lemma distinct_LIST_ADD [simp]: "distinct (LIST_ADD q t) \<longleftrightarrow> t \<notin> set q \<and> distinct q"
  by (auto simp: LIST_ADD_def)

lemma set_LIST_REMOVE [simp]: "distinct q \<Longrightarrow> set (LIST_REMOVE q t) = set q - {t}"
  by (simp add: LIST_REMOVE_def set_remove1_eq)

lemma set_LIST_REMOVE_subset: "set (LIST_REMOVE q t) \<subseteq> set q"
  by (simp add: LIST_REMOVE_def set_remove1_subset)

lemma distinct_LIST_REMOVE [simp]: "distinct q \<Longrightarrow> distinct (LIST_REMOVE q t)"
  by (simp add: LIST_REMOVE_def)

lemma LIST_REMOVE_hd [simp]: "LIST_REMOVE (t # q) t = q"
  by (simp add: LIST_REMOVE_def)

section \<open>Properties\<close>

text \<open>A heap with the two-node list 1, 2 and the one-node list 3, for the witnesses.\<close>

definition example_heap :: lheap where
  "example_heap = \<lparr>nxt = (\<lambda>_. NULL)(1 := 2, 2 := 1, 3 := 3), prv = (\<lambda>_. NULL)(1 := 2, 2 := 1, 3 := 3)\<rparr>"

lemma example_heap_dlist: "dlist example_heap 1 [1, 2]" "dlist example_heap 3 [3]"
  by (simp_all add: example_heap_def)

text \<open>C35: Moving a node between two queues of the same heap (\<open>lib_listRemove\<close> from the
  first, \<open>lib_listAdd\<close> to the second, as the scheduler, the page allocator and the kernel heap
  do) takes exactly that node out of the first queue and appends it to the second; both remain
  well-formed circular lists with every other node in its place.\<close>

theorem queue_move_correct:
  assumes "dlist h l xs" and "dlist h m ys" and "set xs \<inter> set ys = {}" and "t \<in> set xs"
    and "lib_listRemove h l t = (h1, l1)" and "lib_listAdd h1 m t = (h2, m2)"
  shows "dlist h2 l1 (remove1 t xs) \<and> dlist h2 m2 (ys @ [t])"
  by (rule klist.move [OF assms])

theorem queue_move_correct_witness:
  "\<exists>h2 l1 m2. dlist h2 l1 [2] \<and> dlist h2 m2 [3, 1]"
proof -
  obtain h1 l1 where r: "lib_listRemove example_heap 1 1 = (h1, l1)" by (metis surj_pair)
  obtain h2 m2 where a: "lib_listAdd h1 3 1 = (h2, m2)" by (metis surj_pair)
  show ?thesis using queue_move_correct [OF example_heap_dlist _ _ r a] by auto
qed

text \<open>\<open>lib_listRemove\<close> on a list that holds \<open>t\<close> gives the list without
  \<open>t\<close>, with the same head unless \<open>t\<close> was the head, both links of \<open>t\<close> cleared, and
  no node outside the list touched.\<close>

theorem listRemove_correct:
  assumes "dlist h l xs" and "t \<in> set xs" and "lib_listRemove h l t = (h', l')"
  shows "dlist h' l' (remove1 t xs) \<and> (t \<noteq> l \<longrightarrow> l' = l) \<and> nxt h' t = NULL \<and> prv h' t = NULL
    \<and> (\<forall>y. y \<notin> set xs \<longrightarrow> nxt h' y = nxt h y \<and> prv h' y = prv h y)"
proof -
  have "dlist h' l' (remove1 t xs) \<and> nxt h' t = NULL \<and> prv h' t = NULL"
    by (rule lib_listRemove_dlist [OF assms])
  moreover have "t \<noteq> l \<longrightarrow> l' = l"
  proof
    assume "t \<noteq> l"
    then obtain x ys where xs: "xs = x # ys" "x = l" "t \<in> set ys"
      using assms(1,2) by (cases xs) auto
    then have "remove1 t xs = l # remove1 t ys" using \<open>t \<noteq> l\<close> by simp
    then show "l' = l" using calculation by simp
  qed
  ultimately show ?thesis using lib_listRemove_frame [OF assms] by blast
qed

theorem listRemove_correct_witness:
  "\<exists>h' l'. dlist h' l' [1] \<and> l' = 1 \<and> nxt h' 2 = NULL"
proof -
  obtain h' l' where r: "lib_listRemove example_heap 1 2 = (h', l')" by (metis surj_pair)
  show ?thesis using listRemove_correct [OF example_heap_dlist(1) _ r] by auto
qed

text \<open>\<open>lib_listBelongs\<close> always returns on a well-formed list, and its answer is
  membership.\<close>

theorem listBelongs_decides:
  assumes "dlist h l xs"
  shows "lib_listBelongs h l t = Some (t \<in> set xs)"
  by (rule klist.belongs_law [OF assms])

theorem listBelongs_decides_witness:
  "lib_listBelongs example_heap 1 2 = Some True \<and> lib_listBelongs example_heap 1 3 = Some False"
  using listBelongs_decides [OF example_heap_dlist(1)] by simp

end
