(* ===== verification/Lib_CBuffer.thy ===== *)
theory Lib_CBuffer
  imports Kernel_Prelude
begin

unbundle bit_operations_syntax

text \<open>
  The circular byte buffer of \<^verbatim>\<open>lib/cbuffer.c\<close> and \<^verbatim>\<open>lib/cbuffer.h\<close>, which
  carries the data of local sockets and the performance events of the scheduler. The capacity is
  a power of two and the indices wrap by masking. \<open>contents\<close> abstracts the buffer to the
  queue of bytes it holds; the lemmas show that writing appends the longest prefix that fits,
  that reading takes the oldest bytes, and that the free space reported is exact.
\<close>

section \<open>Model of cbuffer.c and cbuffer.h\<close>

record 'a cbuffer =
  c_sz :: nat
  c_r :: nat
  c_w :: nat
  c_full :: bool
  c_mark :: bool
  c_data :: "'a list"

text \<open>\<open>hal_memcpy\<close> into a buffer at an offset; the callers stay within both objects.\<close>

definition memcpy_at :: "'a list \<Rightarrow> nat \<Rightarrow> 'a list \<Rightarrow> nat \<Rightarrow> 'a list" where
  "memcpy_at dst off src n = take off dst @ take n src @ drop (off + n) dst"

definition cbuffer_init :: "'a list \<Rightarrow> nat \<Rightarrow> 'a cbuffer" where
  "cbuffer_init data sz =
     \<lparr>c_sz = sz, c_r = 0, c_w = 0, c_full = False, c_mark = False, c_data = data\<rparr>"

definition cbuffer_write :: "'a cbuffer \<Rightarrow> 'a list \<Rightarrow> nat \<Rightarrow> 'a cbuffer \<times> nat" where
  "cbuffer_write buf data sz =
     (if sz = 0 \<or> c_full buf then (buf, 0)
      else
        (let (d, bytes) =
           (if c_r buf > c_w buf then
              (let n = min sz (c_r buf - c_w buf)
               in (memcpy_at (c_data buf) (c_w buf) data n, n))
            else
              (let n = min sz (c_sz buf - c_w buf);
                   d1 = memcpy_at (c_data buf) (c_w buf) data n
               in if n < sz \<and> c_r buf \<noteq> 0 then
                    (let data' = drop n data; sz' = sz - n
                     in (memcpy_at d1 0 data' (min sz' (c_r buf)), n + min sz' (c_r buf)))
                  else (d1, n)));
           w' = (c_w buf + bytes) AND (c_sz buf - 1)
         in (buf\<lparr>c_data := d, c_w := w', c_full := (w' = c_r buf)\<rparr>, bytes)))"

text \<open>\<open>_cbuffer_read\<close> fills the caller's array; the model returns what it stored there.\<close>

definition cbuffer_read :: "'a cbuffer \<Rightarrow> nat \<Rightarrow> 'a cbuffer \<times> 'a list \<times> nat" where
  "cbuffer_read buf sz =
     (if sz = 0 \<or> (c_r buf = c_w buf \<and> \<not> c_full buf) then (buf, [], 0)
      else
        (let (out, bytes) =
           (if c_w buf > c_r buf then
              (let n = min sz (c_w buf - c_r buf) in (take n (drop (c_r buf) (c_data buf)), n))
            else
              (let n = min sz (c_sz buf - c_r buf);
                   out1 = take n (drop (c_r buf) (c_data buf))
               in if n < sz then
                    (let sz' = sz - n
                     in (out1 @ take (min sz' (c_w buf)) (c_data buf), n + min sz' (c_w buf)))
                  else (out1, n)));
           r' = (c_r buf + bytes) AND (c_sz buf - 1)
         in (buf\<lparr>c_r := r', c_full := False\<rparr>, out, bytes)))"

text \<open>
  The unsigned difference \<open>r - w + sz\<close> is written \<open>r + sz - w\<close>: both indices are
  below the capacity.
\<close>

definition cbuffer_free :: "'a cbuffer \<Rightarrow> nat" where
  "cbuffer_free buf =
     (if c_w buf = c_r buf then (if c_full buf then 0 else c_sz buf)
      else (c_r buf + c_sz buf - c_w buf) AND (c_sz buf - 1))"

definition cbuffer_avail :: "'a cbuffer \<Rightarrow> nat" where
  "cbuffer_avail buf = c_sz buf - cbuffer_free buf"

definition cbuffer_discard :: "'a cbuffer \<Rightarrow> nat \<Rightarrow> 'a cbuffer \<times> nat" where
  "cbuffer_discard buf sz =
     (let cnt = min (cbuffer_free buf) sz
      in (buf\<lparr>c_r := (c_r buf + cnt) AND (c_sz buf - 1)\<rparr>, cnt))"

section \<open>Invariant and abstraction\<close>

definition cbuffer_inv :: "'a cbuffer \<Rightarrow> bool" where
  "cbuffer_inv buf \<longleftrightarrow> (\<exists>k. c_sz buf = 2 ^ k) \<and> length (c_data buf) = c_sz buf
     \<and> c_r buf < c_sz buf \<and> c_w buf < c_sz buf \<and> (c_full buf \<longrightarrow> c_r buf = c_w buf)"

definition contents :: "'a cbuffer \<Rightarrow> 'a list" where
  "contents buf =
     (if c_r buf < c_w buf then drop (c_r buf) (take (c_w buf) (c_data buf))
      else if c_r buf = c_w buf \<and> \<not> c_full buf then []
      else drop (c_r buf) (c_data buf) @ take (c_w buf) (c_data buf))"

lemma and_pow2_mod: "(\<exists>k. s = 2 ^ k) \<Longrightarrow> n AND (s - 1) = n mod (s::nat)"
proof (elim exE)
  fix k assume "s = 2 ^ k"
  then have "n AND (s - 1) = take_bit k n"
    by (simp only: take_bit_eq_mask mask_eq_exp_minus_1)
  then show ?thesis using \<open>s = 2 ^ k\<close> by (simp only: take_bit_eq_mod)
qed

lemma cbuffer_mask:
  "cbuffer_inv buf \<Longrightarrow> n AND (c_sz buf - Suc 0) = n mod c_sz buf"
  using and_pow2_mod [of "c_sz buf" n] by (simp add: cbuffer_inv_def)

lemma cbuffer_free_exact:
  assumes "cbuffer_inv buf"
  shows "cbuffer_free buf = c_sz buf - length (contents buf)"
proof -
  have l: "length (c_data buf) = c_sz buf" "c_r buf < c_sz buf" "c_w buf < c_sz buf"
    using assms by (auto simp: cbuffer_inv_def)
  consider "c_r buf < c_w buf" | "c_w buf < c_r buf" | "c_w buf = c_r buf" by linarith
  then show ?thesis
  proof cases
    case 1
    then have "(c_r buf + c_sz buf - c_w buf) mod c_sz buf = c_r buf + c_sz buf - c_w buf"
      using l by simp
    with 1 l show ?thesis
      by (simp add: cbuffer_free_def contents_def cbuffer_mask [OF assms])
  next
    case 2
    then have "(c_r buf + c_sz buf - c_w buf) mod c_sz buf = c_r buf - c_w buf"
      using l by (metis Nat.add_diff_assoc2 less_imp_diff_less less_imp_le_nat mod_add_self2 mod_less)
    with 2 l show ?thesis
      by (simp add: cbuffer_free_def contents_def cbuffer_mask [OF assms])
  next
    case 3
    with l show ?thesis by (simp add: cbuffer_free_def contents_def)
  qed
qed


lemma length_contents_le: "cbuffer_inv buf \<Longrightarrow> length (contents buf) \<le> c_sz buf"
  by (auto simp: cbuffer_inv_def contents_def)

lemma cbuffer_avail_exact: "cbuffer_inv buf \<Longrightarrow> cbuffer_avail buf = length (contents buf)"
  using length_contents_le by (fastforce simp: cbuffer_avail_def cbuffer_free_exact)

section \<open>Writing and reading\<close>

named_theorems memcpy_simps

lemma length_memcpy_at [memcpy_simps]:
  "off + n \<le> length dst \<Longrightarrow> n \<le> length src \<Longrightarrow> length (memcpy_at dst off src n) = length dst"
  by (simp add: memcpy_at_def)

lemma take_memcpy_at [memcpy_simps]:
  "off + n \<le> length dst \<Longrightarrow> n \<le> length src \<Longrightarrow>
   take (off + n) (memcpy_at dst off src n) = take off dst @ take n src"
  by (simp add: memcpy_at_def)

lemma drop_memcpy_at [memcpy_simps]:
  "off + n \<le> length dst \<Longrightarrow> n \<le> length src \<Longrightarrow> off + n \<le> m \<Longrightarrow>
   drop m (memcpy_at dst off src n) = drop m dst"
  by (simp add: memcpy_at_def)

text \<open>The three geometries of a write: below the reader, up to the end, and wrapping around.\<close>

lemma cbuffer_write_below:
  assumes inv: "cbuffer_inv buf" and "sz \<le> length data" and "0 < sz" and "c_w buf < c_r buf"
    and wr: "cbuffer_write buf data sz = (buf', n)"
  shows "cbuffer_inv buf' \<and> n = min sz (c_r buf - c_w buf) \<and> contents buf' = contents buf @ take n data"
proof -
  let ?S = "c_sz buf" and ?r = "c_r buf" and ?w = "c_w buf" and ?D = "c_data buf"
  have l: "length ?D = ?S" "?r < ?S" "\<not> c_full buf" "0 < ?S"
    using inv assms(4) by (auto simp: cbuffer_inv_def)
  define m where "m = min sz (?r - ?w)"
  have m: "0 < m" "m \<le> length data" "?w + m \<le> ?r" using assms by (auto simp: m_def)
  have b: "n = m" "buf' = buf\<lparr>c_data := memcpy_at ?D ?w data m, c_w := ?w + m, c_full := (?w + m = ?r)\<rparr>"
    using wr assms(3,4) l m by (auto simp: cbuffer_write_def Let_def m_def cbuffer_mask [OF inv])
  have c: "length (memcpy_at ?D ?w data m) = ?S"
    "take (?w + m) (memcpy_at ?D ?w data m) = take ?w ?D @ take m data"
    "drop ?r (memcpy_at ?D ?w data m) = drop ?r ?D"
    using l m by (auto simp: memcpy_simps)
  have "contents buf' = contents buf @ take n data"
    using b c m assms(4) by (auto simp: contents_def)
  moreover have "cbuffer_inv buf'"
    unfolding b(2) using inv c(1) l(2) m(3) by (simp add: cbuffer_inv_def)
  ultimately show ?thesis using b(1) by (simp add: m_def)
qed

lemma cbuffer_write_upto_end:
  assumes inv: "cbuffer_inv buf" and "sz \<le> length data" and "0 < sz" and "\<not> c_full buf"
    and "c_r buf \<le> c_w buf" and "sz \<le> c_sz buf - c_w buf \<or> c_r buf = 0"
    and wr: "cbuffer_write buf data sz = (buf', n)"
  shows "cbuffer_inv buf' \<and> n = min sz (c_sz buf - c_w buf) \<and> contents buf' = contents buf @ take n data"
proof -
  let ?S = "c_sz buf" and ?r = "c_r buf" and ?w = "c_w buf" and ?D = "c_data buf"
  have l: "length ?D = ?S" "?w < ?S" "0 < ?S"
    using inv by (auto simp: cbuffer_inv_def)
  define m where "m = min sz (?S - ?w)"
  define w' where "w' = (?w + m) mod ?S"
  have m: "0 < m" "m \<le> length data" "?w + m \<le> ?S" using assms l by (auto simp: m_def)
  have b: "n = m" "buf' = buf\<lparr>c_data := memcpy_at ?D ?w data m, c_w := w', c_full := (w' = ?r)\<rparr>"
    using wr assms(3-6) l m
    by (auto simp: cbuffer_write_def Let_def m_def w'_def cbuffer_mask [OF inv])
  have c: "length (memcpy_at ?D ?w data m) = ?S"
    "take (?w + m) (memcpy_at ?D ?w data m) = take ?w ?D @ take m data"
    using l m by (auto simp: memcpy_simps)
  have old: "contents buf = drop ?r (take ?w ?D)" using assms(4,5) by (auto simp: contents_def)
  have "contents buf' = drop ?r (take (?w + m) (memcpy_at ?D ?w data m))"
  proof (cases "?w + m = ?S")
    case True
    then have "w' = 0" by (simp add: w'_def)
    then show ?thesis using b c(1) True by (auto simp: contents_def)
  next
    case False
    then have "w' = ?w + m" using m by (simp add: w'_def)
    then show ?thesis using b c m assms(5) by (auto simp: contents_def)
  qed
  also have "\<dots> = contents buf @ take n data"
    using c old b assms(5) l by simp
  finally have "contents buf' = contents buf @ take n data" .
  moreover have "cbuffer_inv buf'"
    unfolding b(2) using inv c(1) by (auto simp: cbuffer_inv_def w'_def)
  ultimately show ?thesis using b(1) by (simp add: m_def)
qed

lemma cbuffer_write_wraps:
  assumes inv: "cbuffer_inv buf" and "sz \<le> length data" and "\<not> c_full buf"
    and "c_r buf \<le> c_w buf" and "c_sz buf - c_w buf < sz" and "c_r buf \<noteq> 0"
    and wr: "cbuffer_write buf data sz = (buf', n)"
  shows "cbuffer_inv buf' \<and> n = min sz (c_sz buf - c_w buf + c_r buf)
    \<and> contents buf' = contents buf @ take n data"
proof -
  let ?S = "c_sz buf" and ?r = "c_r buf" and ?w = "c_w buf" and ?D = "c_data buf"
  have l: "length ?D = ?S" "?w < ?S" "?r < ?S" "0 < ?S"
    using inv by (auto simp: cbuffer_inv_def)
  define k where "k = ?S - ?w"
  define m where "m = min (sz - k) ?r"
  define d1 where "d1 = memcpy_at ?D ?w data k"
  define d2 where "d2 = memcpy_at d1 0 (drop k data) m"
  have k: "0 < k" "k < sz" "k < length data" "?w + k = ?S" using assms l by (auto simp: k_def)
  have m: "m \<le> ?r" "m \<le> length (drop k data)" using assms(2) by (auto simp: m_def)
  have "(?w + (k + m)) mod ?S = m" using k m l by (simp flip: add.assoc)
  then have b: "n = k + m" "buf' = buf\<lparr>c_data := d2, c_w := m, c_full := (m = ?r)\<rparr>"
    using wr assms(3-6) l k
    by (auto simp: cbuffer_write_def Let_def m_def k_def [symmetric] d1_def d2_def
        cbuffer_mask [OF inv])
  have d1: "length d1 = ?S" "d1 = take ?w ?D @ take k data"
    using l k memcpy_simps(1,2) [of ?w k ?D data] by (auto simp: d1_def)
  have d2: "length d2 = ?S" "take m d2 = take m (drop k data)" "drop ?r d2 = drop ?r d1"
    using l m d1(1) memcpy_simps(2) [of 0 m d1 "drop k data"] by (auto simp: d2_def memcpy_simps)
  have "contents buf' = drop ?r d1 @ take m (drop k data)"
    using b d2 m by (auto simp: contents_def)
  also have "\<dots> = contents buf @ take n data"
    using d1 assms(3,4) l b by (auto simp: contents_def take_add)
  finally have "contents buf' = contents buf @ take n data" .
  moreover have "cbuffer_inv buf'"
    unfolding b(2) using inv d2(1) l(3) m(1) by (simp add: cbuffer_inv_def)
  moreover have "k + m = min sz (k + ?r)" using k(2) by (auto simp: m_def min_def)
  ultimately show ?thesis using b(1) by (simp add: k_def)
qed

lemma cbuffer_free_geometry:
  assumes "cbuffer_inv buf" and "\<not> c_full buf"
  shows "cbuffer_free buf =
    (if c_w buf < c_r buf then c_r buf - c_w buf else c_sz buf - c_w buf + c_r buf)"
proof -
  have "length (c_data buf) = c_sz buf" "c_w buf < c_sz buf" "c_r buf < c_sz buf"
    using assms(1) by (auto simp: cbuffer_inv_def)
  then show ?thesis using assms(2) by (simp add: cbuffer_free_exact [OF assms(1)] contents_def)
qed

lemma cbuffer_write_correct:
  assumes inv: "cbuffer_inv buf" and len: "sz \<le> length data"
    and wr: "cbuffer_write buf data sz = (buf', n)"
  shows "cbuffer_inv buf' \<and> n = min sz (cbuffer_free buf) \<and> contents buf' = contents buf @ take n data"
proof -
  consider (idle) "sz = 0 \<or> c_full buf"
    | (below) "0 < sz" "c_w buf < c_r buf" "\<not> c_full buf"
    | (upto) "0 < sz" "\<not> c_full buf" "c_r buf \<le> c_w buf" "sz \<le> c_sz buf - c_w buf \<or> c_r buf = 0"
    | (wraps) "\<not> c_full buf" "c_r buf \<le> c_w buf" "c_sz buf - c_w buf < sz" "c_r buf \<noteq> 0"
    by (metis leI gr0I)
  then show ?thesis
  proof cases
    case idle
    then have "buf' = buf" "n = 0" using wr by (simp_all add: cbuffer_write_def)
    moreover have "c_full buf \<Longrightarrow> cbuffer_free buf = 0"
      using inv by (simp add: cbuffer_free_def cbuffer_inv_def)
    ultimately show ?thesis using inv idle by auto
  next
    case below
    then show ?thesis using cbuffer_write_below [OF inv len below(1,2) wr]
      by (simp add: cbuffer_free_geometry [OF inv])
  next
    case upto
    have "min sz (cbuffer_free buf) = min sz (c_sz buf - c_w buf)"
      using upto(3,4) by (auto simp: cbuffer_free_geometry [OF inv upto(2)])
    then show ?thesis using cbuffer_write_upto_end [OF inv len upto wr] by simp
  next
    case wraps
    then show ?thesis using cbuffer_write_wraps [OF inv len wraps wr]
      by (simp add: cbuffer_free_geometry [OF inv])
  qed
qed

lemma cbuffer_read_correct:
  assumes inv: "cbuffer_inv buf" and rd: "cbuffer_read buf sz = (buf', out, n)"
  shows "cbuffer_inv buf' \<and> n = min sz (length (contents buf))
    \<and> out = take n (contents buf) \<and> contents buf' = drop n (contents buf)"
proof -
  let ?S = "c_sz buf" and ?r = "c_r buf" and ?w = "c_w buf" and ?D = "c_data buf"
  have l: "length ?D = ?S" "?w < ?S" "?r < ?S" "0 < ?S"
    using inv by (auto simp: cbuffer_inv_def)
  consider (zero) "sz = 0" | (empty) "?r = ?w" "\<not> c_full buf"
    | (linear) "0 < sz" "?r < ?w"
    | (short) "0 < sz" "?w \<le> ?r" "?r = ?w \<longrightarrow> c_full buf" "sz \<le> ?S - ?r"
    | (wraps) "0 < sz" "?w \<le> ?r" "?r = ?w \<longrightarrow> c_full buf" "?S - ?r < sz"
    by (metis leI gr0I)
  then show ?thesis
  proof cases
    case zero
    then have "buf' = buf" "out = []" "n = 0" using rd by (simp_all add: cbuffer_read_def)
    then show ?thesis using inv zero by simp
  next
    case empty
    then have "buf' = buf" "out = []" "n = 0" using rd by (simp_all add: cbuffer_read_def)
    then show ?thesis using inv empty by (simp add: contents_def)
  next
    case linear
    define m where "m = min sz (?w - ?r)"
    have b: "n = m" "out = take m (drop ?r ?D)" "buf' = buf\<lparr>c_r := ?r + m, c_full := False\<rparr>"
      using rd linear l by (auto simp: cbuffer_read_def Let_def m_def cbuffer_mask [OF inv])
    have m: "?r + m \<le> ?w" "m \<le> ?w - ?r" using linear by (auto simp: m_def)
    have c: "contents buf = drop ?r (take ?w ?D)" using linear by (simp add: contents_def)
    have "out = take m (contents buf)" using m b(2) unfolding c by (simp add: drop_take min_absorb1)
    moreover have "contents buf' = drop m (contents buf)"
      using b(3) m unfolding c by (auto simp: contents_def add.commute)
    moreover have "cbuffer_inv buf'" using inv b(3) m l(2) by (auto simp: cbuffer_inv_def)
    moreover have "length (contents buf) = ?w - ?r" using l unfolding c by simp
    ultimately show ?thesis using b(1) by (simp add: m_def)
  next
    case short
    have b: "n = sz" "out = take sz (drop ?r ?D)"
      "buf' = buf\<lparr>c_r := (?r + sz) mod ?S, c_full := False\<rparr>"
      using rd short l(1-3) by (auto simp: cbuffer_read_def Let_def cbuffer_mask [OF inv])
    have c: "contents buf = drop ?r ?D @ take ?w ?D" using short by (auto simp: contents_def)
    have "contents buf' = drop (?r + sz) ?D @ take ?w ?D"
    proof (cases "?r + sz = ?S")
      case True
      then show ?thesis using b l by (auto simp: contents_def)
    next
      case False
      then have "(?r + sz) mod ?S = ?r + sz" using short by simp
      then show ?thesis using b short by (auto simp: contents_def)
    qed
    then have "contents buf' = drop n (contents buf)" using b(1) short l(1) unfolding c by (simp add: add.commute)
    moreover have "out = take n (contents buf)" using b(1,2) short l(1) unfolding c by simp
    moreover have "cbuffer_inv buf'" using inv b(3) l(2) by (auto simp: cbuffer_inv_def)
    moreover have "n = min sz (length (contents buf))" using b(1) short l unfolding c by simp
    ultimately show ?thesis by simp
  next
    case wraps
    define m where "m = min (sz - (?S - ?r)) ?w"
    have "(?r + (?S - ?r + m)) mod ?S = m" using l by (simp add: m_def)
    then have b: "n = ?S - ?r + m" "out = drop ?r ?D @ take m ?D"
      "buf' = buf\<lparr>c_r := m, c_full := False\<rparr>"
      using rd wraps l(1-3) by (auto simp: cbuffer_read_def Let_def m_def cbuffer_mask [OF inv])
    have c: "contents buf = drop ?r ?D @ take ?w ?D" using wraps by (auto simp: contents_def)
    have m: "m \<le> ?w" by (simp add: m_def)
    have "contents buf' = drop m (take ?w ?D)" using b(3) m by (auto simp: contents_def)
    then have "contents buf' = drop n (contents buf)" using b(1) l(1,3) unfolding c by simp
    moreover have "out = take n (contents buf)" using b(1,2) l(1,3) m unfolding c by (simp add: min_absorb1)
    moreover have "cbuffer_inv buf'" using inv b(3) l(2) m by (auto simp: cbuffer_inv_def)
    moreover have "n = min sz (length (contents buf))" using b(1) wraps(4) l unfolding c by (auto simp: m_def)
    ultimately show ?thesis by simp
  qed
qed

lemma cbuffer_write_sz: "cbuffer_write buf data sz = (buf', n) \<Longrightarrow> c_sz buf' = c_sz buf"
  by (auto simp: cbuffer_write_def Let_def split: if_splits)

lemma cbuffer_read_state:
  assumes "cbuffer_read buf sz = (buf', out, n)" and "0 < n"
  shows "buf' = buf\<lparr>c_r := (c_r buf + n) AND (c_sz buf - 1), c_full := False\<rparr>"
  using assms by (auto simp: cbuffer_read_def Let_def split: if_splits prod.splits)

lemma cbuffer_read_sz: "cbuffer_read buf sz = (buf', out, n) \<Longrightarrow> c_sz buf' = c_sz buf"
  by (auto simp: cbuffer_read_def Let_def split: if_splits)

section \<open>The contract of a bounded byte queue\<close>

text \<open>
  What the users of the buffer (the socket layer and the performance log) rely on. Inside the
  locale: a message written as a header followed by a payload is read back as the same header and
  payload, and leaves the messages behind it in place.
\<close>

locale bounded_fifo =
  fixes inv :: "'s \<Rightarrow> bool"
    and cont :: "'s \<Rightarrow> 'a list"
    and space :: "'s \<Rightarrow> nat"
    and put :: "'s \<Rightarrow> 'a list \<Rightarrow> nat \<Rightarrow> 's \<times> nat"
    and get :: "'s \<Rightarrow> nat \<Rightarrow> 's \<times> 'a list \<times> nat"
  assumes put_law: "inv s \<Longrightarrow> n \<le> length xs \<Longrightarrow> put s xs n = (s', k) \<Longrightarrow>
      inv s' \<and> k = min n (space s) \<and> cont s' = cont s @ take k xs \<and> space s' = space s - k"
    and get_law: "inv s \<Longrightarrow> get s n = (s', out, k) \<Longrightarrow>
      inv s' \<and> k = min n (length (cont s)) \<and> out = take k (cont s) \<and> cont s' = drop k (cont s)
      \<and> space s' = space s + k"
begin

lemma put_fits:
  assumes "inv s" and "length xs \<le> space s" and "put s xs (length xs) = (s', k)"
  shows "inv s' \<and> k = length xs \<and> cont s' = cont s @ xs \<and> space s' = space s - length xs"
  using put_law [OF assms(1) _ assms(3)] assms(2) by simp

lemma put_frame:
  assumes "inv s" and "length hdr + length msg \<le> space s"
    and "put s hdr (length hdr) = (s1, k1)" and "put s1 msg (length msg) = (s2, k2)"
  shows "inv s2 \<and> k1 = length hdr \<and> k2 = length msg \<and> cont s2 = cont s @ hdr @ msg"
proof -
  have 1: "inv s1 \<and> k1 = length hdr \<and> cont s1 = cont s @ hdr \<and> space s1 = space s - length hdr"
    by (rule put_fits [OF assms(1) _ assms(3)]) (use assms(2) in simp)
  then show ?thesis using put_fits [OF _ _ assms(4)] assms(2) by auto
qed

lemma get_frame:
  assumes "inv s" and "cont s = hdr @ msg @ rest" and "get s (length hdr) = (s1, out1, k1)"
    and "get s1 (length msg) = (s2, out2, k2)"
  shows "inv s2 \<and> out1 = hdr \<and> out2 = msg \<and> cont s2 = rest"
  using get_law [OF assms(1,3)] get_law [OF _ assms(4)] assms(2) by auto

text \<open>A truncating reader takes a prefix of the payload; the rest stays in front of the queue.\<close>

lemma get_frame_prefix:
  assumes "inv s" and "cont s = hdr @ msg @ rest" and "get s (length hdr) = (s1, out1, k1)"
    and "get s1 n = (s2, out2, k2)" and "n \<le> length msg"
  shows "inv s2 \<and> out1 = hdr \<and> out2 = take n msg \<and> cont s2 = drop n msg @ rest"
  using get_law [OF assms(1,3)] get_law [OF _ assms(4)] assms(2,5) by auto

end

interpretation cbuf: bounded_fifo cbuffer_inv contents cbuffer_free cbuffer_write cbuffer_read
proof (unfold_locales, goal_cases)
  case (1 s n xs s' k)
  have w: "cbuffer_inv s' \<and> k = min n (cbuffer_free s) \<and> contents s' = contents s @ take k xs"
    by (rule cbuffer_write_correct [OF 1])
  moreover have "cbuffer_free s' = cbuffer_free s - k"
    using w cbuffer_write_sz [OF 1(3)] 1(2)
    by (simp add: cbuffer_free_exact [OF 1(1)] cbuffer_free_exact [of s'])
  ultimately show ?case by blast
next
  case (2 s n s' out k)
  have w: "cbuffer_inv s' \<and> k = min n (length (contents s)) \<and> out = take k (contents s)
      \<and> contents s' = drop k (contents s)"
    by (rule cbuffer_read_correct [OF 2])
  moreover have "cbuffer_free s' = cbuffer_free s + k"
    using w cbuffer_read_sz [OF 2(2)] length_contents_le [OF 2(1)]
    by (simp add: cbuffer_free_exact [OF 2(1)] cbuffer_free_exact [of s'])
  ultimately show ?case by blast
qed

lemma cbuffer_discard_drops:
  assumes inv: "cbuffer_inv buf" and "\<not> c_full buf" and "n \<le> length (contents buf)"
    and d: "cbuffer_discard buf n = (buf', k)"
  shows "cbuffer_inv buf' \<and> k = min (cbuffer_free buf) n \<and> contents buf' = drop k (contents buf)"
proof -
  have k: "k = min (cbuffer_free buf) n"
    and b: "buf' = buf\<lparr>c_r := (c_r buf + k) AND (c_sz buf - 1)\<rparr>"
    using d by (auto simp: cbuffer_discard_def Let_def)
  show ?thesis
  proof (cases "k = 0")
    case True
    moreover have "c_r buf mod c_sz buf = c_r buf" using inv by (simp add: cbuffer_inv_def)
    ultimately have "buf' = buf" using b by (simp add: cbuffer_mask [OF inv])
    then show ?thesis using inv True k by simp
  next
    case False
    obtain b2 out m where r: "cbuffer_read buf k = (b2, out, m)" by (metis surj_pair)
    have c: "cbuffer_inv b2" "m = k" "contents b2 = drop k (contents buf)"
      using cbuffer_read_correct [OF inv r] k assms(3) by auto
    then have "b2 = buf\<lparr>c_r := (c_r buf + k) AND (c_sz buf - 1), c_full := False\<rparr>"
      using cbuffer_read_state [OF r] False by simp
    then have "b2 = buf'" using b assms(2) by simp
    then show ?thesis using c k by simp
  qed
qed

section \<open>Properties\<close>

definition example_cbuffer :: "nat cbuffer" where
  "example_cbuffer =
     \<lparr>c_sz = 8, c_r = 6, c_w = 2, c_full = False, c_mark = False, c_data = [10, 11, 12, 13, 14, 15, 16, 17]\<rparr>"

lemma example_cbuffer_inv: "cbuffer_inv example_cbuffer"
  by (auto simp: cbuffer_inv_def example_cbuffer_def intro: exI [of _ 3])

lemma example_cbuffer_contents: "contents example_cbuffer = [16, 17, 10, 11]"
  by (simp add: contents_def example_cbuffer_def)

lemma example_cbuffer_free: "cbuffer_free example_cbuffer = 4"
  by (simp add: cbuffer_free_exact [OF example_cbuffer_inv] example_cbuffer_contents)
    (simp add: example_cbuffer_def)

text \<open>C34: Writing \<open>sz\<close> bytes to a circular buffer appends the first
  \<open>min sz (free space)\<close> of them to the queue of bytes the buffer holds, returns that count,
  and keeps the buffer well-formed, in all three geometries (below the reader, up to the end,
  wrapped around).\<close>

theorem cbuffer_write_appends:
  assumes "cbuffer_inv buf" and "sz \<le> length data" and "cbuffer_write buf data sz = (buf', n)"
  shows "cbuffer_inv buf' \<and> n = min sz (cbuffer_free buf) \<and> contents buf' = contents buf @ take n data
    \<and> cbuffer_free buf' = cbuffer_free buf - n"
  using cbuf.put_law [OF assms] by blast

theorem cbuffer_write_appends_witness:
  "\<exists>buf'. contents buf' = [16, 17, 10, 11, 1, 2, 3, 4 :: nat] \<and> cbuffer_free buf' = 0"
proof -
  obtain b n where w: "cbuffer_write example_cbuffer [1, 2, 3, 4, 5] 5 = (b, n)" by (metis surj_pair)
  show ?thesis using cbuffer_write_appends [OF example_cbuffer_inv _ w]
    by (auto simp: example_cbuffer_free example_cbuffer_contents)
qed

text \<open>A message written as a length header followed by its payload, when both fit, is read
  back unchanged by reading the header and then the payload, whatever the buffer held before and
  wherever its indices stand; the bytes queued earlier come first.\<close>

theorem cbuffer_message_roundtrip:
  assumes "cbuffer_inv buf" and "length hdr + length msg \<le> cbuffer_free buf"
    and "cbuffer_write buf hdr (length hdr) = (b1, k1)" and "cbuffer_write b1 msg (length msg) = (b2, k2)"
    and "cbuffer_read b2 (length (contents buf)) = (b3, old, k3)"
    and "cbuffer_read b3 (length hdr) = (b4, out1, k4)" and "cbuffer_read b4 (length msg) = (b5, out2, k5)"
  shows "old = contents buf \<and> out1 = hdr \<and> out2 = msg \<and> contents b5 = [] \<and> cbuffer_inv b5"
proof -
  have w: "cbuffer_inv b2" "contents b2 = contents buf @ hdr @ msg"
    using cbuf.put_frame [OF assms(1-4)] by auto
  have r: "cbuffer_inv b3" "old = contents buf" "contents b3 = hdr @ msg"
    using cbuf.get_law [OF w(1) assms(5)] w(2) by auto
  have "contents b3 = hdr @ msg @ []" using r(3) by simp
  then show ?thesis using cbuf.get_frame [OF r(1) _ assms(6,7)] r(2) by blast
qed

theorem cbuffer_message_roundtrip_witness:
  "\<exists>b3 b4 b5. cbuffer_read b3 1 = (b4, [2], 1) \<and> cbuffer_read b4 2 = (b5, [7, 8 :: nat], 2)"
proof -
  obtain b1 k1 where w1: "cbuffer_write example_cbuffer [2] (length [2::nat]) = (b1, k1)" by (metis surj_pair)
  obtain b2 k2 where w2: "cbuffer_write b1 [7, 8] (length [7, 8::nat]) = (b2, k2)" by (metis surj_pair)
  obtain b3 old k3 where r0: "cbuffer_read b2 (length (contents example_cbuffer)) = (b3, old, k3)"
    by (metis surj_pair)
  obtain b4 o1 k4 where r1: "cbuffer_read b3 (length [2::nat]) = (b4, o1, k4)" by (metis surj_pair)
  obtain b5 o2 k5 where r2: "cbuffer_read b4 (length [7, 8::nat]) = (b5, o2, k5)" by (metis surj_pair)
  have fits: "length [2::nat] + length [7, 8::nat] \<le> cbuffer_free example_cbuffer"
    by (simp add: example_cbuffer_free)
  have o: "old = contents example_cbuffer \<and> o1 = [2] \<and> o2 = [7, 8] \<and> contents b5 = [] \<and> cbuffer_inv b5"
    by (rule cbuffer_message_roundtrip [OF example_cbuffer_inv fits w1 w2 r0 r1 r2])
  have i2: "cbuffer_inv b2 \<and> contents b2 = contents example_cbuffer @ [2] @ [7, 8]"
    using cbuf.put_frame [OF example_cbuffer_inv fits w1 w2] by blast
  then have i3: "cbuffer_inv b3 \<and> contents b3 = [2, 7, 8]" using cbuf.get_law [OF _ r0] by auto
  then have i4: "k4 = 1" "cbuffer_inv b4 \<and> contents b4 = [7, 8]" using cbuf.get_law [OF _ r1] by auto
  then have "k5 = 2" using cbuf.get_law [OF _ r2] by auto
  then show ?thesis using r1 r2 o i4(1) by (auto simp: numeral_2_eq_2 intro!: exI)
qed

text \<open>C40: \<open>_cbuffer_discard\<close> computes its count from the \<^emph>\<open>free\<close> space instead of the
  available bytes: asked to drop \<open>n\<close> of the queued bytes it drops only
  \<open>min n (free space)\<close> of them, so on a nearly full buffer part of a truncated message
  stays in the queue.\<close>

theorem cbuffer_discard_bounded_by_free:
  assumes "cbuffer_inv buf" and "\<not> c_full buf" and "n \<le> length (contents buf)"
    and "cbuffer_discard buf n = (buf', k)"
  shows "contents buf' = drop (min (cbuffer_free buf) n) (contents buf)
    \<and> (cbuffer_free buf < n \<longrightarrow> length (contents buf') > length (contents buf) - n)"
  using cbuffer_discard_drops [OF assms] assms(3) by auto

theorem cbuffer_discard_bounded_by_free_witness:
  "\<exists>buf buf' k. contents (buf :: nat cbuffer) = [1, 2, 3] \<and> cbuffer_discard buf 3 = (buf', k)
     \<and> contents buf' = [2, 3]"
proof -
  define buf :: "nat cbuffer"
    where "buf = \<lparr>c_sz = 4, c_r = 0, c_w = 3, c_full = False, c_mark = False, c_data = [1, 2, 3, 4]\<rparr>"
  have inv: "cbuffer_inv buf" by (auto simp: cbuffer_inv_def buf_def intro: exI [of _ 2])
  have c: "contents buf = [1, 2, 3]" by (simp add: contents_def buf_def)
  have f: "cbuffer_free buf = 1" by (simp add: cbuffer_free_exact [OF inv] c) (simp add: buf_def)
  obtain buf' k where d: "cbuffer_discard buf 3 = (buf', k)" by (metis surj_pair)
  have "contents buf' = drop (min (cbuffer_free buf) 3) (contents buf)"
    using cbuffer_discard_bounded_by_free [OF inv _ _ d] by (simp add: c) (simp add: buf_def)
  then show ?thesis using c f d by auto
qed

end
