(* ===== verification/Lib_Search.thy ===== *)
theory Lib_Search
  imports Kernel_Prelude
begin

text \<open>
  Small routines of \<^verbatim>\<open>lib/\<close> without state of their own: the binary search of
  \<^verbatim>\<open>lib/bsearch.c\<close>, the bit scans \<open>hal_cpuGetLastBit\<close> and
  \<open>hal_cpuGetFirstBit\<close> of \<^verbatim>\<open>hal/ia32/arch/cpu.h\<close> that the allocators size their requests with.
\<close>

section \<open>Binary search\<close>

text \<open>
  \<open>compar i\<close> stands for \<open>compar(key, base + i * size)\<close>; the result is the
  index of the element found, \<open>None\<close> for the null pointer. The indices are C ints, and
  \<open>r\<close> may become \<open>-1\<close>.
\<close>

function bsearch_loop :: "(int \<Rightarrow> int) \<Rightarrow> int \<Rightarrow> int \<Rightarrow> int option" where
  "bsearch_loop compar l r =
     (if l \<le> r then
        (let m = (l + r) div 2; cmp = compar m
         in if cmp = 0 then Some m
            else if cmp > 0 then bsearch_loop compar (m + 1) r
            else bsearch_loop compar l (m - 1))
      else None)"
  by pat_completeness auto
termination by (relation "measure (\<lambda>(c, l, r). nat (r - l + 1))") auto

declare bsearch_loop.simps [simp del]

definition lib_bsearch :: "(int \<Rightarrow> int) \<Rightarrow> int \<Rightarrow> int option" where
  "lib_bsearch compar nmemb =
     (if nmemb = 0 then None else bsearch_loop compar 0 (nmemb - 1))"

text \<open>
  The comparison is monotone on a range when the elements are sorted: positive before the key's
  place, negative after it.
\<close>

definition sorted_compar :: "(int \<Rightarrow> int) \<Rightarrow> int \<Rightarrow> bool" where
  "sorted_compar c n \<longleftrightarrow>
     (\<forall>i j. 0 \<le> i \<and> i < j \<and> j < n \<longrightarrow> (c i \<le> 0 \<longrightarrow> c j < 0))"

lemma bsearch_loop_sound: "bsearch_loop c l r = Some m \<Longrightarrow> l \<le> m \<and> m \<le> r \<and> c m = 0"
proof (induction c l r rule: bsearch_loop.induct)
  case (1 c l r)
  let ?m = "(l + r) div 2"
  show ?case
  proof (cases "l \<le> r")
    case True
    then have b: "l \<le> ?m" "?m \<le> r" by linarith+
    consider "c ?m = 0" | "c ?m > 0" | "c ?m < 0" by linarith
    then show ?thesis
    proof cases
      case 1
      with "1.prems" True b show ?thesis by (simp add: bsearch_loop.simps [of c l r])
    next
      case 2
      with "1.prems" True have "bsearch_loop c (?m + 1) r = Some m"
        by (simp add: bsearch_loop.simps [of c l r])
      with "1.IH"(1) [OF True refl refl] 2 have "?m + 1 \<le> m \<and> m \<le> r \<and> c m = 0" by simp
      with b show ?thesis by linarith
    next
      case 3
      with "1.prems" True have "bsearch_loop c l (?m - 1) = Some m"
        by (simp add: bsearch_loop.simps [of c l r])
      with "1.IH"(2) [OF True refl refl] 3 have "l \<le> m \<and> m \<le> ?m - 1 \<and> c m = 0" by simp
      with b show ?thesis by linarith
    qed
  next
    case False
    with "1.prems" show ?thesis by (simp add: bsearch_loop.simps [of c l r])
  qed
qed

lemma bsearch_loop_complete:
  "sorted_compar c n \<Longrightarrow> 0 \<le> l \<Longrightarrow> r < n \<Longrightarrow> l \<le> i \<Longrightarrow> i \<le> r \<Longrightarrow> c i = 0 \<Longrightarrow>
   bsearch_loop c l r \<noteq> None"
proof (induction c l r rule: bsearch_loop.induct)
  case (1 c l r)
  let ?m = "(l + r) div 2"
  have lr: "l \<le> r" using "1.prems" by linarith
  then have b: "l \<le> ?m" "?m \<le> r" by linarith+
  have left: "c j > 0" if "0 \<le> j" "j < i" for j
  proof (rule ccontr)
    assume "\<not> c j > 0"
    then have "c i < 0" using that "1.prems"(1,3,5) by (auto simp: sorted_compar_def)
    then show False using "1.prems"(6) by simp
  qed
  have right: "c j < 0" if "i < j" "j < n" for j
  proof -
    have "0 \<le> i" "c i \<le> 0" using "1.prems"(2,4,6) by simp_all
    then show ?thesis using that "1.prems"(1) unfolding sorted_compar_def by blast
  qed
  consider "c ?m = 0" | "c ?m > 0" | "c ?m < 0" by linarith
  then show ?case
  proof cases
    case 1
    with lr show ?thesis by (simp add: bsearch_loop.simps [of c l r])
  next
    case 2
    moreover have "?m \<noteq> i" using 2 "1.prems"(6) by auto
    ultimately have "?m < i" using right [of ?m] b(2) "1.prems"(3) by linarith
    then have "bsearch_loop c (?m + 1) r \<noteq> None"
      using "1.IH"(1) [OF lr refl refl] 2 "1.prems" b by simp
    with lr 2 show ?thesis by (simp add: bsearch_loop.simps [of c l r])
  next
    case 3
    moreover have "?m \<noteq> i" using 3 "1.prems"(6) by auto
    ultimately have "i < ?m" using left [of ?m] b(1) "1.prems"(2) by linarith
    then have "bsearch_loop c l (?m - 1) \<noteq> None"
      using "1.IH"(2) [OF lr refl refl] 3 "1.prems" b by simp
    with lr 3 show ?thesis by (simp add: bsearch_loop.simps [of c l r])
  qed
qed

text \<open>\<open>lib_bsearch\<close> over a sorted array returns an element that compares equal to the
  key exactly when there is one, and its index is inside the array.\<close>

lemma lib_bsearch_spec:
  assumes "sorted_compar compar n" and "0 \<le> n"
  shows "case lib_bsearch compar n of
      None \<Rightarrow> \<not> (\<exists>i. 0 \<le> i \<and> i < n \<and> compar i = 0)
    | Some m \<Rightarrow> 0 \<le> m \<and> m < n \<and> compar m = 0"
proof (cases "lib_bsearch compar n")
  case None
  have "compar i \<noteq> 0" if "0 \<le> i" "i < n" for i
    using bsearch_loop_complete [OF assms(1), of 0 "n - 1" i] that None
    by (auto simp: lib_bsearch_def split: if_splits)
  with None show ?thesis by auto
next
  case (Some m)
  then have "bsearch_loop compar 0 (n - 1) = Some m"
    by (simp add: lib_bsearch_def split: if_splits)
  from bsearch_loop_sound [OF this] Some show ?thesis by simp
qed

section \<open>Bit scans\<close>

text \<open>
  \<open>hal_cpuGetLastBit\<close> and \<open>hal_cpuGetFirstBit\<close> give the position of the highest and
  of the lowest set bit, and 0 for the argument 0.
\<close>

fun hal_cpuGetLastBit :: "nat \<Rightarrow> nat" where
  "hal_cpuGetLastBit v = (if v < 2 then 0 else Suc (hal_cpuGetLastBit (v div 2)))"

fun hal_cpuGetFirstBit :: "nat \<Rightarrow> nat" where
  "hal_cpuGetFirstBit v = (if v = 0 \<or> odd v then 0 else Suc (hal_cpuGetFirstBit (v div 2)))"

declare hal_cpuGetLastBit.simps [simp del] hal_cpuGetFirstBit.simps [simp del]

lemma LastBit_bounds: "0 < v \<Longrightarrow> 2 ^ hal_cpuGetLastBit v \<le> v \<and> v < 2 ^ Suc (hal_cpuGetLastBit v)"
proof (induction v rule: hal_cpuGetLastBit.induct)
  case (1 v)
  show ?case
  proof (cases "v < 2")
    case True
    with "1.prems" show ?thesis by (simp add: hal_cpuGetLastBit.simps [of v])
  next
    case False
    then have "2 ^ hal_cpuGetLastBit (v div 2) \<le> v div 2 \<and> v div 2 < 2 ^ Suc (hal_cpuGetLastBit (v div 2))"
      using "1.IH" by simp
    with False show ?thesis by (auto simp: hal_cpuGetLastBit.simps [of v])
  qed
qed

lemma FirstBit_dvd: "2 ^ hal_cpuGetFirstBit v dvd v"
proof (induction v rule: hal_cpuGetFirstBit.induct)
  case (1 v)
  show ?case
  proof (cases "v = 0 \<or> odd v")
    case False
    then have "2 * 2 ^ hal_cpuGetFirstBit (v div 2) dvd 2 * (v div 2)"
      using "1.IH" by (intro mult_dvd_mono) auto
    with False show ?thesis by (simp add: hal_cpuGetFirstBit.simps [of v])
  qed (auto simp: hal_cpuGetFirstBit.simps [of v])
qed

lemma FirstBit_le_LastBit: "hal_cpuGetFirstBit v \<le> hal_cpuGetLastBit v"
proof (cases "v = 0")
  case True
  then show ?thesis by (simp add: hal_cpuGetFirstBit.simps [of 0])
next
  case False
  then have "2 ^ hal_cpuGetFirstBit v < (2::nat) ^ Suc (hal_cpuGetLastBit v)"
    using dvd_imp_le [OF FirstBit_dvd [of v]] LastBit_bounds [of v] by simp
  then show ?thesis by (metis less_Suc_eq_le nat_power_less_imp_less numeral_2_eq_2 zero_less_Suc)
qed

lemma FirstBit_ge: "0 < v \<Longrightarrow> 2 ^ n dvd v \<Longrightarrow> n \<le> hal_cpuGetFirstBit v"
proof (induction n arbitrary: v)
  case (Suc n)
  then obtain w where w: "v = 2 * w" "2 ^ n dvd w" by (auto simp: mult.assoc elim!: dvdE)
  then have "n \<le> hal_cpuGetFirstBit w" using Suc by simp
  then show ?case using w Suc(2) by (simp add: hal_cpuGetFirstBit.simps [of "2 * w"])
qed simp

lemma FirstBit_pow2 [simp]: "hal_cpuGetFirstBit (2 ^ k) = k"
proof (induction k)
  case 0
  show ?case by (simp add: hal_cpuGetFirstBit.simps [of "Suc 0"])
next
  case (Suc k)
  then show ?case by (simp add: hal_cpuGetFirstBit.simps [of "2 * 2 ^ k"])
qed

lemma LastBit_pow2 [simp]: "hal_cpuGetLastBit (2 ^ k) = k"
proof -
  have "0 < (2::nat) ^ k" by simp
  from LastBit_bounds [OF this] show ?thesis
    using power_le_imp_le_exp [of "2::nat" "hal_cpuGetLastBit (2 ^ k)" k]
      power_less_imp_less_exp [of "2::nat" k "Suc (hal_cpuGetLastBit (2 ^ k))"]
    by linarith
qed

text \<open>
  The allocators round a request up with the pair of scans: the highest bit, plus one unless it
  is the only bit.
\<close>

definition size_index :: "nat \<Rightarrow> nat" where
  "size_index sz =
     (let idx = hal_cpuGetLastBit sz
      in if hal_cpuGetFirstBit sz < idx then idx + 1 else idx)"

lemma size_index_ge: "0 < sz \<Longrightarrow> sz \<le> 2 ^ size_index sz"
proof -
  assume pos: "0 < sz"
  show ?thesis
  proof (cases "hal_cpuGetFirstBit sz < hal_cpuGetLastBit sz")
    case True
    then show ?thesis using LastBit_bounds [OF pos] by (simp add: size_index_def)
  next
    case False
    then have eq: "hal_cpuGetFirstBit sz = hal_cpuGetLastBit sz"
      using FirstBit_le_LastBit [of sz] by simp
    obtain q where q: "sz = 2 ^ hal_cpuGetLastBit sz * q"
      using FirstBit_dvd [of sz] eq by (metis dvdE)
    have "q < 2" using LastBit_bounds [OF pos] q
      by (metis mult.commute nat_mult_less_cancel_disj power_Suc)
    then have "2 ^ hal_cpuGetLastBit sz * q \<le> 2 ^ hal_cpuGetLastBit sz" by simp
    then have "sz \<le> 2 ^ hal_cpuGetLastBit sz" using q by simp
    then show ?thesis using False by (simp add: size_index_def)
  qed
qed

lemma size_index_least:
  assumes "0 < sz" and "sz \<le> 2 ^ k"
  shows "size_index sz \<le> k"
proof (cases "hal_cpuGetFirstBit sz < hal_cpuGetLastBit sz")
  case True
  have le: "2 ^ hal_cpuGetLastBit sz \<le> sz" using LastBit_bounds [OF assms(1)] by simp
  have "sz \<noteq> 2 ^ hal_cpuGetLastBit sz"
    using True by (metis FirstBit_pow2 nat_neq_iff)
  then have "2 ^ hal_cpuGetLastBit sz < (2::nat) ^ k" using le assms(2) by linarith
  then have "hal_cpuGetLastBit sz < k" by simp
  then show ?thesis using True by (simp add: size_index_def)
next
  case False
  have "2 ^ hal_cpuGetLastBit sz \<le> (2::nat) ^ k"
    using LastBit_bounds [OF assms(1)] assms(2) by linarith
  then show ?thesis using False by (simp add: size_index_def)
qed

end
