(* ===== verification/Vm_Page.thy ===== *)
theory Vm_Page
  imports Lib_List Lib_Search "HOL-Library.Disjoint_Sets" "HOL-Library.Code_Target_Numeral"
begin

unbundle bit_operations_syntax

text \<open>
  The buddy page allocator of \<^verbatim>\<open>vm/page.c\<close>. A \<open>page_t *\<close> is its index in the
  array \<open>pages.pages\<close> (an \<^typ>\<open>int\<close>, because the buddy of a page may lie before the
  array); each \<open>pages.sizes[k]\<close> is the sequence of its nodes, which
  \<open>Lib_List\<close> justifies. The lock around the public calls makes each of them one step.
  The invariant says that the free lists hold disjoint, aligned, physically contiguous blocks
  which together are exactly the p_pages flagged free, and that the byte counters agree with them.
\<close>

section \<open>Model of page.c\<close>

definition SIZE_PAGE :: nat where "SIZE_PAGE = 4096"
definition SIZE_VM_SIZES :: nat where "SIZE_VM_SIZES = 32"

record page_t =
  pg_addr :: nat
  pg_idx :: nat
  pg_flags :: "8 word"

definition PAGE_FREE :: "8 word" where "PAGE_FREE = 1"

definition is_free :: "page_t \<Rightarrow> bool" where
  "is_free p \<longleftrightarrow> pg_flags p AND PAGE_FREE \<noteq> 0"

record pages_t =
  p_sizes :: "nat \<Rightarrow> int list"
  p_pages :: "int \<Rightarrow> page_t"
  p_allocsz :: nat
  p_bootsz :: nat
  p_freesz :: nat

abbreviation npages :: "pages_t \<Rightarrow> nat" where
  "npages s \<equiv> (p_allocsz s + p_freesz s) div SIZE_PAGE"

text \<open>The number of page descriptors of a block of order \<open>k\<close>: \<open>(1 << k) / SIZE_PAGE\<close>.\<close>

definition block_pages :: "nat \<Rightarrow> nat" where
  "block_pages k = 2 ^ k div SIZE_PAGE"

definition set_page :: "pages_t \<Rightarrow> int \<Rightarrow> (page_t \<Rightarrow> page_t) \<Rightarrow> pages_t" where
  "set_page s p f = s\<lparr>p_pages := (p_pages s)(p := f (p_pages s p))\<rparr>"

definition set_sizes :: "pages_t \<Rightarrow> nat \<Rightarrow> (int list \<Rightarrow> int list) \<Rightarrow> pages_t" where
  "set_sizes s k f = s\<lparr>p_sizes := (p_sizes s)(k := f (p_sizes s k))\<rparr>"

text \<open>\<open>_page_alloc\<close>: the search for a non-empty sz, the split loop and the marking loop.\<close>

function page_alloc_find :: "pages_t \<Rightarrow> nat \<Rightarrow> nat" where
  "page_alloc_find s stop =
     (if stop < SIZE_VM_SIZES \<and> p_sizes s stop = [] then page_alloc_find s (stop + 1) else stop)"
  by pat_completeness auto
termination by (relation "measure (\<lambda>(s, stop). SIZE_VM_SIZES - stop)") auto

fun page_alloc_split :: "pages_t \<Rightarrow> int \<Rightarrow> nat \<Rightarrow> nat \<Rightarrow> pages_t" where
  "page_alloc_split s lh start stop =
     (if stop > start then
        (let s1 = set_sizes s stop (\<lambda>q. LIST_REMOVE q lh);
             stop1 = stop - 1;
             s2 = set_page s1 lh (\<lambda>p. p\<lparr>pg_idx := pg_idx p - 1\<rparr>);
             rh = lh + int (block_pages (pg_idx (p_pages s2 lh)));
             s3 = set_page s2 rh (\<lambda>p. p\<lparr>pg_idx := pg_idx (p_pages s2 lh)\<rparr>);
             s4 = set_sizes s3 stop1 (\<lambda>q. LIST_ADD q lh);
             s5 = set_sizes s4 stop1 (\<lambda>q. LIST_ADD q rh)
         in page_alloc_split s5 lh start stop1)
      else s)"

definition page_alloc_mark :: "8 word \<Rightarrow> int \<Rightarrow> nat \<Rightarrow> pages_t \<Rightarrow> pages_t" where
  "page_alloc_mark flgs lh i s =
     (set_page s (lh + int i) (\<lambda>p. p\<lparr>pg_flags := (pg_flags p AND NOT PAGE_FREE) OR flgs\<rparr>))
       \<lparr>p_freesz := p_freesz s - SIZE_PAGE, p_allocsz := p_allocsz s + SIZE_PAGE\<rparr>"

definition page_alloc :: "pages_t \<Rightarrow> nat \<Rightarrow> 8 word \<Rightarrow> pages_t \<times> int option" where
  "page_alloc s sz flgs =
     (let sz' = (if sz < SIZE_PAGE then SIZE_PAGE else sz);
          start = size_index sz';
          stop = page_alloc_find s start
      in if stop = SIZE_VM_SIZES then (s, None)
         else
           (let lh = hd (p_sizes s stop);
                s1 = page_alloc_split s lh start stop;
                s2 = set_sizes s1 start (\<lambda>q. LIST_REMOVE q lh);
                s3 = fold (page_alloc_mark flgs lh) [0..<block_pages (pg_idx (p_pages s2 lh))] s2
            in (s3, Some lh)))"

text \<open>\<open>_page_free\<close>: a double free stops the kernel, which is \<open>None\<close>.\<close>

definition page_free_mark :: "int \<Rightarrow> nat \<Rightarrow> pages_t \<Rightarrow> pages_t" where
  "page_free_mark p i s =
     (set_page s (p + int i) (\<lambda>pg. pg\<lparr>pg_flags := pg_flags pg OR PAGE_FREE\<rparr>))
       \<lparr>p_freesz := p_freesz s + SIZE_PAGE, p_allocsz := p_allocsz s - SIZE_PAGE\<rparr>"

definition page_buddies :: "pages_t \<Rightarrow> int \<Rightarrow> nat \<Rightarrow> int \<Rightarrow> int \<Rightarrow> int \<times> int" where
  "page_buddies s p k lh rh =
     (if pg_addr (p_pages s p) AND (2 ^ (k + 1) - 1) \<noteq> 0 then (p - int (block_pages k), rh)
      else (lh, p + int (block_pages k)))"

definition page_free_merges :: "pages_t \<Rightarrow> int \<Rightarrow> int \<Rightarrow> nat \<Rightarrow> bool" where
  "page_free_merges s lh rh k \<longleftrightarrow>
     lh \<ge> 0 \<and> rh < int (npages s) \<and> is_free (p_pages s lh) \<and> is_free (p_pages s rh)
     \<and> pg_idx (p_pages s lh) = pg_idx (p_pages s rh)
     \<and> pg_addr (p_pages s lh) + 2 ^ pg_idx (p_pages s lh) = pg_addr (p_pages s rh) \<and> k < SIZE_VM_SIZES"

function page_free_loop :: "pages_t \<Rightarrow> int \<Rightarrow> int \<Rightarrow> int \<Rightarrow> nat \<Rightarrow> pages_t \<times> int \<times> nat" where
  "page_free_loop s p lh rh k =
     (if page_free_merges s lh rh k then
        (let s1 = set_sizes s k (\<lambda>q. LIST_REMOVE q (if p = lh then rh else lh));
             s2 = set_page s1 rh (\<lambda>pg. pg\<lparr>pg_idx := hal_cpuGetFirstBit SIZE_PAGE\<rparr>);
             s3 = set_page s2 lh (\<lambda>pg. pg\<lparr>pg_idx := pg_idx pg + 1\<rparr>);
             (lh', rh') = page_buddies s3 lh (k + 1) lh rh
         in page_free_loop s3 lh lh' rh' (k + 1))
      else (s, p, k))"
  by pat_completeness auto
termination
  by (relation "measure (\<lambda>(s, p, lh, rh, k). SIZE_VM_SIZES - k)") (auto simp: page_free_merges_def)

definition page_free :: "pages_t \<Rightarrow> int \<Rightarrow> pages_t option" where
  "page_free s p =
     (if is_free (p_pages s p) then None
      else
        (let k = pg_idx (p_pages s p);
             s1 = fold (page_free_mark p) [0..<block_pages k] s;
             (lh, rh) = page_buddies s1 p k p p;
             (s2, p', k') = page_free_loop s1 p lh rh k
         in Some (set_sizes s2 k' (\<lambda>q. LIST_ADD q p'))))"

declare page_alloc_find.simps [simp del] page_alloc_split.simps [simp del]
  page_free_loop.simps [simp del]

text \<open>The public calls hold \<open>pages.lock\<close> for their whole body.\<close>

definition vm_pageAlloc :: "pages_t \<Rightarrow> nat \<Rightarrow> 8 word \<Rightarrow> pages_t \<times> int option" where
  "vm_pageAlloc s sz flgs = page_alloc s sz flgs"

definition vm_pageFree :: "pages_t \<Rightarrow> int \<Rightarrow> pages_t option" where
  "vm_pageFree s lh = page_free s lh"

definition page_get_cmp :: "nat \<Rightarrow> page_t \<Rightarrow> int" where
  "page_get_cmp a p = (if a = pg_addr p then 0 else if a > pg_addr p then 1 else -1)"

text \<open>\<open>addr & ~(SIZE_PAGE - 1)\<close> clears the offset within the page.\<close>

definition page_get :: "pages_t \<Rightarrow> nat \<Rightarrow> int option" where
  "page_get s a =
     (let np = npages s; a' = a - a mod SIZE_PAGE
      in lib_bsearch (\<lambda>m. page_get_cmp a' (p_pages s m)) (int np))"

text \<open>\<open>pmap_resolve\<close> belongs to the hardware layer and is a parameter.\<close>

definition vm_pageFreeAt :: "(nat \<Rightarrow> nat) \<Rightarrow> pages_t \<Rightarrow> nat \<Rightarrow> pages_t option" where
  "vm_pageFreeAt pmap_resolve s vaddr =
     (case page_get s (pmap_resolve vaddr) of None \<Rightarrow> None | Some p \<Rightarrow> page_free s p)"

definition vm_pageGetStats :: "pages_t \<Rightarrow> nat" where
  "vm_pageGetStats s = p_freesz s"

text \<open>
  \<open>_page_initSizes\<close>. The bound \<open>((1 << idx) / SIZE_PAGE) - 1\<close> is an unsigned value: it
  wraps for the page at address 0, whose lowest set bit is reported as 0.
\<close>

definition init_limit :: "nat \<Rightarrow> nat" where
  "init_limit k = (2 ^ 32 + block_pages k - 1) mod 2 ^ 32"

function page_init_run :: "pages_t \<Rightarrow> nat \<Rightarrow> nat \<Rightarrow> nat \<Rightarrow> nat" where
  "page_init_run s i lim k =
     (if k < lim \<and> i + k < p_freesz s + p_allocsz s - 1 \<and> is_free (p_pages s (int (i + 1 + k)))
      then page_init_run s i lim (k + 1) else k)"
  by pat_completeness auto
termination by (relation "measure (\<lambda>(s, i, lim, k). lim - k)") auto

declare page_init_run.simps [simp del]

definition page_init_block :: "pages_t \<Rightarrow> nat \<Rightarrow> pages_t \<times> nat" where
  "page_init_block s i =
     (let k0 = hal_cpuGetFirstBit (pg_addr (p_pages s (int i)));
          k1 = (if k0 \<ge> SIZE_VM_SIZES then SIZE_VM_SIZES - 1 else k0);
          run = page_init_run s i (init_limit k1) 0;
          k = hal_cpuGetLastBit ((1 + run) * SIZE_PAGE);
          s1 = set_page s (int i) (\<lambda>p. p\<lparr>pg_idx := k\<rparr>)
      in (set_sizes s1 k (\<lambda>q. LIST_ADD q (int i)), i + block_pages k))"

text \<open>
  The outer loop advances by at least one descriptor in every turn, so \<open>npages\<close> turns are
  enough; the number of turns left is the fuel.
\<close>

fun page_initSizes_loop :: "nat \<Rightarrow> pages_t \<Rightarrow> nat \<Rightarrow> pages_t" where
  "page_initSizes_loop 0 s i = s"
| "page_initSizes_loop (Suc n) s i =
     (if i < npages s then
        (if \<not> is_free (p_pages s (int i)) then page_initSizes_loop n s (i + 1)
         else (let (s', i') = page_init_block s i in page_initSizes_loop n s' i'))
      else s)"

definition page_initSizes :: "pages_t \<Rightarrow> pages_t" where
  "page_initSizes s =
     page_initSizes_loop (npages s) (set_sizes s (hal_cpuGetFirstBit SIZE_PAGE) (\<lambda>_. [])) 0"

section \<open>Blocks and the allocator invariant\<close>

definition blk :: "int \<times> nat \<Rightarrow> int set" where
  "blk b = {fst b ..< fst b + int (block_pages (snd b))}"

text \<open>
  A block of order \<open>k\<close> at \<open>p\<close>: inside the descriptor array, aligned to its size, and
  physically contiguous.
\<close>

definition good_block :: "pages_t \<Rightarrow> int \<times> nat \<Rightarrow> bool" where
  "good_block s b \<longleftrightarrow> (case b of (p, k) \<Rightarrow>
     12 \<le> k \<and> 0 \<le> p \<and> p + int (block_pages k) \<le> int (npages s)
     \<and> 2 ^ k dvd pg_addr (p_pages s p)
     \<and> (\<forall>i < block_pages k. pg_addr (p_pages s (p + int i)) = pg_addr (p_pages s p) + i * SIZE_PAGE))"

definition free_pages :: "pages_t \<Rightarrow> int set" where
  "free_pages s = {i. 0 \<le> i \<and> i < int (npages s) \<and> is_free (p_pages s i)}"

text \<open>The descriptors are sorted by address, one page apart at least.\<close>

definition addr_sorted :: "pages_t \<Rightarrow> bool" where
  "addr_sorted s \<longleftrightarrow> (\<forall>i j. 0 \<le> i \<and> i < j \<and> j < int (npages s) \<longrightarrow>
     pg_addr (p_pages s i) + nat (j - i) * SIZE_PAGE \<le> pg_addr (p_pages s j))"

definition blocks_ok :: "pages_t \<Rightarrow> (int \<times> nat) set \<Rightarrow> bool" where
  "blocks_ok s B \<longleftrightarrow> (\<forall>b \<in> B. good_block s b) \<and> disjoint_family_on blk B
     \<and> free_pages s = \<Union> (blk ` B)"

definition counters_ok :: "pages_t \<Rightarrow> bool" where
  "counters_ok s \<longleftrightarrow> p_freesz s = card (free_pages s) * SIZE_PAGE \<and> SIZE_PAGE dvd p_allocsz s + p_freesz s
     \<and> p_allocsz s + p_freesz s < 2 ^ 31"

definition free_blocks :: "pages_t \<Rightarrow> (int \<times> nat) set" where
  "free_blocks s = {(p, k). p \<in> set (p_sizes s k)}"

definition lists_ok :: "pages_t \<Rightarrow> bool" where
  "lists_ok s \<longleftrightarrow> (\<forall>k. distinct (p_sizes s k) \<and> (\<forall>p \<in> set (p_sizes s k). pg_idx (p_pages s p) = k))"

definition page_inv :: "pages_t \<Rightarrow> bool" where
  "page_inv s \<longleftrightarrow> blocks_ok s (free_blocks s) \<and> lists_ok s \<and> counters_ok s \<and> addr_sorted s"

subsection \<open>Arithmetic of orders\<close>

lemma order_split: "12 \<le> k \<Longrightarrow> (2::nat) ^ k = 2 ^ (k - 12) * SIZE_PAGE"
  by (auto simp: SIZE_PAGE_def power_add dest!: le_Suc_ex)

lemma block_pages_eq: "12 \<le> k \<Longrightarrow> block_pages k = 2 ^ (k - 12)"
  by (simp add: block_pages_def order_split) (simp add: SIZE_PAGE_def)

lemma block_pages_pos [simp]: "12 \<le> k \<Longrightarrow> 0 < block_pages k"
  by (simp add: block_pages_eq)

lemma block_pages_Suc: "12 \<le> k \<Longrightarrow> block_pages (Suc k) = 2 * block_pages k"
  by (auto simp: block_pages_eq dest!: le_Suc_ex)

lemma block_pages_bytes: "12 \<le> k \<Longrightarrow> block_pages k * SIZE_PAGE = 2 ^ k"
  by (simp add: block_pages_eq order_split)

lemma blk_Suc: "12 \<le> k \<Longrightarrow> blk (p, Suc k) = blk (p, k) \<union> blk (p + int (block_pages k), k)"
  by (auto simp: blk_def block_pages_Suc)

lemma blk_halves_disjoint: "blk (p, k) \<inter> blk (p + int (block_pages k), k) = {}"
  by (auto simp: blk_def)

lemma blk_base [simp]: "12 \<le> k \<Longrightarrow> p \<in> blk (p, k)"
  by (simp add: blk_def)

lemma finite_blk [simp]: "finite (blk b)" and card_blk: "card (blk b) = block_pages (snd b)"
  by (simp_all add: blk_def)

lemma finite_free_pages [simp]: "finite (free_pages s)"
  by (rule finite_subset [of _ "{0 ..< int (npages s)}"]) (auto simp: free_pages_def)


subsection \<open>Block sets: split, merge, allocate and release\<close>

lemma block_ext:
  assumes "blocks_ok s B" and "\<And>i. pg_addr (p_pages s' i) = pg_addr (p_pages s i)"
    and "\<And>i. is_free (p_pages s' i) = is_free (p_pages s i)" and "npages s' = npages s"
  shows "blocks_ok s' B"
  using assms by (auto simp: blocks_ok_def good_block_def free_pages_def)

lemma block_sep:
  assumes "blocks_ok s B" and "a \<in> B" and "b \<in> B" and "i \<in> blk a" and "i \<in> blk b"
  shows "a = b"
  using assms unfolding blocks_ok_def disjoint_family_on_def by blast

lemma block_good: "blocks_ok s B \<Longrightarrow> b \<in> B \<Longrightarrow> good_block s b"
  by (simp add: blocks_ok_def)

lemma block_order: "good_block s (p, k) \<Longrightarrow> 12 \<le> k"
  by (simp add: good_block_def)

lemma good_block_addr:
  "good_block s (p, k) \<Longrightarrow> 0 \<le> d \<Longrightarrow> d < int (block_pages k) \<Longrightarrow>
   pg_addr (p_pages s (p + d)) = pg_addr (p_pages s p) + nat d * SIZE_PAGE"
  using nat_less_iff [of d "block_pages k"] by (auto simp: good_block_def dest!: spec [of _ "nat d"])

lemma good_block_halves:
  assumes g: "good_block s (p, Suc k)" and k: "12 \<le> k"
  shows "good_block s (p, k)" and "good_block s (p + int (block_pages k), k)"
proof -
  have a: "2 ^ Suc k dvd pg_addr (p_pages s p)" and le: "p + 2 * int (block_pages k) \<le> int (npages s)"
    and p: "0 \<le> p"
    and c: "\<And>i. i < 2 * block_pages k \<Longrightarrow>
              pg_addr (p_pages s (p + int i)) = pg_addr (p_pages s p) + i * SIZE_PAGE"
    using g k by (auto simp: good_block_def block_pages_Suc)
  have a': "2 ^ k dvd pg_addr (p_pages s p)"
    using a by (simp add: dvd_mult_right)
  then show "good_block s (p, k)" using p le c k by (auto simp: good_block_def)
  let ?r = "p + int (block_pages k)"
  have r: "pg_addr (p_pages s ?r) = pg_addr (p_pages s p) + 2 ^ k"
    using c [of "block_pages k"] k block_pages_bytes [OF k] by simp
  have "pg_addr (p_pages s (?r + int i)) = pg_addr (p_pages s ?r) + i * SIZE_PAGE"
    if "i < block_pages k" for i
    using c [of "block_pages k + i"] that r block_pages_bytes [OF k]
    by (simp add: add.assoc add_mult_distrib)
  then show "good_block s (?r, k)" using p le k a' r by (auto simp: good_block_def)
qed

lemma good_block_join:
  assumes l: "good_block s (p, k)" and r: "good_block s (p + int (block_pages k), k)"
    and al: "2 ^ Suc k dvd pg_addr (p_pages s p)"
    and ad: "pg_addr (p_pages s p) + 2 ^ k = pg_addr (p_pages s (p + int (block_pages k)))"
  shows "good_block s (p, Suc k)"
proof -
  have k: "12 \<le> k" using l by (rule block_order)
  have "pg_addr (p_pages s (p + int i)) = pg_addr (p_pages s p) + i * SIZE_PAGE"
    if i: "i < 2 * block_pages k" for i
  proof (cases "i < block_pages k")
    case True then show ?thesis using l by (simp add: good_block_def)
  next
    case False
    then obtain j where j: "i = block_pages k + j" using le_Suc_ex not_less by blast
    then have "pg_addr (p_pages s (p + int (block_pages k) + int j))
               = pg_addr (p_pages s (p + int (block_pages k))) + j * SIZE_PAGE"
      using r i by (simp add: good_block_def)
    then show ?thesis using j ad block_pages_bytes [OF k]
      by (simp add: add.assoc add_mult_distrib)
  qed
  then show ?thesis using l r al k by (auto simp: good_block_def block_pages_Suc)
qed

lemma blocks_split:
  assumes ok: "blocks_ok s (insert (p, Suc k) B)" and new: "(p, Suc k) \<notin> B" and k: "12 \<le> k"
  shows "blocks_ok s (insert (p, k) (insert (p + int (block_pages k), k) B))"
    and "(p, k) \<notin> B" and "(p + int (block_pages k), k) \<notin> B"
proof -
  let ?r = "p + int (block_pages k)"
  have d: "blk (p, Suc k) \<inter> \<Union> (blk ` B) = {}" and dB: "disjoint_family_on blk B"
    using ok new by (auto simp: blocks_ok_def disjoint_family_on_insert)
  have ne: "blk (p, k) \<noteq> {}" "blk (?r, k) \<noteq> {}" using k by (auto simp: blk_def)
  show n1: "(p, k) \<notin> B" and n2: "(?r, k) \<notin> B"
    using d ne blk_Suc [OF k, of p] by auto
  have "(p, k) \<notin> insert (?r, k) B" using n1 k by auto
  then have "disjoint_family_on blk (insert (p, k) (insert (?r, k) B))"
    using d dB n2 blk_Suc [OF k, of p] blk_halves_disjoint [of p k]
    by (auto simp: disjoint_family_on_insert)
  then show "blocks_ok s (insert (p, k) (insert (?r, k) B))"
    using ok good_block_halves [of s p k] k blk_Suc [OF k, of p]
    by (auto simp: blocks_ok_def)
qed

lemma blocks_join:
  assumes ok: "blocks_ok s (insert (p, k) (insert (p + int (block_pages k), k) B))"
    and new: "(p, k) \<notin> B" "(p + int (block_pages k), k) \<notin> B"
    and al: "2 ^ Suc k dvd pg_addr (p_pages s p)"
    and ad: "pg_addr (p_pages s p) + 2 ^ k = pg_addr (p_pages s (p + int (block_pages k)))"
  shows "blocks_ok s (insert (p, Suc k) B)" and "(p, Suc k) \<notin> B"
proof -
  let ?r = "p + int (block_pages k)"
  have k: "12 \<le> k" using ok block_order by (auto simp: blocks_ok_def)
  have n: "(p, k) \<notin> insert (?r, k) B" using new k by auto
  have d: "blk (p, k) \<inter> \<Union> (blk ` B) = {}" "blk (?r, k) \<inter> \<Union> (blk ` B) = {}"
    and dB: "disjoint_family_on blk B"
    using ok new n by (auto simp: blocks_ok_def disjoint_family_on_insert)
  have "p \<in> blk (p, Suc k)" "p \<in> blk (p, k)" using k by auto
  then show n': "(p, Suc k) \<notin> B" using d by blast
  have "disjoint_family_on blk (insert (p, Suc k) B)"
    using d dB n' blk_Suc [OF k, of p] by (auto simp: disjoint_family_on_insert)
  then show "blocks_ok s (insert (p, Suc k) B)"
    using ok good_block_join [OF _ _ al ad] blk_Suc [OF k, of p] by (auto simp: blocks_ok_def)
qed

lemma mark_alloc_fold:
  assumes "n * SIZE_PAGE \<le> p_freesz s"
  shows "fold (page_alloc_mark f p) [0..<n] s =
    s\<lparr>p_pages := (\<lambda>q. if p \<le> q \<and> q < p + int n
                    then (p_pages s q)\<lparr>pg_flags := (pg_flags (p_pages s q) AND NOT PAGE_FREE) OR f\<rparr>
                    else p_pages s q),
      p_freesz := p_freesz s - n * SIZE_PAGE, p_allocsz := p_allocsz s + n * SIZE_PAGE\<rparr>"
  using assms
proof (induction n)
  case (Suc n)
  then have e: "fold (page_alloc_mark f p) [0..<Suc n] s =
    page_alloc_mark f p n (s\<lparr>p_pages := (\<lambda>q. if p \<le> q \<and> q < p + int n
                    then (p_pages s q)\<lparr>pg_flags := (pg_flags (p_pages s q) AND NOT PAGE_FREE) OR f\<rparr>
                    else p_pages s q),
      p_freesz := p_freesz s - n * SIZE_PAGE, p_allocsz := p_allocsz s + n * SIZE_PAGE\<rparr>)"
    by simp
  show ?case unfolding e
    by (rule pages_t.equality) (auto simp: page_alloc_mark_def set_page_def fun_eq_iff)
qed (rule pages_t.equality, auto simp: fun_eq_iff)

lemma mark_free_fold:
  assumes "n * SIZE_PAGE \<le> p_allocsz s"
  shows "fold (page_free_mark p) [0..<n] s =
    s\<lparr>p_pages := (\<lambda>q. if p \<le> q \<and> q < p + int n
                    then (p_pages s q)\<lparr>pg_flags := pg_flags (p_pages s q) OR PAGE_FREE\<rparr>
                    else p_pages s q),
      p_freesz := p_freesz s + n * SIZE_PAGE, p_allocsz := p_allocsz s - n * SIZE_PAGE\<rparr>"
  using assms
proof (induction n)
  case (Suc n)
  then have e: "fold (page_free_mark p) [0..<Suc n] s =
    page_free_mark p n (s\<lparr>p_pages := (\<lambda>q. if p \<le> q \<and> q < p + int n
                    then (p_pages s q)\<lparr>pg_flags := pg_flags (p_pages s q) OR PAGE_FREE\<rparr>
                    else p_pages s q),
      p_freesz := p_freesz s + n * SIZE_PAGE, p_allocsz := p_allocsz s - n * SIZE_PAGE\<rparr>)"
    by simp
  show ?case unfolding e
    by (rule pages_t.equality) (auto simp: page_free_mark_def set_page_def fun_eq_iff)
qed (rule pages_t.equality, auto simp: fun_eq_iff)

lemma is_free_bit: "is_free p \<longleftrightarrow> bit (pg_flags p) 0"
  by (auto simp: is_free_def PAGE_FREE_def and_one_eq odd_iff_mod_2_eq_one bit_0)

lemma is_free_mark [simp]:
  "is_free (p\<lparr>pg_flags := pg_flags p OR PAGE_FREE\<rparr>)"
  "\<not> bit f 0 \<Longrightarrow> \<not> is_free (p\<lparr>pg_flags := (pg_flags p AND NOT PAGE_FREE) OR f\<rparr>)"
  "is_free (p\<lparr>pg_idx := k\<rparr>) = is_free p"
  by (auto simp: is_free_bit bit_simps PAGE_FREE_def)

definition same_addrs :: "pages_t \<Rightarrow> pages_t \<Rightarrow> bool" where
  "same_addrs s s' \<longleftrightarrow> npages s' = npages s \<and> (\<forall>i. pg_addr (p_pages s' i) = pg_addr (p_pages s i))"

lemma same_addrs_good: "same_addrs s s' \<Longrightarrow> good_block s' b = good_block s b"
  by (auto simp: same_addrs_def good_block_def)

lemma same_addrs_sorted: "same_addrs s s' \<Longrightarrow> addr_sorted s' = addr_sorted s"
  by (auto simp: same_addrs_def addr_sorted_def)

lemma good_block_range: "good_block s b \<Longrightarrow> i \<in> blk b \<Longrightarrow> 0 \<le> i \<and> i < int (npages s)"
  by (cases b) (auto simp: good_block_def blk_def)

lemma blocks_take:
  assumes ok: "blocks_ok s (insert b B)" and new: "b \<notin> B" and "same_addrs s s'"
    and "\<And>i. is_free (p_pages s' i) \<longleftrightarrow> is_free (p_pages s i) \<and> i \<notin> blk b"
  shows "blocks_ok s' B" and "free_pages s' = free_pages s - blk b"
proof -
  show f: "free_pages s' = free_pages s - blk b"
    using assms(3,4) by (auto simp: free_pages_def same_addrs_def)
  show "blocks_ok s' B"
    using ok new assms(3) f unfolding blocks_ok_def
    by (auto simp: disjoint_family_on_insert same_addrs_good)
qed

lemma blocks_give:
  assumes ok: "blocks_ok s B" and g: "good_block s b" and fr: "blk b \<inter> free_pages s = {}"
    and ad: "same_addrs s s'"
    and fl: "\<And>i. is_free (p_pages s' i) \<longleftrightarrow> is_free (p_pages s i) \<or> i \<in> blk b"
  shows "blocks_ok s' (insert b B)" and "b \<notin> B" and "free_pages s' = free_pages s \<union> blk b"
proof -
  have ne: "fst b \<in> blk b" using g block_order [of s "fst b" "snd b"] by (cases b) auto
  show f: "free_pages s' = free_pages s \<union> blk b"
    using ad fl good_block_range [OF g] by (auto simp: free_pages_def same_addrs_def)
  show n: "b \<notin> B" using ok fr ne by (auto simp: blocks_ok_def)
  then show "blocks_ok s' (insert b B)"
    using ok fr g ad f unfolding blocks_ok_def
    by (auto simp: disjoint_family_on_insert same_addrs_good)
qed

subsection \<open>Free lists\<close>

lemma free_blocks_simps [simp]:
  "free_blocks (set_sizes s k (\<lambda>q. LIST_ADD q t)) = insert (t, k) (free_blocks s)"
  "distinct (p_sizes s k) \<Longrightarrow>
     free_blocks (set_sizes s k (\<lambda>q. LIST_REMOVE q t)) = free_blocks s - {(t, k)}"
  "free_blocks (set_page s p f) = free_blocks s"
  by (auto simp: free_blocks_def set_sizes_def set_page_def split: if_splits)

text \<open>Only the free lists and the orders differ between the two states.\<close>

definition same_store :: "pages_t \<Rightarrow> pages_t \<Rightarrow> bool" where
  "same_store s s' \<longleftrightarrow> p_allocsz s' = p_allocsz s \<and> p_freesz s' = p_freesz s \<and> p_bootsz s' = p_bootsz s
     \<and> (\<forall>i. pg_addr (p_pages s' i) = pg_addr (p_pages s i) \<and> pg_flags (p_pages s' i) = pg_flags (p_pages s i))"

lemma same_store_refl [simp]: "same_store s s"
  by (simp add: same_store_def)

lemma same_store_trans: "same_store s t \<Longrightarrow> same_store t u \<Longrightarrow> same_store s u"
  by (simp add: same_store_def)

lemma same_store_updates [simp]:
  "same_store s (set_sizes t k f) = same_store s t"
  "same_store s (set_page t p (\<lambda>p. p\<lparr>pg_idx := j p\<rparr>)) = same_store s t"
  by (auto simp: same_store_def set_sizes_def set_page_def)

lemma same_store_addrs: "same_store s s' \<Longrightarrow> same_addrs s s'"
  by (simp add: same_store_def same_addrs_def)

lemma same_store_free: "same_store s s' \<Longrightarrow> is_free (p_pages s' i) = is_free (p_pages s i)"
  by (simp add: same_store_def is_free_def)

lemma same_store_free_pages: "same_store s s' \<Longrightarrow> free_pages s' = free_pages s"
  by (simp add: free_pages_def is_free_def same_store_def)

lemma same_store_ok:
  assumes "same_store s s'"
  shows "blocks_ok s' B = blocks_ok s B" and "counters_ok s' = counters_ok s"
    and "addr_sorted s' = addr_sorted s"
  using assms same_store_free_pages [OF assms]
  by (simp_all add: blocks_ok_def same_addrs_good [OF same_store_addrs [OF assms]]
      same_addrs_sorted [OF same_store_addrs [OF assms]] counters_ok_def)
    (simp add: same_store_def)

text \<open>
  The state between two list operations: the block \<open>b\<close> is free but in no list.
\<close>

definition pending :: "pages_t \<Rightarrow> int \<times> nat \<Rightarrow> bool" where
  "pending s b \<longleftrightarrow> blocks_ok s (insert b (free_blocks s)) \<and> b \<notin> free_blocks s \<and> lists_ok s
     \<and> counters_ok s \<and> addr_sorted s"

lemma pending_head:
  assumes "pending s (p, k)" and "i \<in> blk (p, k)"
  shows "i \<notin> set (p_sizes s j)"
proof
  assume "i \<in> set (p_sizes s j)"
  then have m: "(i, j) \<in> free_blocks s" by (simp add: free_blocks_def)
  then have "12 \<le> j" using assms(1) block_order by (auto simp: pending_def blocks_ok_def)
  then have "i \<in> blk (i, j)" by simp
  with m assms have "(i, j) = (p, k)"
    by (intro block_sep [of s "insert (p, k) (free_blocks s)" _ _ i]) (simp_all add: pending_def)
  then show False using m assms(1) by (simp add: pending_def)
qed

lemma lists_ok_remove: "lists_ok s \<Longrightarrow> lists_ok (set_sizes s k (\<lambda>q. LIST_REMOVE q t))"
  by (auto simp: lists_ok_def set_sizes_def)

lemma lists_ok_add:
  "lists_ok s \<Longrightarrow> t \<notin> set (p_sizes s k) \<Longrightarrow> pg_idx (p_pages s t) = k \<Longrightarrow>
   lists_ok (set_sizes s k (\<lambda>q. LIST_ADD q t))"
  by (auto simp: lists_ok_def set_sizes_def)

lemma lists_ok_idx:
  "lists_ok s \<Longrightarrow> (\<And>j. t \<notin> set (p_sizes s j)) \<Longrightarrow> lists_ok (set_page s t f)"
  by (auto simp: lists_ok_def set_page_def)

lemma pending_take:
  assumes inv: "page_inv s" and m: "(p, k) \<in> free_blocks s"
  shows "pending (set_sizes s k (\<lambda>q. LIST_REMOVE q p)) (p, k)"
proof -
  let ?s = "set_sizes s k (\<lambda>q. LIST_REMOVE q p)"
  have e: "same_store s ?s" by simp
  have "distinct (p_sizes s k)" using inv by (simp add: page_inv_def lists_ok_def)
  then show ?thesis
    using inv m lists_ok_remove [of s k p]
    by (simp add: pending_def page_inv_def same_store_ok [OF e] insert_absorb)
qed

lemma pending_put:
  assumes pe: "pending s (p, k)" and i: "pg_idx (p_pages s p) = k"
  shows "page_inv (set_sizes s k (\<lambda>q. LIST_ADD q p))"
proof -
  let ?s = "set_sizes s k (\<lambda>q. LIST_ADD q p)"
  have e: "same_store s ?s" by simp
  have "p \<notin> set (p_sizes s k)" using pe by (auto simp: pending_def free_blocks_def)
  then show ?thesis
    using pe i lists_ok_add [of s p k]
    by (simp add: pending_def page_inv_def same_store_ok [OF e])
qed

lemma pending_idx:
  assumes pe: "pending s (p, k)" and i: "i \<in> blk (p, k)"
  shows "pending (set_page s i (\<lambda>p. p\<lparr>pg_idx := f p\<rparr>)) (p, k)"
proof -
  let ?s = "set_page s i (\<lambda>p. p\<lparr>pg_idx := f p\<rparr>)"
  have e: "same_store s ?s" by simp
  show ?thesis using pe lists_ok_idx [of s i] pending_head [OF pe i]
    by (simp add: pending_def same_store_ok [OF e])
qed

lemma pending_split:
  assumes pe: "pending s (p, Suc k)" and k: "12 \<le> k" and i: "pg_idx (p_pages s p) = k"
  shows "pending (set_sizes s k (\<lambda>q. LIST_ADD q p)) (p + int (block_pages k), k)"
proof -
  let ?s = "set_sizes s k (\<lambda>q. LIST_ADD q p)" and ?r = "p + int (block_pages k)"
  have e: "same_store s ?s" by simp
  have ok: "blocks_ok s (insert (p, Suc k) (free_blocks s))" "(p, Suc k) \<notin> free_blocks s"
    using pe by (simp_all add: pending_def)
  have "p \<notin> set (p_sizes s k)" using pending_head [OF pe] k by simp
  then have "lists_ok ?s" using pe i lists_ok_add [of s p k] by (simp add: pending_def)
  moreover have "blocks_ok ?s (insert (?r, k) (insert (p, k) (free_blocks s)))"
    using blocks_split(1) [OF ok k] by (simp add: same_store_ok [OF e] insert_commute)
  moreover have "(?r, k) \<notin> insert (p, k) (free_blocks s)"
    using blocks_split(3) [OF ok k] k by auto
  ultimately show ?thesis using pe by (simp add: pending_def same_store_ok [OF e])
qed

subsection \<open>Allocation\<close>

lemma set_page_simps [simp]:
  "p_pages (set_page s p f) p = f (p_pages s p)"
  "q \<noteq> p \<Longrightarrow> p_pages (set_page s p f) q = p_pages s q"
  "p_pages (set_sizes s k g) = p_pages s"
  "p_sizes (set_page s p f) = p_sizes s"
  "p_allocsz (set_page s p f) = p_allocsz s" "p_freesz (set_page s p f) = p_freesz s"
  "p_allocsz (set_sizes s k g) = p_allocsz s" "p_freesz (set_sizes s k g) = p_freesz s"
  by (simp_all add: set_page_def set_sizes_def)

text \<open>One turn of the split loop on a block of order \<open>k + 1\<close>.\<close>

definition split_turn :: "pages_t \<Rightarrow> int \<Rightarrow> nat \<Rightarrow> pages_t" where
  "split_turn s lh k =
     (let s1 = set_sizes s (Suc k) (\<lambda>q. LIST_REMOVE q lh);
          s2 = set_page s1 lh (\<lambda>p. p\<lparr>pg_idx := pg_idx p - 1\<rparr>);
          s3 = set_page s2 (lh + int (block_pages (pg_idx (p_pages s2 lh))))
                 (\<lambda>p. p\<lparr>pg_idx := pg_idx (p_pages s2 lh)\<rparr>);
          s4 = set_sizes s3 k (\<lambda>q. LIST_ADD q lh)
      in set_sizes s4 k (\<lambda>q. LIST_ADD q (lh + int (block_pages (pg_idx (p_pages s2 lh))))))"

lemma page_alloc_split_turn:
  "start \<le> k \<Longrightarrow> page_alloc_split s lh start (Suc k) = page_alloc_split (split_turn s lh k) lh start k"
  by (subst page_alloc_split.simps) (simp add: split_turn_def Let_def)

lemma page_alloc_split_done [simp]: "page_alloc_split s lh start start = s"
  by (subst page_alloc_split.simps) simp

lemma split_turn_ok:
  assumes inv: "page_inv s" and m: "(lh, Suc k) \<in> free_blocks s" and k: "12 \<le> k"
  shows "page_inv (split_turn s lh k)" and "(lh, k) \<in> free_blocks (split_turn s lh k)"
    and "same_store s (split_turn s lh k)"
    and "q \<notin> free_pages s \<Longrightarrow> pg_idx (p_pages (split_turn s lh k) q) = pg_idx (p_pages s q)"
proof -
  let ?s1 = "set_sizes s (Suc k) (\<lambda>q. LIST_REMOVE q lh)"
  let ?s2 = "set_page ?s1 lh (\<lambda>p. p\<lparr>pg_idx := pg_idx p - 1\<rparr>)"
  let ?rh = "lh + int (block_pages k)"
  let ?s3 = "set_page ?s2 ?rh (\<lambda>p. p\<lparr>pg_idx := k\<rparr>)"
  let ?s4 = "set_sizes ?s3 k (\<lambda>q. LIST_ADD q lh)"
  have i: "pg_idx (p_pages s lh) = Suc k"
    using inv m by (auto simp: page_inv_def lists_ok_def free_blocks_def)
  then have e: "split_turn s lh k = set_sizes ?s4 k (\<lambda>q. LIST_ADD q ?rh)"
    by (simp add: split_turn_def Let_def)
  have B: "lh \<in> blk (lh, Suc k)" "?rh \<in> blk (lh, Suc k)" and ne: "?rh \<noteq> lh"
    using k block_pages_pos [OF k] by (simp_all add: blk_def block_pages_Suc)
  have "blk (lh, Suc k) \<subseteq> free_pages s" using inv m by (auto simp: page_inv_def blocks_ok_def)
  then show "q \<notin> free_pages s \<Longrightarrow> pg_idx (p_pages (split_turn s lh k) q) = pg_idx (p_pages s q)"
    unfolding e using B by (cases "q = lh"; cases "q = ?rh") auto
  from B have "pending ?s3 (lh, Suc k)"
    by (intro pending_idx pending_take [OF inv m])
  then have "pending ?s4 (?rh, k)"
    by (rule pending_split [OF _ k]) (use i ne in simp)
  then show "page_inv (split_turn s lh k)"
    unfolding e by (rule pending_put) (use k in simp)
  show "(lh, k) \<in> free_blocks (split_turn s lh k)" and "same_store s (split_turn s lh k)"
    unfolding e by simp_all
qed

lemma page_alloc_split_ok:
  assumes "page_inv s" and "(lh, stop) \<in> free_blocks s" and "12 \<le> start" and "start \<le> stop"
  shows "page_inv (page_alloc_split s lh start stop)
    \<and> (lh, start) \<in> free_blocks (page_alloc_split s lh start stop)
    \<and> same_store s (page_alloc_split s lh start stop)
    \<and> (\<forall>q. q \<notin> free_pages s \<longrightarrow>
          pg_idx (p_pages (page_alloc_split s lh start stop) q) = pg_idx (p_pages s q))"
  using assms(4,1,2)
proof (induction stop arbitrary: s rule: dec_induct)
  case (step k)
  then have k: "12 \<le> k" using assms(3) by simp
  note t = split_turn_ok [OF step.prems k]
  show ?case
    using step.IH [OF t(1,2)] same_store_trans [OF t(3)] step.hyps t(4) same_store_free_pages [OF t(3)]
    by (simp add: page_alloc_split_turn)
qed simp

lemma page_alloc_find_ok:
  "start \<le> SIZE_VM_SIZES \<Longrightarrow> stop = page_alloc_find s start \<Longrightarrow>
   start \<le> stop \<and> stop \<le> SIZE_VM_SIZES \<and> (\<forall>j. start \<le> j \<and> j < stop \<longrightarrow> p_sizes s j = [])
   \<and> (stop < SIZE_VM_SIZES \<longrightarrow> p_sizes s stop \<noteq> [])"
proof (induction s start rule: page_alloc_find.induct)
  case (1 s start)
  show ?case
  proof (cases "start < SIZE_VM_SIZES \<and> p_sizes s start = []")
    case True
    with 1 have "stop = page_alloc_find s (start + 1)"
      by (simp add: page_alloc_find.simps [of s start])
    with 1 True show ?thesis by (metis Suc_eq_plus1 Suc_leI Suc_le_lessD le_neq_implies_less less_imp_le)
  next
    case False
    with 1 show ?thesis by (auto simp: page_alloc_find.simps [of s start])
  qed
qed

lemma taken_state:
  assumes pe: "pending s (p, k)" and i: "pg_idx (p_pages s p) = k" and f: "\<not> bit f 0"
    and s': "s' = fold (page_alloc_mark f p) [0..<block_pages k] s"
  shows "page_inv s'" and "free_pages s' = free_pages s - blk (p, k)"
    and "p_freesz s' + 2 ^ k = p_freesz s" and "same_addrs s s'"
    and "pg_idx (p_pages s' q) = pg_idx (p_pages s q)" and "p_sizes s' = p_sizes s"
proof -
  have ok: "blocks_ok s (insert (p, k) (free_blocks s))" and new: "(p, k) \<notin> free_blocks s"
    and c: "p_freesz s = card (free_pages s) * SIZE_PAGE" using pe by (simp_all add: pending_def counters_ok_def)
  then have k: "12 \<le> k" using block_order by (auto simp: blocks_ok_def)
  have sub: "blk (p, k) \<subseteq> free_pages s" using ok by (auto simp: blocks_ok_def)
  then have "card (blk (p, k)) \<le> card (free_pages s)" by (simp add: card_mono)
  then have le: "block_pages k * SIZE_PAGE \<le> p_freesz s" using c by (simp add: card_blk)
  note e = s' [unfolded mark_alloc_fold [OF le]]
  show ad: "same_addrs s s'" using le by (simp add: e same_addrs_def)
  show ix: "pg_idx (p_pages s' q) = pg_idx (p_pages s q)" for q by (simp add: e)
  show sz: "p_sizes s' = p_sizes s" by (simp add: e)
  have fl: "is_free (p_pages s' i) \<longleftrightarrow> is_free (p_pages s i) \<and> i \<notin> blk (p, k)" for i
    using f by (auto simp: e blk_def)
  show fp: "free_pages s' = free_pages s - blk (p, k)" by (rule blocks_take(2) [OF ok new ad fl])
  then have "card (free_pages s') = card (free_pages s) - block_pages k"
    using sub by (simp add: card_Diff_subset card_blk)
  then have "counters_ok s'" using pe le c
    by (simp add: pending_def counters_ok_def e diff_mult_distrib)
  moreover have "free_blocks s' = free_blocks s" by (simp add: free_blocks_def sz)
  ultimately show "page_inv s'"
    using blocks_take(1) [OF ok new ad fl] pe ix sz same_addrs_sorted [OF ad]
    by (simp add: page_inv_def pending_def lists_ok_def)
  show "p_freesz s' + 2 ^ k = p_freesz s" using le block_pages_bytes [OF k] by (simp add: e)
qed

text \<open>The order \<open>_page_alloc\<close> serves a request from.\<close>

definition alloc_order :: "nat \<Rightarrow> nat" where
  "alloc_order sz = size_index (if sz < SIZE_PAGE then SIZE_PAGE else sz)"

lemma alloc_order_bounds:
  shows "12 \<le> alloc_order sz" and "sz \<le> 2 ^ alloc_order sz" and "sz \<le> 2 ^ 32 \<Longrightarrow> alloc_order sz \<le> 32"
proof -
  let ?z = "if sz < SIZE_PAGE then SIZE_PAGE else sz"
  have pos: "0 < ?z" and le: "2 ^ 12 \<le> ?z" "sz \<le> ?z" by (auto simp: SIZE_PAGE_def)
  have ge: "?z \<le> 2 ^ alloc_order sz"
    unfolding alloc_order_def by (rule size_index_ge [OF pos])
  then have "(2::nat) ^ 12 \<le> 2 ^ alloc_order sz" using le(1) by linarith
  then show "12 \<le> alloc_order sz" using power_le_imp_le_exp [of "2::nat" 12] by simp
  show "sz \<le> 2 ^ alloc_order sz" using ge le(2) by linarith
  show "alloc_order sz \<le> 32" if "sz \<le> 2 ^ 32"
    unfolding alloc_order_def by (rule size_index_least [OF pos]) (use that in \<open>simp add: SIZE_PAGE_def\<close>)
qed

text \<open>A block handed out and not yet released.\<close>

definition allocated :: "pages_t \<Rightarrow> int \<times> nat \<Rightarrow> bool" where
  "allocated s b \<longleftrightarrow> good_block s b \<and> pg_idx (p_pages s (fst b)) = snd b \<and> blk b \<inter> free_pages s = {}"


lemma page_alloc_Some:
  assumes inv: "page_inv s" and sz: "sz \<le> 2 ^ 32" and f: "\<not> bit f 0"
    and r: "page_alloc s sz f = (s', Some p)" and k: "k = alloc_order sz"
  shows "page_inv s'" and "allocated s' (p, k)" and "blk (p, k) \<subseteq> free_pages s"
    and "free_pages s' = free_pages s - blk (p, k)" and "p_freesz s' + 2 ^ k = p_freesz s"
    and "same_addrs s s'" and "q \<notin> free_pages s \<Longrightarrow> pg_idx (p_pages s' q) = pg_idx (p_pages s q)"
proof -
  define stop where "stop = page_alloc_find s k"
  have F: "k \<le> stop" "stop < SIZE_VM_SIZES \<Longrightarrow> p_sizes s stop \<noteq> []" "stop \<le> SIZE_VM_SIZES"
    using page_alloc_find_ok [of k stop s] alloc_order_bounds(3) [OF sz] stop_def k
    by (auto simp: SIZE_VM_SIZES_def)
  let ?s1 = "page_alloc_split s p k stop"
  let ?s2 = "set_sizes ?s1 k (\<lambda>q. LIST_REMOVE q p)"
  have ne: "stop \<noteq> SIZE_VM_SIZES" and p: "p = hd (p_sizes s stop)"
    and s': "s' = fold (page_alloc_mark f p) [0..<block_pages (pg_idx (p_pages ?s2 p))] ?s2"
    using r by (auto simp: page_alloc_def stop_def k alloc_order_def Let_def split: if_splits)
  have "(p, stop) \<in> free_blocks s" using F ne p by (simp add: free_blocks_def)
  then have S: "page_inv ?s1" "(p, k) \<in> free_blocks ?s1" "same_store s ?s1"
      "\<And>q. q \<notin> free_pages s \<Longrightarrow> pg_idx (p_pages ?s1 q) = pg_idx (p_pages s q)"
    using page_alloc_split_ok [OF inv _ _ F(1)] alloc_order_bounds(1) k by auto
  have i: "pg_idx (p_pages ?s1 p) = k"
    using S(1,2) by (auto simp: page_inv_def lists_ok_def free_blocks_def)
  have pe: "pending ?s2 (p, k)" by (rule pending_take [OF S(1,2)])
  have "pg_idx (p_pages ?s2 p) = k" using i by simp
  note T = taken_state [OF pe this f s' [unfolded this]]
  have e: "same_store s ?s2" using S(3) by simp
  then have fp: "free_pages ?s2 = free_pages s" by (rule same_store_free_pages)
  show "page_inv s'" by (rule T(1))
  show "q \<notin> free_pages s \<Longrightarrow> pg_idx (p_pages s' q) = pg_idx (p_pages s q)"
    using T(5) [of q] S(4) by simp
  show fr: "free_pages s' = free_pages s - blk (p, k)" using T(2) fp by simp
  show "p_freesz s' + 2 ^ k = p_freesz s" using T(3) e by (simp add: same_store_def)
  show sa: "same_addrs s s'" using T(4) e by (simp add: same_addrs_def same_store_def)
  have g: "good_block ?s2 (p, k)" and "blk (p, k) \<subseteq> free_pages ?s2"
    using pe by (auto simp: pending_def blocks_ok_def)
  then show "blk (p, k) \<subseteq> free_pages s" using fp by simp
  show "allocated s' (p, k)"
    using g fr i T(5) [of p] same_addrs_good [OF T(4)] by (auto simp: allocated_def)
qed

subsection \<open>Release\<close>

lemma given_state:
  assumes inv: "page_inv s" and al: "allocated s (p, k)"
    and s': "s' = fold (page_free_mark p) [0..<block_pages k] s"
  shows "pending s' (p, k)" and "free_pages s' = free_pages s \<union> blk (p, k)"
    and "p_freesz s' = p_freesz s + 2 ^ k" and "same_addrs s s'"
    and "pg_idx (p_pages s' q) = pg_idx (p_pages s q)"
proof -
  have ok: "blocks_ok s (free_blocks s)" and c: "counters_ok s" using inv by (simp_all add: page_inv_def)
  have g: "good_block s (p, k)" and fr: "blk (p, k) \<inter> free_pages s = {}" and k: "12 \<le> k"
    using al block_order by (auto simp: allocated_def)
  have "blk (p, k) \<union> free_pages s \<subseteq> {0 ..< int (npages s)}"
    using good_block_range [OF g] by (auto simp: free_pages_def)
  from card_mono [OF _ this] have "block_pages k + card (free_pages s) \<le> npages s"
    using fr by (simp add: card_Un_disjoint card_blk)
  then have "(block_pages k + card (free_pages s)) * SIZE_PAGE \<le> npages s * SIZE_PAGE"
    by (rule mult_right_mono) simp
  also have "\<dots> = p_allocsz s + p_freesz s"
    using c by (metis counters_ok_def dvd_div_mult_self)
  finally have le: "block_pages k * SIZE_PAGE \<le> p_allocsz s"
    using c by (simp add: counters_ok_def add_mult_distrib)
  note e = s' [unfolded mark_free_fold [OF le]]
  show ad: "same_addrs s s'" using le by (simp add: e same_addrs_def)
  show ix: "pg_idx (p_pages s' q) = pg_idx (p_pages s q)" for q by (simp add: e)
  have sz: "p_sizes s' = p_sizes s" by (simp add: e)
  have fl: "is_free (p_pages s' i) \<longleftrightarrow> is_free (p_pages s i) \<or> i \<in> blk (p, k)" for i
    by (auto simp: e blk_def)
  note G = blocks_give [OF ok g fr ad fl]
  show "free_pages s' = free_pages s \<union> blk (p, k)" by (rule G(3))
  then have "card (free_pages s') = card (free_pages s) + block_pages k"
    using fr by (simp add: card_Un_disjoint card_blk Int_commute)
  then have "p_freesz s' = card (free_pages s') * SIZE_PAGE"
    using c by (simp add: counters_ok_def add_mult_distrib) (simp add: e)
  moreover have "p_allocsz s' + p_freesz s' = p_allocsz s + p_freesz s" using le by (simp add: e)
  ultimately have "counters_ok s'" using c by (metis counters_ok_def)
  moreover have "free_blocks s' = free_blocks s" by (simp add: free_blocks_def sz)
  ultimately show "pending s' (p, k)"
    using G(1,2) inv ix sz same_addrs_sorted [OF ad] by (simp add: page_inv_def pending_def lists_ok_def)
  show "p_freesz s' = p_freesz s + 2 ^ k" using block_pages_bytes [OF k] by (simp add: e)
qed

lemma mask_aligned: "a AND (2 ^ n - 1) = 0 \<longleftrightarrow> 2 ^ n dvd (a :: nat)"
  by (metis dvd_eq_mod_eq_0 mask_eq_exp_minus_1 take_bit_eq_mask take_bit_eq_mod)

lemma FirstBit_page [simp]: "hal_cpuGetFirstBit SIZE_PAGE = 12"
  using FirstBit_pow2 [of 12] by (simp add: SIZE_PAGE_def)

lemma free_page_covered:
  assumes pe: "pending s (p, k)" and i: "0 \<le> i" "i < int (npages s)" "is_free (p_pages s i)"
    and out: "i \<notin> blk (p, k)"
  obtains q j where "(q, j) \<in> free_blocks s" and "i \<in> blk (q, j)" and "p \<notin> blk (q, j)"
    and "good_block s (q, j)" and "pg_idx (p_pages s q) = j" and "q \<notin> blk (p, k)"
proof -
  have ok: "blocks_ok s (insert (p, k) (free_blocks s))" and l: "lists_ok s"
    using pe by (simp_all add: pending_def)
  have "i \<in> free_pages s" using i by (simp add: free_pages_def)
  then obtain q j where m: "(q, j) \<in> free_blocks s" and b: "i \<in> blk (q, j)"
    using ok out by (auto simp: blocks_ok_def)
  then have g: "good_block s (q, j)" and idx: "pg_idx (p_pages s q) = j"
    using ok l by (auto simp: blocks_ok_def lists_ok_def free_blocks_def)
  have "12 \<le> k" using block_good [OF ok] block_order by blast
  then have p: "p \<in> blk (p, k)" by simp
  have "p \<notin> blk (q, j)"
    using block_sep [OF ok, of "(p, k)" "(q, j)" p] m p pe by (auto simp: pending_def)
  moreover have "q \<notin> blk (p, k)"
    using m pending_head [OF pe] by (auto simp: free_blocks_def)
  ultimately show thesis using that m b g idx by blast
qed

lemma right_buddy:
  assumes pe: "pending s (p, k)" and r: "r = p + int (block_pages k)" "r < int (npages s)"
    and f: "is_free (p_pages s r)" and i: "pg_idx (p_pages s r) = k"
  shows "(r, k) \<in> free_blocks s"
proof -
  have g: "good_block s (p, k)" using pe by (auto simp: pending_def blocks_ok_def)
  then have "0 \<le> r" "r \<notin> blk (p, k)" using r by (auto simp: good_block_def blk_def)
  then obtain q j where q: "(q, j) \<in> free_blocks s" "r \<in> blk (q, j)" "p \<notin> blk (q, j)"
      "pg_idx (p_pages s q) = j" "q \<notin> blk (p, k)"
    using free_page_covered [OF pe _ r(2) f] by metis
  then have "q = r" using r(1) by (auto simp: blk_def)
  then show ?thesis using q i by simp
qed

lemma aligned_inside:
  assumes g: "good_block s (q, j)" and b: "l \<in> blk (q, j)" and d: "m \<le> j" "12 \<le> m"
    and al: "2 ^ m dvd pg_addr (p_pages s l)"
  shows "\<exists>c. l = q + int (c * block_pages m)"
proof -
  define d where "d = nat (l - q)"
  have l: "l = q + int d" "d < block_pages j" using b by (auto simp: d_def blk_def)
  have a: "pg_addr (p_pages s l) = pg_addr (p_pages s q) + d * SIZE_PAGE"
    using g l by (simp add: good_block_def)
  have "2 ^ m dvd pg_addr (p_pages s q)"
    using g assms(3) by (auto simp: good_block_def intro: power_le_dvd)
  then have "2 ^ m dvd d * SIZE_PAGE" using al a by (simp add: dvd_add_right_iff)
  then have "block_pages m * SIZE_PAGE dvd d * SIZE_PAGE" by (simp add: block_pages_bytes [OF assms(4)])
  then have "block_pages m dvd d" by (simp add: SIZE_PAGE_def)
  then show ?thesis using l by (auto simp: mult.commute)
qed

lemma block_pages_dvd: "12 \<le> m \<Longrightarrow> m \<le> j \<Longrightarrow> block_pages m dvd block_pages j"
  by (simp add: block_pages_eq le_imp_power_dvd diff_le_mono)

lemma left_buddy:
  assumes pe: "pending s (p, k)" and l: "l = p - int (block_pages k)" "0 \<le> l"
    and f: "is_free (p_pages s l)" and i: "pg_idx (p_pages s l) = k"
    and al: "2 ^ Suc k dvd pg_addr (p_pages s l)"
  shows "(l, k) \<in> free_blocks s"
proof -
  have g: "good_block s (p, k)" using pe by (auto simp: pending_def blocks_ok_def)
  then have k: "12 \<le> k" and "p + int (block_pages k) \<le> int (npages s)"
    by (simp_all add: good_block_def)
  then have "l < int (npages s)" "l \<notin> blk (p, k)"
    using l block_pages_pos [OF k] by (linarith, simp add: blk_def)
  then obtain q j where q: "(q, j) \<in> free_blocks s" "l \<in> blk (q, j)" "p \<notin> blk (q, j)"
      "good_block s (q, j)" "pg_idx (p_pages s q) = j"
    using free_page_covered [OF pe l(2) _ f] by metis
  have j: "12 \<le> j" using q(4) by (rule block_order)
  define m where "m = min j (Suc k)"
  have m: "m \<le> j" "12 \<le> m" and "2 ^ m dvd pg_addr (p_pages s l)"
    using j k al by (auto simp: m_def min_def intro: dvd_trans [OF le_imp_power_dvd])
  then obtain c where c: "l = q + int (c * block_pages m)"
    using aligned_inside [OF q(4,2)] by blast
  obtain n where n: "block_pages j = n * block_pages m"
    using block_pages_dvd [OF m(2,1)] by (auto simp: dvd_def mult.commute)
  have lt: "int (c * block_pages m) < int (block_pages j)" using c q(2) by (simp add: blk_def)
  then have cn: "c < n" unfolding n of_nat_less_iff by simp
  have "l = q"
  proof (cases "j \<le> Suc k")
    case True
    then have "m = j" by (simp add: m_def)
    then have "c * block_pages j < 1 * block_pages j" using lt unfolding of_nat_less_iff by simp
    then have "c = 0" unfolding mult_less_cancel2 by simp
    then show ?thesis using c by simp
  next
    case False
    then have m': "block_pages m = 2 * block_pages k" using block_pages_Suc [OF k] by (simp add: m_def)
    have "Suc c * block_pages m \<le> block_pages j" unfolding n using cn by (intro mult_right_mono) auto
    then have "c * block_pages m + 2 * block_pages k \<le> block_pages j" using m' by simp
    then have "p < q + int (block_pages j)" "q \<le> p"
      using c l(1) block_pages_pos [OF k] by linarith+
    then show ?thesis using q(3) by (simp add: blk_def)
  qed
  then show ?thesis using q i by simp
qed

lemma pending_merge:
  assumes pe: "pending s (p, k)" and o: "(q, k) \<in> free_blocks s"
    and pq: "{p, q} = {l, l + int (block_pages k)}"
    and al: "2 ^ Suc k dvd pg_addr (p_pages s l)"
    and ad: "pg_addr (p_pages s l) + 2 ^ k = pg_addr (p_pages s (l + int (block_pages k)))"
  shows "pending (set_sizes s k (\<lambda>r. LIST_REMOVE r q)) (l, Suc k)"
proof -
  let ?s = "set_sizes s k (\<lambda>r. LIST_REMOVE r q)" and ?B = "free_blocks s - {(q, k)}"
  have e: "same_store s ?s" by simp
  have d: "distinct (p_sizes s k)" using pe by (simp add: pending_def lists_ok_def)
  have ok: "blocks_ok s (insert (p, k) (free_blocks s))" and n: "(p, k) \<notin> free_blocks s"
    using pe by (simp_all add: pending_def)
  have "insert (p, k) (free_blocks s) = insert (l, k) (insert (l + int (block_pages k), k) ?B)"
    using o pq by (auto simp: doubleton_eq_iff)
  with ok have ok': "blocks_ok s (insert (l, k) (insert (l + int (block_pages k), k) ?B))" by simp
  have n': "(l, k) \<notin> ?B" "(l + int (block_pages k), k) \<notin> ?B"
    using n pq by (auto simp: doubleton_eq_iff)
  show ?thesis
    using blocks_join [OF ok' n' al ad] pe lists_ok_remove [of s k q]
    by (simp add: pending_def same_store_ok [OF e] d)
qed

text \<open>
  What \<open>lh\<close> and \<open>rh\<close> can be when the loop of \<open>_page_free\<close> tests its condition for the block
  \<open>p\<close> of order \<open>k\<close>. In the last case the block needs its left buddy, but \<open>rh\<close> still points
  at the middle of the block merged in the turn before.
\<close>

definition buddy_state :: "pages_t \<Rightarrow> int \<Rightarrow> nat \<Rightarrow> int \<Rightarrow> int \<Rightarrow> bool" where
  "buddy_state s p k lh rh \<longleftrightarrow>
     (lh = p \<and> rh = p + int (block_pages k) \<and> 2 ^ Suc k dvd pg_addr (p_pages s p))
   \<or> (lh = p - int (block_pages k) \<and> rh = p \<and> \<not> 2 ^ Suc k dvd pg_addr (p_pages s p))
   \<or> (lh = p - int (block_pages k) \<and> 12 < k \<and> rh = p + int (block_pages (k - 1))
      \<and> pg_idx (p_pages s rh) = 12)"

lemma stale_never_merges:
  assumes so: "addr_sorted s" and k: "12 < k" and i: "pg_idx (p_pages s rh) = 12"
    and lr: "lh = p - int (block_pages k)" "rh = p + int (block_pages (k - 1))"
  shows "\<not> page_free_merges s lh rh k"
proof
  assume m: "page_free_merges s lh rh k"
  then have r: "0 \<le> lh" "rh < int (npages s)"
    and eq: "pg_addr (p_pages s lh) + 4096 = pg_addr (p_pages s rh)"
    using i by (auto simp: page_free_merges_def)
  have b: "0 < block_pages k" "0 < block_pages (k - 1)" using k by simp_all
  then have "lh < rh" using lr by linarith
  with so r have "pg_addr (p_pages s lh) + nat (rh - lh) * SIZE_PAGE \<le> pg_addr (p_pages s rh)"
    by (simp add: addr_sorted_def)
  moreover have "2 \<le> nat (rh - lh)" using lr b by linarith
  then have "2 * SIZE_PAGE \<le> nat (rh - lh) * SIZE_PAGE" by (rule mult_right_mono) simp
  ultimately show False using eq by (simp add: SIZE_PAGE_def)
qed

lemma merge_turn:
  assumes pe: "pending s (p, k)" and i: "pg_idx (p_pages s p) = k" and b: "buddy_state s p k lh rh"
    and m: "page_free_merges s lh rh k"
  shows "rh = lh + int (block_pages k)" and "p \<in> {lh, rh}"
    and "2 ^ Suc k dvd pg_addr (p_pages s lh)"
    and "((if p = lh then rh else lh), k) \<in> free_blocks s"
    and "pg_addr (p_pages s lh) + 2 ^ k = pg_addr (p_pages s (lh + int (block_pages k)))"
    and "pg_idx (p_pages s lh) = k"
proof -
  have g: "good_block s (p, k)" and so: "addr_sorted s"
    using pe by (auto simp: pending_def blocks_ok_def)
  then have k: "12 \<le> k" and al: "2 ^ k dvd pg_addr (p_pages s p)" by (simp_all add: good_block_def)
  have M: "0 \<le> lh" "rh < int (npages s)" "is_free (p_pages s lh)" "is_free (p_pages s rh)"
    "pg_idx (p_pages s lh) = pg_idx (p_pages s rh)"
    "pg_addr (p_pages s lh) + 2 ^ pg_idx (p_pages s lh) = pg_addr (p_pages s rh)"
    using m unfolding page_free_merges_def by blast+
  consider (right) "lh = p" "rh = p + int (block_pages k)" "2 ^ Suc k dvd pg_addr (p_pages s p)"
    | (left) "lh = p - int (block_pages k)" "rh = p" "\<not> 2 ^ Suc k dvd pg_addr (p_pages s p)"
    using b stale_never_merges [OF so] m by (auto simp: buddy_state_def)
  then have "rh = lh + int (block_pages k) \<and> p \<in> {lh, rh} \<and> 2 ^ Suc k dvd pg_addr (p_pages s lh)
    \<and> ((if p = lh then rh else lh), k) \<in> free_blocks s \<and> pg_idx (p_pages s lh) = k"
  proof cases
    case right
    then show ?thesis using right_buddy [OF pe right(2) M(2,4)] M(5) i by simp
  next
    case left
    then have il: "pg_idx (p_pages s lh) = k" using M(5) i by simp
    then have ad: "pg_addr (p_pages s lh) + 2 ^ k = pg_addr (p_pages s p)" using M(6) left(2) by simp
    obtain c where c: "pg_addr (p_pages s p) = 2 ^ k * c" using al by (auto simp: dvd_def)
    have "odd c" using left(3) c by (auto simp: mult.assoc elim!: evenE)
    then obtain d where "c = 2 * d + 1" by (auto elim: oddE)
    then have "pg_addr (p_pages s lh) = 2 ^ Suc k * d" using ad c by (simp add: algebra_simps)
    then have "2 ^ Suc k dvd pg_addr (p_pages s lh)" by simp
    moreover have "p \<noteq> lh" using left(1) block_pages_pos [OF k] by simp
    ultimately show ?thesis using left_buddy [OF pe left(1) M(1,3) il] left il by simp
  qed
  then show "rh = lh + int (block_pages k)" "p \<in> {lh, rh}" "2 ^ Suc k dvd pg_addr (p_pages s lh)"
    "((if p = lh then rh else lh), k) \<in> free_blocks s" "pg_idx (p_pages s lh) = k"
    "pg_addr (p_pages s lh) + 2 ^ k = pg_addr (p_pages s (lh + int (block_pages k)))"
    using M(6) by auto
qed

lemma page_buddies_state:
  assumes "lh = p" and "12 < k" and "rh = p + int (block_pages (k - 1))" and "pg_idx (p_pages s rh) = 12"
  shows "case page_buddies s p k lh rh of (lh', rh') \<Rightarrow> buddy_state s p k lh' rh'"
  using assms mask_aligned [of "pg_addr (p_pages s p)" "Suc k"]
  by (simp add: page_buddies_def buddy_state_def)

lemma page_free_loop_ok:
  assumes "pending s (p, k)" and "pg_idx (p_pages s p) = k" and "buddy_state s p k lh rh"
    and "page_free_loop s p lh rh k = (s', p', k')"
  shows "pending s' (p', k') \<and> pg_idx (p_pages s' p') = k' \<and> same_store s s' \<and> blk (p, k) \<subseteq> blk (p', k')
    \<and> (\<forall>q. q \<notin> free_pages s \<longrightarrow> pg_idx (p_pages s' q) = pg_idx (p_pages s q))"
  using assms
proof (induction s p lh rh k rule: page_free_loop.induct)
  case (1 s p lh rh k)
  show ?case
  proof (cases "page_free_merges s lh rh k")
    case False
    then show ?thesis using 1(2-5) by (simp add: page_free_loop.simps [of s p lh rh k])
  next
    case True
    note M = merge_turn [OF 1(2-4) True]
    define s1 where "s1 = set_sizes s k (\<lambda>q. LIST_REMOVE q (if p = lh then rh else lh))"
    define s2 where "s2 = set_page s1 rh (\<lambda>pg. pg\<lparr>pg_idx := hal_cpuGetFirstBit SIZE_PAGE\<rparr>)"
    define s3 where "s3 = set_page s2 lh (\<lambda>pg. pg\<lparr>pg_idx := pg_idx pg + 1\<rparr>)"
    obtain lh' rh' where B: "page_buddies s3 lh (k + 1) lh rh = (lh', rh')" by fastforce
    have k: "12 \<le> k" using 1(2) block_order by (auto simp: pending_def blocks_ok_def)
    have in_b: "lh \<in> blk (lh, Suc k)" "rh \<in> blk (lh, Suc k)" and ne: "rh \<noteq> lh"
      using k block_pages_pos [OF k] by (simp_all add: blk_def block_pages_Suc M(1))
    have "{p, if p = lh then rh else lh} = {lh, lh + int (block_pages k)}"
      using M(1,2) by auto
    from pending_merge [OF 1(2) M(4) this M(3,5)] have pe: "pending s3 (lh, Suc k)"
      unfolding s3_def s2_def s1_def by (intro pending_idx in_b)
    have i: "pg_idx (p_pages s3 lh) = Suc k" "pg_idx (p_pages s3 rh) = 12"
      using ne M(6) by (simp_all add: s3_def s2_def s1_def)
    have st: "buddy_state s3 lh (Suc k) lh' rh'"
      using page_buddies_state [of lh lh "Suc k" rh s3] k M(1) i(2) B by simp
    have e: "page_free_loop s3 lh lh' rh' (k + 1) = (s', p', k')"
      using 1(5) True B
      by (simp add: page_free_loop.simps [of s p lh rh k] s1_def s2_def s3_def Let_def)
    have "pending s' (p', k') \<and> pg_idx (p_pages s' p') = k' \<and> same_store s3 s'
          \<and> blk (lh, Suc k) \<subseteq> blk (p', k')
          \<and> (\<forall>q. q \<notin> free_pages s3 \<longrightarrow> pg_idx (p_pages s' q) = pg_idx (p_pages s3 q))"
      using "1.IH" [OF True s1_def s2_def s3_def B [symmetric] refl] pe i(1) st e by simp
    moreover have ss: "same_store s s3" by (simp add: s3_def s2_def s1_def)
    moreover have "pg_idx (p_pages s3 q) = pg_idx (p_pages s q)" if "q \<notin> free_pages s" for q
    proof -
      have "blk (lh, Suc k) \<subseteq> free_pages s3" using pe by (auto simp: pending_def blocks_ok_def)
      then have "q \<noteq> lh" "q \<noteq> rh" using in_b that same_store_free_pages [OF ss] by auto
      then show ?thesis by (simp add: s3_def s2_def s1_def)
    qed
    moreover have "blk (p, k) \<subseteq> blk (lh, Suc k)" using M(1,2) blk_Suc [OF k, of lh] by auto
    ultimately show ?thesis using same_store_trans same_store_free_pages [OF ss] by auto
  qed
qed

lemma page_free_ok:
  assumes inv: "page_inv s" and al: "allocated s (p, k)"
  obtains s' where "page_free s p = Some s'" and "page_inv s'"
    and "free_pages s' = free_pages s \<union> blk (p, k)" and "p_freesz s' = p_freesz s + 2 ^ k"
    and "same_addrs s s'"
    and "\<And>q. q \<notin> free_pages s' \<Longrightarrow> pg_idx (p_pages s' q) = pg_idx (p_pages s q)"
proof -
  have i: "pg_idx (p_pages s p) = k" and k: "12 \<le> k" and g: "good_block s (p, k)"
    and fr: "blk (p, k) \<inter> free_pages s = {}"
    using al block_order by (auto simp: allocated_def)
  have "p \<in> blk (p, k)" using k by simp
  then have nf: "\<not> is_free (p_pages s p)"
    using fr good_block_range [OF g, of p] by (auto simp: free_pages_def)
  define s1 where "s1 = fold (page_free_mark p) [0..<block_pages k] s"
  note G = given_state [OF inv al s1_def]
  obtain lh rh where B: "page_buddies s1 p k p p = (lh, rh)" by fastforce
  obtain s2 p' k' where L: "page_free_loop s1 p lh rh k = (s2, p', k')" by (metis prod_cases3)
  have "buddy_state s1 p k lh rh"
    using B mask_aligned [of "pg_addr (p_pages s1 p)" "Suc k"]
    by (auto simp: page_buddies_def buddy_state_def split: if_splits)
  then have R: "pending s2 (p', k')" "pg_idx (p_pages s2 p') = k'" "same_store s1 s2"
      "\<And>q. q \<notin> free_pages s1 \<Longrightarrow> pg_idx (p_pages s2 q) = pg_idx (p_pages s1 q)"
    using page_free_loop_ok [OF G(1) _ _ L] G(5) i by auto
  let ?s' = "set_sizes s2 k' (\<lambda>q. LIST_ADD q p')"
  have e: "same_store s1 ?s'" using R(3) by simp
  have "page_free s p = Some ?s'" using nf i B L by (simp add: page_free_def s1_def)
  moreover have "page_inv ?s'" by (rule pending_put [OF R(1,2)])
  moreover have "free_pages ?s' = free_pages s \<union> blk (p, k)"
    using same_store_free_pages [OF e] G(2) by simp
  moreover have "p_freesz ?s' = p_freesz s + 2 ^ k" using e G(3) by (simp add: same_store_def)
  moreover have "same_addrs s ?s'"
    using same_store_addrs [OF e] G(4) by (simp add: same_addrs_def)
  moreover have "pg_idx (p_pages ?s' q) = pg_idx (p_pages s q)" if "q \<notin> free_pages ?s'" for q
    using R(4) [of q] that same_store_free_pages [OF e] G(5) by simp
  ultimately show thesis using that by blast
qed

section \<open>Runs of the allocator\<close>

text \<open>
  A run of public calls from the state \<open>s0\<close>, together with the blocks its clients hold: every
  allocation adds one, and clients release only what they hold.
\<close>

inductive page_run :: "pages_t \<Rightarrow> pages_t \<Rightarrow> (int \<times> nat) set \<Rightarrow> bool" for s0 where
  start: "page_run s0 s0 {}"
| alloc: "page_run s0 s H \<Longrightarrow> sz \<le> 2 ^ 32 \<Longrightarrow> \<not> bit flgs 0 \<Longrightarrow> vm_pageAlloc s sz flgs = (s', Some p) \<Longrightarrow>
    page_run s0 s' (insert (p, alloc_order sz) H)"
| free: "page_run s0 s H \<Longrightarrow> (p, k) \<in> H \<Longrightarrow> vm_pageFree s p = Some s' \<Longrightarrow> page_run s0 s' (H - {(p, k)})"

definition block_bytes :: "int \<times> nat \<Rightarrow> nat" where
  "block_bytes b = 2 ^ snd b"

text \<open>What the clients of a run rely on.\<close>

definition run_inv :: "pages_t \<Rightarrow> pages_t \<Rightarrow> (int \<times> nat) set \<Rightarrow> bool" where
  "run_inv s0 s H \<longleftrightarrow> page_inv s \<and> finite H \<and> disjoint_family_on blk H \<and> (\<forall>b \<in> H. allocated s b)
     \<and> p_freesz s + sum block_bytes H = p_freesz s0 \<and> same_addrs s0 s"

lemma allocated_base: "allocated s b \<Longrightarrow> fst b \<in> blk b"
  using block_order [of s "fst b" "snd b"] by (cases b) (auto simp: allocated_def)

lemma run_inv_alloc:
  assumes R: "run_inv s0 s H" and sz: "sz \<le> 2 ^ 32" "\<not> bit f 0" and a: "page_alloc s sz f = (s', Some p)"
  shows "run_inv s0 s' (insert (p, alloc_order sz) H)"
proof -
  let ?b = "(p, alloc_order sz)"
  have inv: "page_inv s" and al: "\<And>b. b \<in> H \<Longrightarrow> allocated s b" and fin: "finite H"
    using R by (auto simp: run_inv_def)
  note A = page_alloc_Some [OF inv sz a refl]
  have new: "blk ?b \<inter> \<Union> (blk ` H) = {}" using al A(3) by (force simp: allocated_def)
  then have n: "?b \<notin> H" using allocated_base [OF A(2)] by auto
  have "allocated s' b" if "b \<in> H" for b
    using al [OF that] A(4) A(7) [of "fst b"] allocated_base [OF al [OF that]] same_addrs_good [OF A(6), of b]
    by (auto simp: allocated_def)
  then show ?thesis
    using R A(1,2,5,6) new n fin
    by (auto simp: run_inv_def disjoint_family_on_insert block_bytes_def same_addrs_def)
qed

lemma run_inv_free:
  assumes R: "run_inv s0 s H" and b: "(p, k) \<in> H" and f: "page_free s p = Some s'"
  shows "run_inv s0 s' (H - {(p, k)})"
proof -
  have inv: "page_inv s" and al: "\<And>b. b \<in> H \<Longrightarrow> allocated s b" and fin: "finite H"
    and d: "disjoint_family_on blk H"
    using R by (auto simp: run_inv_def)
  obtain t where t: "page_free s p = Some t" "page_inv t" "free_pages t = free_pages s \<union> blk (p, k)"
      "p_freesz t = p_freesz s + 2 ^ k" "same_addrs s t"
      "\<And>q. q \<notin> free_pages t \<Longrightarrow> pg_idx (p_pages t q) = pg_idx (p_pages s q)"
    using page_free_ok [OF inv al [OF b]] by blast
  have "allocated t c" if c: "c \<in> H - {(p, k)}" for c
  proof -
    have "blk c \<inter> blk (p, k) = {}" using d b c by (auto simp: disjoint_family_on_def)
    then have "blk c \<inter> free_pages t = {}" using al [of c] c t(3) by (auto simp: allocated_def)
    then show ?thesis
      using al [of c] c t(6) [of "fst c"] allocated_base [OF al, of c] same_addrs_good [OF t(5), of c]
      by (auto simp: allocated_def)
  qed
  moreover have "disjoint_family_on blk (H - {(p, k)})"
    using d by (auto intro: disjoint_family_on_mono [of _ H])
  moreover have "sum block_bytes H = 2 ^ k + sum block_bytes (H - {(p, k)})"
    using fin b by (simp add: sum.remove block_bytes_def)
  ultimately show ?thesis
    using R t f fin by (auto simp: run_inv_def same_addrs_def)
qed

lemma page_run_inv:
  assumes "page_run s0 s H" and "page_inv s0"
  shows "run_inv s0 s H"
  using assms
proof (induction rule: page_run.induct)
  case start
  then show ?case by (simp add: run_inv_def disjoint_family_on_def same_addrs_def)
next
  case (alloc s H sz flgs s' p)
  then show ?case by (auto simp: vm_pageAlloc_def intro: run_inv_alloc)
next
  case (free s H p k s')
  then show ?case by (auto simp: vm_pageFree_def intro: run_inv_free)
qed


section \<open>Initialisation\<close>

text \<open>
  What \<open>_page_initSizes\<close> needs of the descriptors: one physically contiguous range, no free
  list in use but the one it clears, counters that match the flags, and a descriptor after the last
  one that is not flagged free, because the run of free pages is not cut at the end of the array.
\<close>

definition init_ready :: "pages_t \<Rightarrow> bool" where
  "init_ready s \<longleftrightarrow> counters_ok s \<and> SIZE_PAGE dvd pg_addr (p_pages s 0)
     \<and> (\<forall>i < npages s. pg_addr (p_pages s (int i)) = pg_addr (p_pages s 0) + i * SIZE_PAGE)
     \<and> (\<forall>k. k \<noteq> 12 \<longrightarrow> p_sizes s k = []) \<and> \<not> is_free (p_pages s (int (npages s)))"

definition init_inv :: "pages_t \<Rightarrow> pages_t \<Rightarrow> nat \<Rightarrow> bool" where
  "init_inv s0 s i \<longleftrightarrow> same_store s0 s \<and> lists_ok s \<and> (\<forall>b \<in> free_blocks s. good_block s b)
     \<and> disjoint_family_on blk (free_blocks s) \<and> \<Union> (blk ` free_blocks s) = free_pages s \<inter> {..<int i}"

lemma page_init_run_ok:
  "r = page_init_run s i lim k \<Longrightarrow> k \<le> lim \<Longrightarrow>
   k \<le> r \<and> r \<le> lim \<and> (\<forall>j. k \<le> j \<and> j < r \<longrightarrow> is_free (p_pages s (int (i + 1 + j))))"
proof (induction s i lim k rule: page_init_run.induct)
  case (1 s i lim k)
  let ?c = "k < lim \<and> i + k < p_freesz s + p_allocsz s - 1 \<and> is_free (p_pages s (int (i + 1 + k)))"
  show ?case
  proof (cases ?c)
    case True
    then have r: "r = page_init_run s i lim (k + 1)"
      using "1.prems"(1) by (simp add: page_init_run.simps [of s i lim k])
    have f: "is_free (p_pages s (int (i + 1 + k)))" using True by blast
    have IH: "k + 1 \<le> r \<and> r \<le> lim \<and> (\<forall>j. k + 1 \<le> j \<and> j < r \<longrightarrow> is_free (p_pages s (int (i + 1 + j))))"
      using "1.IH" [OF True r] True by simp
    have "is_free (p_pages s (int (i + 1 + j)))" if "k \<le> j" "j < r" for j
      using IH f that by (cases "j = k") auto
    then show ?thesis using IH by auto
  next
    case False
    then have "r = k" using "1.prems"(1) by (simp only: page_init_run.simps [of s i lim k] if_False)
    then show ?thesis using "1.prems"(2) by auto
  qed
qed

lemma init_ready_addr:
  "init_ready s \<Longrightarrow> 0 \<le> i \<Longrightarrow> i < int (npages s) \<Longrightarrow>
   pg_addr (p_pages s i) = pg_addr (p_pages s 0) + nat i * SIZE_PAGE"
  unfolding init_ready_def by (metis int_nat_eq zless_nat_conj nat_int nat_less_iff)

lemma init_ready_sorted: "init_ready s \<Longrightarrow> addr_sorted s"
proof (unfold addr_sorted_def, intro allI impI, elim conjE)
  fix i j :: int
  assume "init_ready s" "0 \<le> i" "i < j" "j < int (npages s)"
  moreover from this have "nat j * SIZE_PAGE = nat i * SIZE_PAGE + nat (j - i) * SIZE_PAGE"
    by (simp flip: add_mult_distrib nat_add_distrib)
  ultimately show "pg_addr (p_pages s i) + nat (j - i) * SIZE_PAGE \<le> pg_addr (p_pages s j)"
    using init_ready_addr [of s i] init_ready_addr [of s j] by simp
qed

text \<open>The block that starts at the free page \<open>i\<close>.\<close>

definition init_order :: "pages_t \<Rightarrow> nat \<Rightarrow> nat" where
  "init_order s i =
     (let k0 = hal_cpuGetFirstBit (pg_addr (p_pages s (int i)));
          k1 = (if k0 \<ge> SIZE_VM_SIZES then SIZE_VM_SIZES - 1 else k0)
      in hal_cpuGetLastBit ((1 + page_init_run s i (init_limit k1) 0) * SIZE_PAGE))"

lemma page_init_block_eq:
  "page_init_block s i =
     (set_sizes (set_page s (int i) (\<lambda>p. p\<lparr>pg_idx := init_order s i\<rparr>)) (init_order s i)
        (\<lambda>q. LIST_ADD q (int i)), i + block_pages (init_order s i))"
  by (simp add: page_init_block_def init_order_def Let_def)

lemma init_order_bounds:
  assumes al: "SIZE_PAGE dvd pg_addr (p_pages s (int i))" and b: "block_pages (init_order s i) = n"
  shows "12 \<le> init_order s i" and "2 ^ init_order s i dvd pg_addr (p_pages s (int i))"
    and "j < n \<Longrightarrow> j = 0 \<or> is_free (p_pages s (int (i + j)))"
proof -
  define a where "a = pg_addr (p_pages s (int i))"
  define k0 where "k0 = hal_cpuGetFirstBit a"
  define k1 where "k1 = (if k0 \<ge> SIZE_VM_SIZES then SIZE_VM_SIZES - 1 else k0)"
  define r where "r = page_init_run s i (init_limit k1) 0"
  have k: "init_order s i = hal_cpuGetLastBit ((1 + r) * SIZE_PAGE)"
    by (simp add: init_order_def r_def k1_def k0_def a_def Let_def)
  have R: "r \<le> init_limit k1" "\<And>j. j < r \<Longrightarrow> is_free (p_pages s (int (i + 1 + j)))"
    using page_init_run_ok [OF r_def] by auto
  have L: "2 ^ init_order s i \<le> (1 + r) * SIZE_PAGE" "(1 + r) * SIZE_PAGE < 2 ^ Suc (init_order s i)"
    using LastBit_bounds [of "(1 + r) * SIZE_PAGE"] by (auto simp: k SIZE_PAGE_def)
  have "2 ^ 12 < (2::nat) ^ Suc (init_order s i)" using L(2) by (simp add: SIZE_PAGE_def)
  then show o: "12 \<le> init_order s i" using power_less_imp_less_exp [of "2::nat" 12] by fastforce
  then have "n * SIZE_PAGE \<le> (1 + r) * SIZE_PAGE" using L(1) block_pages_bytes [OF o] b by simp
  then have n: "n \<le> 1 + r" by (simp add: SIZE_PAGE_def)
  show "j = 0 \<or> is_free (p_pages s (int (i + j)))" if "j < n"
    using R(2) [of "j - 1"] that n by (cases j) auto
  show "2 ^ init_order s i dvd pg_addr (p_pages s (int i))"
  proof (cases "a = 0")
    case False
    then have k0: "12 \<le> k0" using al FirstBit_ge [of a 12] by (simp add: k0_def a_def SIZE_PAGE_def)
    then have k1: "12 \<le> k1" "k1 \<le> k0" "k1 < 32" by (auto simp: k1_def SIZE_VM_SIZES_def)
    have "block_pages k1 < 2 ^ 32"
      using k1 power_strict_increasing [of "k1 - 12" 32 "2::nat"] by (simp add: block_pages_eq)
    then have "(2 ^ 32 + (block_pages k1 - 1)) mod 2 ^ 32 = block_pages k1 - 1"
      unfolding mod_add_self1 by (intro mod_less) linarith
    then have "init_limit k1 = block_pages k1 - 1"
      using block_pages_pos [OF k1(1)] by (simp add: init_limit_def)
    then have "1 + r \<le> block_pages k1" using R(1) block_pages_pos [OF k1(1)] by linarith
    then have "(1 + r) * SIZE_PAGE \<le> block_pages k1 * SIZE_PAGE" by (rule mult_right_mono) simp
    then have "(2::nat) ^ init_order s i \<le> 2 ^ k1" using L(1) block_pages_bytes [OF k1(1)] by linarith
    then have "init_order s i \<le> k1" by (rule power_le_imp_le_exp [rotated]) simp
    then have "(2::nat) ^ init_order s i dvd 2 ^ k0" using k1(2) by (intro le_imp_power_dvd) simp
    then show ?thesis using FirstBit_dvd [of a] dvd_trans unfolding k0_def a_def by blast
  qed (simp add: a_def)
qed

lemma init_block_ok:
  assumes rd: "init_ready s0" and R: "init_inv s0 s i" and i: "i < npages s0"
    and f: "is_free (p_pages s (int i))" and e: "page_init_block s i = (s', i')"
  shows "init_inv s0 s' i'" and "i < i'"
proof -
  let ?k = "init_order s i" and ?n = "block_pages (init_order s i)"
  have ss: "same_store s0 s" and np: "npages s = npages s0"
    using R by (simp_all add: init_inv_def same_store_def)
  have ad: "pg_addr (p_pages s (int j)) = pg_addr (p_pages s0 0) + j * SIZE_PAGE" if "j < npages s0" for j
    using init_ready_addr [OF rd, of "int j"] that ss by (simp add: same_store_def)
  have al: "SIZE_PAGE dvd pg_addr (p_pages s (int i))"
    using ad [OF i] rd by (simp add: init_ready_def)
  have k: "12 \<le> ?k" and d: "2 ^ ?k dvd pg_addr (p_pages s (int i))"
    using init_order_bounds(1,2) [OF al refl] .
  have fr: "is_free (p_pages s (int (i + j)))" if "j < ?n" for j
    using init_order_bounds(3) [OF al refl that] f by auto
  have "\<not> is_free (p_pages s (int (npages s0)))"
    using rd same_store_free [OF ss] by (simp add: init_ready_def)
  then have "\<not> npages s0 - i < ?n" using fr [of "npages s0 - i"] i by auto
  then have le: "i + ?n \<le> npages s0" using i by linarith
  have "pg_addr (p_pages s (int i + int j)) = pg_addr (p_pages s (int i)) + j * SIZE_PAGE" if "j < ?n" for j
    using ad [OF i] ad [of "i + j"] that le by (simp add: add_mult_distrib)
  then have g: "good_block s (int i, ?k)"
    using k d le unfolding good_block_def np by simp
  have s': "s' = set_sizes (set_page s (int i) (\<lambda>p. p\<lparr>pg_idx := ?k\<rparr>)) ?k (\<lambda>q. LIST_ADD q (int i))"
    and i': "i' = i + ?n" using e by (simp_all add: page_init_block_eq)
  have sst: "same_store s s'" by (simp add: s')
  have un: "\<Union> (blk ` free_blocks s) = free_pages s \<inter> {..<int i}" using R by (simp add: init_inv_def)
  have base: "q \<in> blk (q, j)" if "(q, j) \<in> free_blocks s" for q j
    using R that block_order by (auto simp: init_inv_def)
  have nm: "int i \<notin> set (p_sizes s j)" for j
    using un base [of "int i" j] by (auto simp: free_blocks_def)
  have "lists_ok s'" unfolding s'
    using R nm by (intro lists_ok_add lists_ok_idx) (auto simp: init_inv_def)
  moreover have fb: "free_blocks s' = insert (int i, ?k) (free_blocks s)" by (simp add: s')
  moreover have "disjoint_family_on blk (insert (int i, ?k) (free_blocks s))"
  proof -
    have "(int i, ?k) \<notin> free_blocks s" using nm by (simp add: free_blocks_def)
    then show ?thesis using R un by (auto simp: disjoint_family_on_insert init_inv_def blk_def)
  qed
  moreover have "blk (int i, ?k) = free_pages s \<inter> {int i..<int i'}"
  proof -
    have "x \<in> free_pages s" if "x \<in> {int i..<int i'}" for x
      using fr [of "nat (x - int i)"] that le np by (auto simp: free_pages_def i')
    then show ?thesis by (auto simp: blk_def i')
  qed
  then have "\<Union> (blk ` free_blocks s') = free_pages s \<inter> {..<int i'}"
    using un i' by (auto simp: fb)
  moreover have "good_block s' b = good_block s b" for b
    by (rule same_addrs_good [OF same_store_addrs [OF sst]])
  moreover have "\<forall>b \<in> free_blocks s. good_block s b" using R by (simp add: init_inv_def)
  ultimately show "init_inv s0 s' i'"
    using g same_store_trans [OF ss sst] same_store_free_pages [OF sst]
    unfolding init_inv_def by simp
  show "i < i'" using i' block_pages_pos [OF k] by simp
qed

lemma init_skip_ok: "init_inv s0 s i \<Longrightarrow> \<not> is_free (p_pages s (int i)) \<Longrightarrow> init_inv s0 s (i + 1)"
proof -
  assume R: "init_inv s0 s i" and "\<not> is_free (p_pages s (int i))"
  moreover have "x < int (i + 1) \<longleftrightarrow> x < int i \<or> x = int i" for x by auto
  ultimately have "free_pages s \<inter> {..<int (i + 1)} = free_pages s \<inter> {..<int i}"
    by (auto simp: free_pages_def)
  then show ?thesis using R by (simp add: init_inv_def)
qed

lemma init_loop_ok:
  "init_ready s0 \<Longrightarrow> init_inv s0 s i \<Longrightarrow> npages s0 \<le> i + n \<Longrightarrow>
   \<exists>j \<ge> npages s0. init_inv s0 (page_initSizes_loop n s i) j"
proof (induction n arbitrary: s i)
  case 0
  then show ?case by auto
next
  case (Suc n)
  have np: "npages s = npages s0" using Suc.prems(2) by (simp add: init_inv_def same_store_def)
  consider (past) "npages s0 \<le> i" | (used) "i < npages s0" "\<not> is_free (p_pages s (int i))"
    | (block) "i < npages s0" "is_free (p_pages s (int i))" by linarith
  then show ?case
  proof cases
    case past
    then show ?thesis using Suc.prems(2) np by auto
  next
    case used
    then show ?thesis
      using Suc.IH [OF Suc.prems(1) init_skip_ok [OF Suc.prems(2)]] Suc.prems(3) np by simp
  next
    case block
    obtain s' i' where e: "page_init_block s i = (s', i')" by fastforce
    have "init_inv s0 s' i'" "npages s0 \<le> i' + n"
      using init_block_ok [OF Suc.prems(1,2) block e] Suc.prems(3) by auto
    then show ?thesis using Suc.IH [OF Suc.prems(1)] block e np by simp
  qed
qed

lemma page_initSizes_inv:
  assumes rd: "init_ready s"
  shows "page_inv (page_initSizes s)" and "same_store s (page_initSizes s)"
proof -
  let ?s = "set_sizes s 12 (\<lambda>_. [])"
  have nil: "p_sizes ?s k = []" for k using rd by (simp add: set_sizes_def init_ready_def)
  have "init_inv s ?s 0"
    unfolding init_inv_def by (simp add: free_blocks_def nil lists_ok_def free_pages_def)
      (auto simp: disjoint_family_on_def)
  then obtain j where j: "npages s \<le> j" and R: "init_inv s (page_initSizes s) j"
    using init_loop_ok [OF rd, of ?s 0 "npages s"] by (auto simp: page_initSizes_def)
  show ss: "same_store s (page_initSizes s)" using R by (simp add: init_inv_def)
  have "x < int j" if "x \<in> free_pages s" for x
    using that j by (auto simp: free_pages_def)
  then have "free_pages s \<inter> {..<int j} = free_pages s" by auto
  then have "blocks_ok (page_initSizes s) (free_blocks (page_initSizes s))"
    using R same_store_free_pages [OF ss] by (simp add: init_inv_def blocks_ok_def)
  then show "page_inv (page_initSizes s)"
    using R rd init_ready_sorted [OF rd]
    by (simp add: page_inv_def same_store_ok [OF ss]) (simp add: init_inv_def init_ready_def)
qed

lemma page_get_spec:
  assumes so: "addr_sorted s"
  shows "page_get s a = Some i \<longleftrightarrow>
    0 \<le> i \<and> i < int (npages s) \<and> pg_addr (p_pages s i) = a - a mod SIZE_PAGE"
proof -
  let ?c = "\<lambda>m. page_get_cmp (a - a mod SIZE_PAGE) (p_pages s m)"
  have mono: "pg_addr (p_pages s i) < pg_addr (p_pages s j)"
    if "0 \<le> i" "i < j" "j < int (npages s)" for i j
  proof -
    have "pg_addr (p_pages s i) + nat (j - i) * SIZE_PAGE \<le> pg_addr (p_pages s j)"
      using so that by (simp add: addr_sorted_def)
    moreover have "0 < nat (j - i) * SIZE_PAGE" using that by (simp add: SIZE_PAGE_def)
    ultimately show ?thesis by linarith
  qed
  have "?c j < 0" if "0 \<le> i" "i < j" "j < int (npages s)" "?c i \<le> 0" for i j
  proof -
    have "a - a mod SIZE_PAGE \<le> pg_addr (p_pages s i)"
      using that(4) by (simp add: page_get_cmp_def split: if_splits)
    then show ?thesis using mono [OF that(1-3)] by (simp add: page_get_cmp_def)
  qed
  then have sc: "sorted_compar ?c (int (npages s))" unfolding sorted_compar_def by blast
  have z: "?c m = 0 \<longleftrightarrow> pg_addr (p_pages s m) = a - a mod SIZE_PAGE" for m
    by (auto simp: page_get_cmp_def)
  have e: "page_get s a = lib_bsearch ?c (int (npages s))" by (simp add: page_get_def Let_def)
  have S: "case page_get s a of
      None \<Rightarrow> \<not> (\<exists>i. 0 \<le> i \<and> i < int (npages s) \<and> ?c i = 0)
    | Some m \<Rightarrow> 0 \<le> m \<and> m < int (npages s) \<and> ?c m = 0"
    unfolding e by (rule lib_bsearch_spec [OF sc]) simp
  show ?thesis
  proof
    assume "page_get s a = Some i"
    then show "0 \<le> i \<and> i < int (npages s) \<and> pg_addr (p_pages s i) = a - a mod SIZE_PAGE"
      using S z [of i] by simp
  next
    assume r: "0 \<le> i \<and> i < int (npages s) \<and> pg_addr (p_pages s i) = a - a mod SIZE_PAGE"
    then obtain m where m: "page_get s a = Some m" using S z by (auto split: option.splits)
    then have "0 \<le> m" "m < int (npages s)" "pg_addr (p_pages s m) = pg_addr (p_pages s i)"
      using S z [of m] r by simp_all
    then have "m = i" using mono [of m i] mono [of i m] r by (metis less_irrefl linorder_neqE_linordered_idom)
    then show "page_get s a = Some i" using m by simp
  qed
qed

section \<open>Example states\<close>

text \<open>\<open>n\<close> free pages from the physical address 0x4000 on, before the free lists are built.\<close>

definition demo_pages :: "nat \<Rightarrow> pages_t" where
  "demo_pages n = \<lparr>p_sizes = (\<lambda>_. []),
     p_pages = (\<lambda>i. \<lparr>pg_addr = 16384 + nat i * SIZE_PAGE, pg_idx = 0,
                     pg_flags = (if 0 \<le> i \<and> i < int n then PAGE_FREE else 0)\<rparr>),
     p_allocsz = 0, p_bootsz = 0, p_freesz = n * SIZE_PAGE\<rparr>"

lemma demo_ready: "n < 1024 \<Longrightarrow> init_ready (demo_pages n)"
proof -
  assume n: "n < 1024"
  have "free_pages (demo_pages n) = {0..<int n}"
    by (auto simp: free_pages_def demo_pages_def is_free_def PAGE_FREE_def SIZE_PAGE_def)
  then show ?thesis using n
    by (simp add: init_ready_def counters_ok_def)
      (auto simp: demo_pages_def SIZE_PAGE_def is_free_def)
qed

text \<open>The pool of four free pages after the free lists are built.\<close>

definition demo_pool :: pages_t where
  "demo_pool = page_initSizes (demo_pages 4)"

lemma demo_pool_inv: "page_inv demo_pool"
  unfolding demo_pool_def by (rule page_initSizes_inv) (simp add: demo_ready)

lemma demo_pool_alloc:
  "snd (vm_pageAlloc demo_pool 5000 0) = Some 0" "alloc_order 5000 = 13"
  by code_simp+

section \<open>Properties of the page allocator\<close>

text \<open>C3: From a state that satisfies the invariant, any run of allocations and releases keeps it:
  the free lists hold disjoint, aligned, contiguous blocks that are exactly the free pages; the
  blocks the clients hold never overlap each other or a free page; the byte counter is what it was
  minus what is held; and every block held can be released.\<close>

theorem page_run_safe:
  assumes "page_inv s0" and "page_run s0 s H"
  shows "page_inv s \<and> disjoint_family_on blk H \<and> (\<forall>b \<in> H. good_block s b \<and> blk b \<inter> free_pages s = {})
    \<and> p_freesz s + sum block_bytes H = p_freesz s0 \<and> (\<forall>(p, k) \<in> H. vm_pageFree s p \<noteq> None)"
proof -
  have R: "run_inv s0 s H" using page_run_inv [OF assms(2,1)] .
  have "vm_pageFree s p \<noteq> None" if "(p, k) \<in> H" for p k
  proof -
    have "page_inv s" "allocated s (p, k)" using R that by (auto simp: run_inv_def)
    then show ?thesis by (rule page_free_ok) (simp add: vm_pageFree_def)
  qed
  then show ?thesis using R by (auto simp: run_inv_def allocated_def)
qed

theorem page_run_safe_witness:
  "\<exists>s. page_inv demo_pool \<and> page_run demo_pool s {(0, 13)} \<and> p_freesz s + 2 ^ 13 = p_freesz demo_pool
     \<and> vm_pageFree s 0 \<noteq> None"
proof -
  obtain s where "vm_pageAlloc demo_pool 5000 0 = (s, Some 0)"
    using demo_pool_alloc(1) by (metis prod.collapse)
  then have run: "page_run demo_pool s {(0, 13)}"
    using page_run.alloc [OF page_run.start, of 5000 0 demo_pool s 0] demo_pool_alloc(2) by simp
  show ?thesis
    using page_run_safe [OF demo_pool_inv run] demo_pool_inv run by (auto simp: block_bytes_def)
qed







text \<open>C32: \<open>_page_get\<close> finds exactly the descriptor of the page an address lies in.\<close>

theorem page_get_correct:
  assumes "page_inv s"
  shows "page_get s a = Some i \<longleftrightarrow>
    0 \<le> i \<and> i < int (npages s) \<and> pg_addr (p_pages s i) = a - a mod SIZE_PAGE"
  by (rule page_get_spec) (use assms in \<open>simp add: page_inv_def\<close>)

theorem page_get_correct_witness:
  "page_inv demo_pool \<and> page_get demo_pool 20500 = Some 1"
proof -
  have "npages demo_pool = 4" "pg_addr (p_pages demo_pool 1) = 20480"
    using page_initSizes_inv(2) [OF demo_ready, of 4]
    by (simp_all add: demo_pool_def same_store_def) (simp_all add: demo_pages_def SIZE_PAGE_def)
  then show ?thesis
    using page_get_correct [OF demo_pool_inv, of 20500 1] demo_pool_inv by (simp add: SIZE_PAGE_def)
qed

text \<open>
  Two allocations and their releases: two pages, then one; the two are released first.
\<close>

definition missed_merge :: "pages_t option" where
  "missed_merge =
     (let (s1, p) = vm_pageAlloc demo_pool (2 * SIZE_PAGE) 0;
          (s2, q) = vm_pageAlloc s1 SIZE_PAGE 0
      in (case (p, q) of
            (Some a, Some b) \<Rightarrow>
              (case vm_pageFree s2 a of None \<Rightarrow> None | Some s3 \<Rightarrow> vm_pageFree s3 b)
          | _ \<Rightarrow> None))"

text \<open>After a merge \<open>rh\<close> still points into the merged block, so the block is never merged
  with its left buddy: once everything is released the pool of four free pages no longer serves a
  request for four pages, which it served at the start.\<close>

theorem page_free_misses_left_buddy:
  "map_option (\<lambda>s. (p_freesz s, p_sizes s 13, snd (vm_pageAlloc s (4 * SIZE_PAGE) 0))) missed_merge
     = Some (4 * SIZE_PAGE, [0, 2], None)
   \<and> p_freesz demo_pool = 4 * SIZE_PAGE \<and> snd (vm_pageAlloc demo_pool (4 * SIZE_PAGE) 0) = Some 0"
  by code_simp

text \<open>Two free pages that are not neighbours in physical memory.\<close>

definition gap_pages :: pages_t where
  "gap_pages = (demo_pages 2)\<lparr>p_pages := (\<lambda>i. (p_pages (demo_pages 2) i)
     \<lparr>pg_addr := (if i = 0 then 16384 else 1048576)\<rparr>)\<rparr>"

text \<open>\<open>_page_initSizes\<close> does not look at the addresses inside a run of free descriptors:
  two pages separated by a memory gap become one block, which an allocation of two pages returns.\<close>

theorem page_initSizes_spans_gap:
  "p_sizes (page_initSizes gap_pages) 13 = [0]
   \<and> (case vm_pageAlloc (page_initSizes gap_pages) (2 * SIZE_PAGE) 0 of (s, r) \<Rightarrow>
        r = Some 0 \<and> pg_addr (p_pages s 0) + SIZE_PAGE \<noteq> pg_addr (p_pages s 1))"
  by code_simp

end
