(* ===== verification/Lib_RB_Tree.thy ===== *)
theory Lib_RB_Tree
  imports Lib_RB
begin

text \<open>
  The abstraction of the pointer-level red-black tree: a heap represents a tree of addresses below
  a context (the path from a position to the root), as a zipper. Rotations, recolourings and
  transplants move between representations; the invariants on colours and black heights are stated
  on the tree and on the context.
\<close>

section \<open>Trees and contexts in a heap\<close>

datatype rbt = Leaf | Node rbt addr rbcolor rbt

datatype step = LeftOf addr rbcolor rbt | RightOf rbt addr rbcolor

fun inorder :: "rbt \<Rightarrow> addr list" where
  "inorder Leaf = []"
| "inorder (Node l a c r) = inorder l @ a # inorder r"

fun tree_at :: "'a rbheap_scheme \<Rightarrow> addr \<Rightarrow> addr \<Rightarrow> rbt \<Rightarrow> bool" where
  "tree_at h p x Leaf \<longleftrightarrow> x = NULL"
| "tree_at h p x (Node l a c r) \<longleftrightarrow> x = a \<and> a \<noteq> NULL \<and> rb_parent h a = p \<and> rb_color h a = c
     \<and> tree_at h a (rb_left h a) l \<and> tree_at h a (rb_right h a) r"

fun par :: "step list \<Rightarrow> addr" where
  "par [] = NULL"
| "par (LeftOf a c r # C) = a"
| "par (RightOf l a c # C) = a"

fun step_nodes :: "step \<Rightarrow> addr list" where
  "step_nodes (LeftOf a c r) = a # inorder r"
| "step_nodes (RightOf l a c) = a # inorder l"

definition ctx_nodes :: "step list \<Rightarrow> addr list" where
  "ctx_nodes C = concat (map step_nodes C)"

fun ctx_at :: "'a rbheap_scheme \<Rightarrow> addr \<Rightarrow> step list \<Rightarrow> bool" where
  "ctx_at h x [] \<longleftrightarrow> rb_root h = x"
| "ctx_at h x (LeftOf a c r # C) \<longleftrightarrow> a \<noteq> NULL \<and> rb_left h a = x \<and> rb_color h a = c \<and> rb_parent h a = par C
     \<and> tree_at h a (rb_right h a) r \<and> ctx_at h a C"
| "ctx_at h x (RightOf l a c # C) \<longleftrightarrow> a \<noteq> NULL \<and> rb_right h a = x \<and> rb_color h a = c \<and> rb_parent h a = par C
     \<and> tree_at h a (rb_left h a) l \<and> ctx_at h a C"

fun plug :: "step list \<Rightarrow> rbt \<Rightarrow> rbt" where
  "plug [] t = t"
| "plug (LeftOf a c r # C) t = plug C (Node t a c r)"
| "plug (RightOf l a c # C) t = plug C (Node l a c t)"

text \<open>The heap holds the tree \<open>t\<close> at \<open>x\<close> in the context \<open>C\<close>, all nodes distinct.\<close>

definition rep :: "'a rbheap_scheme \<Rightarrow> step list \<Rightarrow> addr \<Rightarrow> rbt \<Rightarrow> bool" where
  "rep h C x t \<longleftrightarrow> tree_at h (par C) x t \<and> ctx_at h x C \<and> distinct (inorder t @ ctx_nodes C)"

lemma ctx_nodes_simps [simp]:
  "ctx_nodes [] = []"
  "ctx_nodes (LeftOf a c r # C) = a # inorder r @ ctx_nodes C"
  "ctx_nodes (RightOf l a c # C) = a # inorder l @ ctx_nodes C"
  by (simp_all add: ctx_nodes_def)

lemma set_simps [simp]:
  "rb_parent (set_parent n v h) m = (if m = n then v else rb_parent h m)"
  "rb_left (set_left n v h) m = (if m = n then v else rb_left h m)"
  "rb_right (set_right n v h) m = (if m = n then v else rb_right h m)"
  "rb_color (set_color n k h) m = (if m = n then k else rb_color h m)"
  "rb_root (set_parent n v h) = rb_root h" "rb_root (set_left n v h) = rb_root h"
  "rb_root (set_right n v h) = rb_root h" "rb_root (set_color n k h) = rb_root h"
  "rb_left (set_parent n v h) = rb_left h" "rb_right (set_parent n v h) = rb_right h"
  "rb_color (set_parent n v h) = rb_color h" "rb_parent (set_left n v h) = rb_parent h"
  "rb_right (set_left n v h) = rb_right h" "rb_color (set_left n v h) = rb_color h"
  "rb_parent (set_right n v h) = rb_parent h" "rb_left (set_right n v h) = rb_left h"
  "rb_color (set_right n v h) = rb_color h" "rb_parent (set_color n k h) = rb_parent h"
  "rb_left (set_color n k h) = rb_left h" "rb_right (set_color n k h) = rb_right h"
  by (simp_all add: set_parent_def set_left_def set_right_def set_color_def)

definition agree :: "'a rbheap_scheme \<Rightarrow> 'b rbheap_scheme \<Rightarrow> addr set \<Rightarrow> bool" where
  "agree h h' A \<longleftrightarrow> (\<forall>a \<in> A. rb_parent h' a = rb_parent h a \<and> rb_left h' a = rb_left h a
     \<and> rb_right h' a = rb_right h a \<and> rb_color h' a = rb_color h a)"

lemma tree_at_agree: "tree_at h p x t \<Longrightarrow> agree h h' (set (inorder t)) \<Longrightarrow> tree_at h' p x t"
  by (induction t arbitrary: p x) (auto simp: agree_def)

lemma ctx_at_agree:
  "ctx_at h x C \<Longrightarrow> agree h h' (set (ctx_nodes C)) \<Longrightarrow> rb_root h' = rb_root h \<Longrightarrow> ctx_at h' x C"
proof (induction h x C rule: ctx_at.induct)
  case (2 h x a c r C)
  then show ?case
    using tree_at_agree [of h a "rb_right h a" r h'] by (auto simp: agree_def)
next
  case (3 h x l a c C)
  then show ?case
    using tree_at_agree [of h a "rb_left h a" l h'] by (auto simp: agree_def)
qed simp

lemma tree_at_null: "tree_at h p x t \<Longrightarrow> x = NULL \<longleftrightarrow> t = Leaf"
  by (cases t) auto

lemma tree_at_nodes: "tree_at h p x t \<Longrightarrow> NULL \<notin> set (inorder t)"
  by (induction t arbitrary: p x) auto

lemma ctx_at_nodes: "ctx_at h x C \<Longrightarrow> NULL \<notin> set (ctx_nodes C)"
  by (induction h x C rule: ctx_at.induct) (auto dest: tree_at_nodes)

lemma tree_at_in: "tree_at h p x t \<Longrightarrow> t \<noteq> Leaf \<Longrightarrow> x \<in> set (inorder t)"
  by (cases t) auto

text \<open>Moving the focus down to a child and up to the parent.\<close>

lemma rep_left: "rep h C x (Node l a c r) \<longleftrightarrow> x = a \<and> rep h (LeftOf a c r # C) (rb_left h a) l"
  by (auto simp: rep_def)

lemma rep_right: "rep h C x (Node l a c r) \<longleftrightarrow> x = a \<and> rep h (RightOf l a c # C) (rb_right h a) r"
  by (auto simp: rep_def)

lemma rep_plug: "rep h C x t \<Longrightarrow> rep h [] (rb_root h) (plug C t)"
proof (induction C t arbitrary: x rule: plug.induct)
  case (1 t)
  then show ?case by (auto simp: rep_def)
next
  case (2 a c r C t)
  then have "rep h C a (Node t a c r)" by (auto simp: rep_def)
  then show ?case using "2.IH" by simp
next
  case (3 l a c C t)
  then have "rep h C a (Node l a c t)" by (auto simp: rep_def)
  then show ?case using "3.IH" by simp
qed

lemma inorder_plug: "\<exists>as bs. \<forall>t. inorder (plug C t) = as @ inorder t @ bs"
proof (induction C rule: plug.induct [of "\<lambda>C t. _ C", case_names Nil L R])
  case (Nil t)
  show ?case by (rule exI [of _ "[]"], rule exI [of _ "[]"]) simp
next
  case (L a c r C t)
  then obtain as bs where "\<forall>t. inorder (plug C t) = as @ inorder t @ bs" by blast
  then show ?case by (intro exI [of _ as] exI [of _ "a # inorder r @ bs"]) simp
next
  case (R l a c C t)
  then obtain as bs where "\<forall>t. inorder (plug C t) = as @ inorder t @ bs" by blast
  then show ?case by (intro exI [of _ "as @ inorder l @ [a]"] exI [of _ bs]) simp
qed

lemma inorder_plug_cong: "inorder t = inorder t' \<Longrightarrow> inorder (plug C t) = inorder (plug C t')"
  using inorder_plug [of C] by metis

lemma plug_nodes: "set (inorder (plug C t)) = set (inorder t) \<union> set (ctx_nodes C)"
  by (induction C t rule: plug.induct) auto

lemma plug_Leaf: "plug C t = Leaf \<longleftrightarrow> C = [] \<and> t = Leaf"
  by (induction C t rule: plug.induct) auto

text \<open>The field that holds the position of the context.\<close>

fun set_hole :: "step list \<Rightarrow> addr \<Rightarrow> 'a rbheap_scheme \<Rightarrow> 'a rbheap_scheme" where
  "set_hole [] y h = h\<lparr>rb_root := y\<rparr>"
| "set_hole (LeftOf a c r # C) y h = set_left a y h"
| "set_hole (RightOf l a c # C) y h = set_right a y h"

text \<open>Frame rules: a write to a node outside a tree or a context leaves it as it is.\<close>

lemma agree_sym: "agree h h' A \<Longrightarrow> agree h' h A"
  by (simp add: agree_def)

lemma tree_at_cong: "agree h h' (set (inorder t)) \<Longrightarrow> tree_at h' p x t = tree_at h p x t"
  using tree_at_agree [of h p x t h'] tree_at_agree [of h' p x t h] agree_sym [of h h'] by blast

lemma ctx_at_cong:
  "agree h h' (set (ctx_nodes C)) \<Longrightarrow> rb_root h' = rb_root h \<Longrightarrow> ctx_at h' x C = ctx_at h x C"
  using ctx_at_agree [of h x C h'] ctx_at_agree [of h' x C h] agree_sym [of h h'] by auto

lemma tree_at_frame [simp]:
  "n \<notin> set (inorder t) \<Longrightarrow> tree_at (set_parent n v h) p x t = tree_at h p x t"
  "n \<notin> set (inorder t) \<Longrightarrow> tree_at (set_left n v h) p x t = tree_at h p x t"
  "n \<notin> set (inorder t) \<Longrightarrow> tree_at (set_right n v h) p x t = tree_at h p x t"
  "n \<notin> set (inorder t) \<Longrightarrow> tree_at (set_color n k h) p x t = tree_at h p x t"
  "tree_at (h\<lparr>rb_root := v\<rparr>) p x t = tree_at h p x t"
  by (rule tree_at_cong; auto simp: agree_def)+

lemma ctx_at_frame [simp]:
  "n \<notin> set (ctx_nodes C) \<Longrightarrow> ctx_at (set_parent n v h) x C = ctx_at h x C"
  "n \<notin> set (ctx_nodes C) \<Longrightarrow> ctx_at (set_left n v h) x C = ctx_at h x C"
  "n \<notin> set (ctx_nodes C) \<Longrightarrow> ctx_at (set_right n v h) x C = ctx_at h x C"
  "n \<notin> set (ctx_nodes C) \<Longrightarrow> ctx_at (set_color n k h) x C = ctx_at h x C"
  by (rule ctx_at_cong; auto simp: agree_def)+

lemma tree_at_reparent:
  "tree_at h p x t \<Longrightarrow> distinct (inorder t) \<Longrightarrow> t \<noteq> Leaf \<Longrightarrow> tree_at (set_parent x q h) q x t"
  by (cases t) auto

lemma ctx_at_hole: "ctx_at h x C \<Longrightarrow> distinct (ctx_nodes C) \<Longrightarrow> ctx_at (set_hole C y h) y C"
  by (cases C rule: par.cases) auto

lemma hole_fields [simp]:
  "rb_parent (set_hole C y h) = rb_parent h" "rb_color (set_hole C y h) = rb_color h"
  "n \<notin> set (ctx_nodes C) \<Longrightarrow> rb_left (set_hole C y h) n = rb_left h n"
  "n \<notin> set (ctx_nodes C) \<Longrightarrow> rb_right (set_hole C y h) n = rb_right h n"
  by (cases C rule: par.cases; simp)+

lemma tree_at_hole [simp]:
  "set (inorder t) \<inter> set (ctx_nodes C) = {} \<Longrightarrow> tree_at (set_hole C y h) p x t = tree_at h p x t"
  by (cases C rule: par.cases) auto

text \<open>How the code finds that field.\<close>

definition code_hole :: "addr \<Rightarrow> addr \<Rightarrow> 'a rbheap_scheme \<Rightarrow> 'a rbheap_scheme" where
  "code_hole x y h = (if rb_parent h x = NULL then h\<lparr>rb_root := y\<rparr>
     else if x = rb_left h (rb_parent h x) then set_left (rb_parent h x) y h
     else set_right (rb_parent h x) y h)"

lemma ctx_sibling:
  "ctx_at h x C \<Longrightarrow> x \<noteq> NULL \<Longrightarrow> x \<notin> set (ctx_nodes C) \<Longrightarrow> C = RightOf l a c # C' \<Longrightarrow> rb_left h a \<noteq> x"
  "ctx_at h x C \<Longrightarrow> x \<noteq> NULL \<Longrightarrow> x \<notin> set (ctx_nodes C) \<Longrightarrow> C = LeftOf a c r # C' \<Longrightarrow> rb_right h a \<noteq> x"
  by (cases l; auto) (cases r; auto)

lemma code_hole_eq:
  assumes "ctx_at h x C" and "x \<noteq> NULL" and "x \<notin> set (ctx_nodes C)" and "rb_parent h x = par C"
  shows "code_hole x y h = set_hole C y h"
  using assms ctx_sibling(1) [OF assms(1-3)]
  by (cases C rule: par.cases) (auto simp: code_hole_def)

definition code_hole' :: "addr \<Rightarrow> addr \<Rightarrow> 'a rbheap_scheme \<Rightarrow> 'a rbheap_scheme" where
  "code_hole' x y h = (if rb_parent h x = NULL then h\<lparr>rb_root := y\<rparr>
     else if x = rb_right h (rb_parent h x) then set_right (rb_parent h x) y h
     else set_left (rb_parent h x) y h)"

lemma code_hole'_eq:
  assumes "ctx_at h x C" and "x \<noteq> NULL" and "x \<notin> set (ctx_nodes C)" and "rb_parent h x = par C"
  shows "code_hole' x y h = set_hole C y h"
  using assms ctx_sibling(2) [OF assms(1-3)]
  by (cases C rule: par.cases) (auto simp: code_hole'_def)

section \<open>Rotations, recolouring and transplants\<close>

text \<open>What the operations rely on of an augmentation callback: it leaves the links alone.\<close>

locale rb_augmented =
  fixes aug :: "'a augment"
  assumes aug_root: "rb_root (aug n h) = rb_root h"
    and aug_parent: "rb_parent (aug n h) = rb_parent h"
    and aug_left: "rb_left (aug n h) = rb_left h"
    and aug_right: "rb_right (aug n h) = rb_right h"
    and aug_color: "rb_color (aug n h) = rb_color h"
begin

lemma augment_fields [simp]:
  "rb_root (rb_augment aug n h) = rb_root h" "rb_parent (rb_augment aug n h) = rb_parent h"
  "rb_left (rb_augment aug n h) = rb_left h" "rb_right (rb_augment aug n h) = rb_right h"
  "rb_color (rb_augment aug n h) = rb_color h"
  by (simp_all add: rb_augment_def aug_root aug_parent aug_left aug_right aug_color)

lemma augment_tree_at [simp]: "tree_at (rb_augment aug n h) p x t = tree_at h p x t"
  by (rule tree_at_cong) (simp add: agree_def)

lemma augment_ctx_at [simp]: "ctx_at (rb_augment aug n h) x C = ctx_at h x C"
  by (rule ctx_at_cong) (simp_all add: agree_def)

lemma augment_rep [simp]: "rep (rb_augment aug n h) C x t = rep h C x t"
  by (simp add: rep_def)

lemma rotateLeft_rep:
  assumes R: "rep h C x (Node a x cx (Node b y cy d))"
  shows "rep (rb_rotateLeft aug x h) C y (Node (Node a x cx b) y cy d)"
proof -
  let ?b = "rb_left h y"
  define h1 where "h1 = set_right x ?b h"
  define h2 where "h2 = (if ?b \<noteq> NULL then set_parent ?b x h1 else h1)"
  define h3 where "h3 = set_parent y (par C) h2"
  define h4 where "h4 = set_hole C y h3"
  define h5 where "h5 = set_parent x y (set_left y x h4)"
  have T: "x \<noteq> NULL" "y \<noteq> NULL" "rb_parent h x = par C" "rb_color h x = cx" "rb_right h x = y"
      "rb_parent h y = x" "rb_color h y = cy" "tree_at h x (rb_left h x) a"
      "tree_at h y ?b b" "tree_at h y (rb_right h y) d" and cx: "ctx_at h x C"
    and D: "distinct (inorder a @ x # (inorder b @ y # inorder d) @ ctx_nodes C)"
    using R by (auto simp: rep_def)
  have b: "?b \<noteq> NULL \<longleftrightarrow> b \<noteq> Leaf" "b \<noteq> Leaf \<Longrightarrow> ?b \<in> set (inorder b)"
    using tree_at_null [OF T(9)] tree_at_in [OF T(9)] by auto
  have ne: "?b \<noteq> x" "?b \<noteq> y" "?b \<notin> set (inorder a)" "?b \<notin> set (inorder d)" "?b \<notin> set (ctx_nodes C)"
    using b D T(1,2) tree_at_nodes [OF T(8)] tree_at_nodes [OF T(10)] ctx_at_nodes [OF cx] by auto
  have t2: "tree_at h2 x ?b b" using T(9) D b tree_at_reparent [of h1 y ?b b x] by (auto simp: h2_def h1_def)
  have c3: "ctx_at h3 x C" using cx D ne by (auto simp: h3_def h2_def h1_def)
  have p2: "rb_parent h2 x = par C" using T ne by (simp add: h2_def h1_def)
  then have p3: "rb_parent h3 x = par C" by (simp add: h3_def)
  have f: "rb_left h1 = rb_left h" "rb_left h2 = rb_left h" by (simp_all add: h2_def h1_def)
  have "h4 = code_hole x y h3"
    unfolding h4_def by (rule code_hole_eq [OF c3, symmetric]) (use T D p3 in auto)
  then have h4: "(if par C = NULL then h3\<lparr>rb_root := y\<rparr>
      else if x = rb_left h3 (par C) then set_left (par C) y h3 else set_right (par C) y h3) = h4"
    by (simp only: code_hole_def p3)
  have e: "rb_rotateLeft aug x h = rb_augment aug (rb_right h5 y) (rb_augment aug (rb_left h5 y) h5)"
    unfolding rb_rotateLeft_def Let_def T(5) h1_def [symmetric] f h2_def [symmetric] p2
      h3_def [symmetric] p3 h4 h5_def [symmetric] augment_fields ..
  have "ctx_at h4 y C" unfolding h4_def by (rule ctx_at_hole [OF c3]) (use D in auto)
  then have c5: "ctx_at h5 y C" using D by (auto simp: h5_def)
  have "tree_at h5 (par C) y (Node (Node a x cx b) y cy d)"
    using T D ne t2 by (auto simp: h5_def h4_def h3_def h2_def h1_def Int_Un_distrib)
  then show ?thesis using c5 D unfolding e by (auto simp: rep_def)
qed

lemma rotateRight_rep:
  assumes R: "rep h C x (Node (Node d y cy b) x cx a)"
  shows "rep (rb_rotateRight aug x h) C y (Node d y cy (Node b x cx a))"
proof -
  let ?b = "rb_right h y"
  define h1 where "h1 = set_left x ?b h"
  define h2 where "h2 = (if ?b \<noteq> NULL then set_parent ?b x h1 else h1)"
  define h3 where "h3 = set_parent y (par C) h2"
  define h4 where "h4 = set_hole C y h3"
  define h5 where "h5 = set_parent x y (set_right y x h4)"
  have T: "x \<noteq> NULL" "y \<noteq> NULL" "rb_parent h x = par C" "rb_color h x = cx" "rb_left h x = y"
      "rb_parent h y = x" "rb_color h y = cy" "tree_at h x (rb_right h x) a"
      "tree_at h y ?b b" "tree_at h y (rb_left h y) d" and cx: "ctx_at h x C"
    and D: "distinct (inorder d @ y # inorder b @ x # inorder a @ ctx_nodes C)"
    using R by (auto simp: rep_def)
  have b: "?b \<noteq> NULL \<longleftrightarrow> b \<noteq> Leaf" "b \<noteq> Leaf \<Longrightarrow> ?b \<in> set (inorder b)"
    using tree_at_null [OF T(9)] tree_at_in [OF T(9)] by auto
  have ne: "?b \<noteq> x" "?b \<noteq> y" "?b \<notin> set (inorder a)" "?b \<notin> set (inorder d)" "?b \<notin> set (ctx_nodes C)"
    using b D T(1,2) tree_at_nodes [OF T(8)] tree_at_nodes [OF T(10)] ctx_at_nodes [OF cx] by auto
  have t2: "tree_at h2 x ?b b" using T(9) D b tree_at_reparent [of h1 y ?b b x] by (auto simp: h2_def h1_def)
  have c3: "ctx_at h3 x C" using cx D ne by (auto simp: h3_def h2_def h1_def)
  have p2: "rb_parent h2 x = par C" using T ne by (simp add: h2_def h1_def)
  then have p3: "rb_parent h3 x = par C" by (simp add: h3_def)
  have f: "rb_right h1 = rb_right h" "rb_right h2 = rb_right h" by (simp_all add: h2_def h1_def)
  have "h4 = code_hole' x y h3"
    unfolding h4_def by (rule code_hole'_eq [OF c3, symmetric]) (use T D p3 in auto)
  then have h4: "(if par C = NULL then h3\<lparr>rb_root := y\<rparr>
      else if x = rb_right h3 (par C) then set_right (par C) y h3 else set_left (par C) y h3) = h4"
    by (simp only: code_hole'_def p3)
  have e: "rb_rotateRight aug x h = rb_augment aug (rb_right h5 y) (rb_augment aug (rb_left h5 y) h5)"
    unfolding rb_rotateRight_def Let_def T(5) h1_def [symmetric] f h2_def [symmetric] p2
      h3_def [symmetric] p3 h4 h5_def [symmetric] augment_fields ..
  have "ctx_at h4 y C" unfolding h4_def by (rule ctx_at_hole [OF c3]) (use D in auto)
  then have c5: "ctx_at h5 y C" using D by (auto simp: h5_def)
  have "tree_at h5 (par C) y (Node d y cy (Node b x cx a))"
    using T D ne t2 by (auto simp: h5_def h4_def h3_def h2_def h1_def Int_Un_distrib)
  then show ?thesis using c5 D unfolding e by (auto simp: rep_def)
qed

end

section \<open>Colour and height invariants\<close>

fun rootc :: "rbt \<Rightarrow> rbcolor" where
  "rootc Leaf = RB_BLACK"
| "rootc (Node l a c r) = c"

fun bh :: "rbt \<Rightarrow> nat" where
  "bh Leaf = 0"
| "bh (Node l a c r) = bh l + (if c = RB_BLACK then 1 else 0)"

fun invh :: "rbt \<Rightarrow> bool" where
  "invh Leaf = True"
| "invh (Node l a c r) = (invh l \<and> invh r \<and> bh l = bh r)"

fun invc :: "rbt \<Rightarrow> bool" where
  "invc Leaf = True"
| "invc (Node l a c r) = (invc l \<and> invc r \<and> (c = RB_RED \<longrightarrow> rootc l = RB_BLACK \<and> rootc r = RB_BLACK))"

definition rb_tree :: "rbt \<Rightarrow> bool" where
  "rb_tree t \<longleftrightarrow> invc t \<and> invh t \<and> rootc t = RB_BLACK"

text \<open>What a context needs of the tree in its hole: the colour of its root and its black height.\<close>

fun hole_c :: "step list \<Rightarrow> rbcolor \<Rightarrow> bool" where
  "hole_c [] k \<longleftrightarrow> k = RB_BLACK"
| "hole_c (LeftOf a c r # C) k \<longleftrightarrow> invc r \<and> (c = RB_RED \<longrightarrow> rootc r = RB_BLACK \<and> k = RB_BLACK) \<and> hole_c C c"
| "hole_c (RightOf l a c # C) k \<longleftrightarrow> invc l \<and> (c = RB_RED \<longrightarrow> rootc l = RB_BLACK \<and> k = RB_BLACK) \<and> hole_c C c"

fun hole_h :: "step list \<Rightarrow> nat \<Rightarrow> bool" where
  "hole_h [] n \<longleftrightarrow> True"
| "hole_h (LeftOf a c r # C) n \<longleftrightarrow> invh r \<and> bh r = n \<and> hole_h C (n + (if c = RB_BLACK then 1 else 0))"
| "hole_h (RightOf l a c # C) n \<longleftrightarrow> invh l \<and> bh l = n \<and> hole_h C (n + (if c = RB_BLACK then 1 else 0))"

lemma rb_tree_plug:
  "rb_tree (plug C t) \<longleftrightarrow> invc t \<and> invh t \<and> hole_c C (rootc t) \<and> hole_h C (bh t)"
  by (induction C t rule: plug.induct) (auto simp: rb_tree_def)

lemma not_black [simp]: "c \<noteq> RB_BLACK \<longleftrightarrow> c = RB_RED" and not_red [simp]: "c \<noteq> RB_RED \<longleftrightarrow> c = RB_BLACK"
  by (cases c; simp)+

lemma rep_paint: "rep h C a (Node l a c r) \<Longrightarrow> rep (set_color a k h) C a (Node l a k r)"
  by (auto simp: rep_def)

lemma rep_root: "rep h [] x t \<Longrightarrow> rb_root h = x"
  by (simp add: rep_def)

lemma rep_black:
  "rep h C x t \<Longrightarrow> x \<noteq> NULL \<and> rb_color h x = RB_RED \<longleftrightarrow> rootc t = RB_RED"
  by (cases t) (auto simp: rep_def)

fun stepc :: "step \<Rightarrow> rbcolor" where
  "stepc (LeftOf a c r) = c"
| "stepc (RightOf l a c) = c"

fun fill :: "step \<Rightarrow> rbcolor \<Rightarrow> rbt \<Rightarrow> rbt" where
  "fill (LeftOf a c r) k t = Node t a k r"
| "fill (RightOf l a c) k t = Node l a k t"

section \<open>Insertion\<close>

context rb_augmented
begin

lemma insertBalance_stop:
  assumes R: "rep h C z t" and p: "par C = NULL \<or> rb_color h (par C) = RB_BLACK" and t: "t \<noteq> Leaf"
  shows "lib_rbInsertBalance aug z h = Some (set_color (rb_root h) RB_BLACK h)"
proof -
  have "rb_parent h z = par C" using R t by (cases t) (auto simp: rep_def)
  then show ?thesis using p by (subst lib_rbInsertBalance.simps) (auto simp: Let_def)
qed

lemma insertBalance_done:
  assumes R: "rep h C z t" and c: "C = [] \<or> hole_c C (rootc t)" and p: "par C = NULL \<or> rb_color h (par C) = RB_BLACK"
    and t: "t \<noteq> Leaf" "invc t" "invh t" "hole_h C (bh t)"
  shows "\<exists>h' t'. lib_rbInsertBalance aug z h = Some h' \<and> rep h' [] (rb_root h') t' \<and> rb_tree t'
    \<and> inorder t' = inorder (plug C t)"
proof -
  let ?h = "set_color (rb_root h) RB_BLACK h"
  have R': "rep h [] (rb_root h) (plug C t)" by (rule rep_plug [OF R])
  obtain l a k r where P: "plug C t = Node l a k r"
    using t(1) by (cases "plug C t") (auto simp: plug_Leaf)
  then have a: "rb_root h = a" using R' by (auto simp: rep_def)
  have "rep ?h [] a (Node l a RB_BLACK r)"
    using R' rep_paint [of h "[]" a l k r RB_BLACK] unfolding P a by simp
  moreover have "rb_tree (Node l a RB_BLACK r)"
  proof (cases "C = []")
    case True
    then show ?thesis using t P by (auto simp: rb_tree_def)
  next
    case False
    then have "rb_tree (plug C t)" using c t by (simp add: rb_tree_plug)
    then show ?thesis by (simp add: P rb_tree_def)
  qed
  ultimately show ?thesis
    using insertBalance_stop [OF R p t(1)] a by (intro exI [of _ ?h] exI [of _ "Node l a RB_BLACK r"]) (simp add: P)
qed

lemma recolor_L:
  assumes R: "rep h (s # LeftOf g cg (Node ul y RB_RED ur) # C) z t" and t: "t \<noteq> Leaf" and s: "stepc s = RB_RED"
    and h': "h' = set_color g RB_RED (set_color y RB_BLACK (set_color (par (s # C)) RB_BLACK h))"
  shows "lib_rbInsertBalance aug z h = lib_rbInsertBalance aug g h'"
    and "rep h' C g (Node (fill s RB_BLACK t) g RB_RED (Node ul y RB_BLACK ur))"
proof -
  show "rep h' C g (Node (fill s RB_BLACK t) g RB_RED (Node ul y RB_BLACK ur))"
    using R h' by (cases s) (auto simp: rep_def)
  show "lib_rbInsertBalance aug z h = lib_rbInsertBalance aug g h'"
    using R t s h' by (cases s; cases t; subst lib_rbInsertBalance.simps) (auto simp: rep_def Let_def)
qed

lemma inner_L:
  assumes R: "rep h (RightOf sb p RB_RED # LeftOf g cg u # C) z (Node l z k r)" and u: "rootc u = RB_BLACK"
  shows "lib_rbInsertBalance aug z h = lib_rbInsertBalance aug p (rb_rotateLeft aug p h)"
    and "rep (rb_rotateLeft aug p h) (LeftOf z k r # LeftOf g cg u # C) p (Node sb p RB_RED l)"
proof -
  have "rep h (LeftOf g cg u # C) p (Node sb p RB_RED (Node l z k r))"
    using R by (auto simp: rep_def)
  from rotateLeft_rep [OF this]
  show "rep (rb_rotateLeft aug p h) (LeftOf z k r # LeftOf g cg u # C) p (Node sb p RB_RED l)"
    by (auto simp: rep_def)
  show "lib_rbInsertBalance aug z h = lib_rbInsertBalance aug p (rb_rotateLeft aug p h)"
    using R u by (cases u; subst lib_rbInsertBalance.simps) (auto simp: rep_def Let_def)
qed

lemma outer_L:
  assumes R: "rep h (LeftOf p RB_RED sb # LeftOf g cg u # C) z (Node l z k r)" and u: "rootc u = RB_BLACK"
    and h': "h' = rb_rotateRight aug g (set_color g RB_RED (set_color p RB_BLACK h))"
  shows "lib_rbInsertBalance aug z h = lib_rbInsertBalance aug z h'"
    and "rep h' (LeftOf p RB_BLACK (Node sb g RB_RED u) # C) z (Node l z k r)"
proof -
  have "rep (set_color g RB_RED (set_color p RB_BLACK h)) C g
          (Node (Node (Node l z k r) p RB_BLACK sb) g RB_RED u)"
    using R by (auto simp: rep_def)
  from rotateRight_rep [OF this]
  show "rep h' (LeftOf p RB_BLACK (Node sb g RB_RED u) # C) z (Node l z k r)"
    unfolding h' by (auto simp: rep_def)
  have "z \<noteq> rb_right h p" using R by (cases sb) (auto simp: rep_def)
  then show "lib_rbInsertBalance aug z h = lib_rbInsertBalance aug z h'"
    using R u h' by (cases u; subst lib_rbInsertBalance.simps) (auto simp: rep_def Let_def)
qed

lemma recolor_R:
  assumes R: "rep h (s # RightOf (Node ul y RB_RED ur) g cg # C) z t" and t: "t \<noteq> Leaf" and s: "stepc s = RB_RED"
    and h': "h' = set_color g RB_RED (set_color y RB_BLACK (set_color (par (s # C)) RB_BLACK h))"
  shows "lib_rbInsertBalance aug z h = lib_rbInsertBalance aug g h'"
    and "rep h' C g (Node (Node ul y RB_BLACK ur) g RB_RED (fill s RB_BLACK t))"
proof -
  show "rep h' C g (Node (Node ul y RB_BLACK ur) g RB_RED (fill s RB_BLACK t))"
    using R h' by (cases s) (auto simp: rep_def)
  show "lib_rbInsertBalance aug z h = lib_rbInsertBalance aug g h'"
    using R t s h' by (cases s; cases t; cases ul; subst lib_rbInsertBalance.simps) (auto simp: rep_def Let_def)
qed

lemma inner_R:
  assumes R: "rep h (LeftOf p RB_RED sb # RightOf u g cg # C) z (Node l z k r)" and u: "rootc u = RB_BLACK"
  shows "lib_rbInsertBalance aug z h = lib_rbInsertBalance aug p (rb_rotateRight aug p h)"
    and "rep (rb_rotateRight aug p h) (RightOf l z k # RightOf u g cg # C) p (Node r p RB_RED sb)"
proof -
  have "rep h (RightOf u g cg # C) p (Node (Node l z k r) p RB_RED sb)"
    using R by (auto simp: rep_def)
  from rotateRight_rep [OF this]
  show "rep (rb_rotateRight aug p h) (RightOf l z k # RightOf u g cg # C) p (Node r p RB_RED sb)"
    by (auto simp: rep_def)
  show "lib_rbInsertBalance aug z h = lib_rbInsertBalance aug p (rb_rotateRight aug p h)"
    using R u by (cases u; subst lib_rbInsertBalance.simps) (auto simp: rep_def Let_def)
qed

lemma outer_R:
  assumes R: "rep h (RightOf sb p RB_RED # RightOf u g cg # C) z (Node l z k r)" and u: "rootc u = RB_BLACK"
    and h': "h' = rb_rotateLeft aug g (set_color g RB_RED (set_color p RB_BLACK h))"
  shows "lib_rbInsertBalance aug z h = lib_rbInsertBalance aug z h'"
    and "rep h' (RightOf (Node u g RB_RED sb) p RB_BLACK # C) z (Node l z k r)"
proof -
  have "rep (set_color g RB_RED (set_color p RB_BLACK h)) C g
          (Node u g RB_RED (Node sb p RB_BLACK (Node l z k r)))"
    using R by (auto simp: rep_def)
  from rotateLeft_rep [OF this]
  show "rep h' (RightOf (Node u g RB_RED sb) p RB_BLACK # C) z (Node l z k r)"
    unfolding h' by (auto simp: rep_def)
  have "z \<noteq> rb_left h p" using R by (cases sb) (auto simp: rep_def)
  then show "lib_rbInsertBalance aug z h = lib_rbInsertBalance aug z h'"
    using R u h' by (cases u; subst lib_rbInsertBalance.simps) (auto simp: rep_def Let_def)
qed

lemma outer_done:
  assumes R: "rep h (s # s' # C) z (Node l z RB_RED r)" and s: "stepc s = RB_RED" "stepc s' = RB_BLACK"
    and sh: "(\<exists>p sb g u. s = LeftOf p RB_RED sb \<and> s' = LeftOf g RB_BLACK u \<and> rootc u = RB_BLACK)
      \<or> (\<exists>p sb g u. s = RightOf sb p RB_RED \<and> s' = RightOf u g RB_BLACK \<and> rootc u = RB_BLACK)"
    and t: "invc (Node l z RB_RED r)" "invh (Node l z RB_RED r)"
    and c: "hole_c (s # s' # C) RB_BLACK" "hole_h (s # s' # C) (bh (Node l z RB_RED r))"
  shows "\<exists>h' t'. lib_rbInsertBalance aug z h = Some h' \<and> rep h' [] (rb_root h') t' \<and> rb_tree t'
    \<and> inorder t' = inorder (plug (s # s' # C) (Node l z RB_RED r))"
  using sh
proof (elim disjE exE conjE)
  fix p sb g u
  assume e: "s = LeftOf p RB_RED sb" "s' = LeftOf g RB_BLACK u" and u: "rootc u = RB_BLACK"
  let ?D = "LeftOf p RB_BLACK (Node sb g RB_RED u) # C"
  note O = outer_L [OF R [unfolded e] u refl]
  let ?h = "rb_rotateRight aug g (set_color g RB_RED (set_color p RB_BLACK h))"
  have "rb_color ?h (par ?D) = RB_BLACK" using O(2) by (simp add: rep_def)
  then have "\<exists>h' t'. lib_rbInsertBalance aug z ?h = Some h' \<and> rep h' [] (rb_root h') t' \<and> rb_tree t'
      \<and> inorder t' = inorder (plug ?D (Node l z RB_RED r))"
    by (intro insertBalance_done [OF O(2)]) (use t c u e in auto)
  moreover have "inorder (plug ?D (Node l z RB_RED r)) = inorder (plug (s # s' # C) (Node l z RB_RED r))"
    using e by (auto intro: inorder_plug_cong)
  ultimately show ?thesis unfolding O(1) by simp
next
  fix p sb g u
  assume e: "s = RightOf sb p RB_RED" "s' = RightOf u g RB_BLACK" and u: "rootc u = RB_BLACK"
  let ?D = "RightOf (Node u g RB_RED sb) p RB_BLACK # C"
  note O = outer_R [OF R [unfolded e] u refl]
  let ?h = "rb_rotateLeft aug g (set_color g RB_RED (set_color p RB_BLACK h))"
  have "rb_color ?h (par ?D) = RB_BLACK" using O(2) by (simp add: rep_def)
  then have "\<exists>h' t'. lib_rbInsertBalance aug z ?h = Some h' \<and> rep h' [] (rb_root h') t' \<and> rb_tree t'
      \<and> inorder t' = inorder (plug ?D (Node l z RB_RED r))"
    by (intro insertBalance_done [OF O(2)]) (use t c u e in auto)
  moreover have "inorder (plug ?D (Node l z RB_RED r)) = inorder (plug (s # s' # C) (Node l z RB_RED r))"
    using e by (auto intro: inorder_plug_cong)
  ultimately show ?thesis unfolding O(1) by simp
qed

lemma insertBalance_ok:
  assumes "rep h C z (Node l z RB_RED r)" and "invc (Node l z RB_RED r)" and "invh (Node l z RB_RED r)"
    and "hole_c C RB_BLACK" and "hole_h C (bh (Node l z RB_RED r))"
  shows "\<exists>h' t'. lib_rbInsertBalance aug z h = Some h' \<and> rep h' [] (rb_root h') t' \<and> rb_tree t'
    \<and> inorder t' = inorder (plug C (Node l z RB_RED r))"
  using assms
proof (induction "length C" arbitrary: h C z l r rule: less_induct)
  case less
  let ?t = "Node l z RB_RED r"
  note R = less.prems(1) and t = less.prems(2,3) and c = less.prems(4,5)
  show ?case
  proof (cases "par C = NULL \<or> rb_color h (par C) = RB_BLACK")
    case True
    moreover have "C = [] \<or> hole_c C RB_RED" using R True c(1) by (cases C rule: par.cases) (auto simp: rep_def)
    ultimately show ?thesis using insertBalance_done [OF R] t c by simp
  next
    case False
    then obtain s D where C: "C = s # D" and s: "stepc s = RB_RED"
      using R by (cases C rule: par.cases) (auto simp: rep_def)
    have "hole_c D RB_RED" using c(1) C s by (cases s) auto
    then obtain s' E where D: "D = s' # E" and s': "stepc s' = RB_BLACK"
      by (cases D rule: par.cases) (auto simp flip: not_red)
    have step: ?thesis if "rep h' E g (Node a g RB_RED b)" "lib_rbInsertBalance aug z h = lib_rbInsertBalance aug g h'"
        "invc (Node a g RB_RED b)" "invh (Node a g RB_RED b)" "hole_c E RB_BLACK"
        "hole_h E (bh (Node a g RB_RED b))" "inorder (plug E (Node a g RB_RED b)) = inorder (plug C ?t)" for h' g a b
      using less.hyps [OF _ that(1,3-6)] that(2,7) C D by simp
    show ?thesis
    proof (cases s')
      case (LeftOf g cg u)
      note e = this
      show ?thesis
      proof (cases "rootc u")
        case RB_RED
        then obtain ul y ur where u: "u = Node ul y RB_RED ur" by (cases u) auto
        note Q = recolor_L [OF R [unfolded C D e u] _ s refl]
        show ?thesis
          by (rule step [OF Q(2,1)]) (use t c s s' C D e u in \<open>cases s; auto intro: inorder_plug_cong\<close>)+
      next
        case RB_BLACK
        show ?thesis
        proof (cases s)
          case (LeftOf p c sb)
          show ?thesis using outer_done [of h s s' E z l r] R t less.prems(4,5) s s' C D e LeftOf RB_BLACK by simp
        next
          case (RightOf sb p c)
          note Q = inner_L [OF R [unfolded C D e RightOf s [unfolded RightOf stepc.simps]] RB_BLACK]
          have "\<exists>h' t'. lib_rbInsertBalance aug p (rb_rotateLeft aug p h) = Some h' \<and> rep h' [] (rb_root h') t'
            \<and> rb_tree t' \<and> inorder t' = inorder (plug (LeftOf z RB_RED r # LeftOf g cg u # E) (Node sb p RB_RED l))"
            by (rule outer_done [OF Q(2)]) (use t less.prems(4,5) s s' C D e RightOf RB_BLACK in auto)
          moreover have "inorder (plug (LeftOf z RB_RED r # LeftOf g cg u # E) (Node sb p RB_RED l))
            = inorder (plug C ?t)" unfolding C D e RightOf by (auto intro: inorder_plug_cong)
          ultimately show ?thesis unfolding Q(1) by simp
        qed
      qed
    next
      case (RightOf u g cg)
      note e = this
      show ?thesis
      proof (cases "rootc u")
        case RB_RED
        then obtain ul y ur where u: "u = Node ul y RB_RED ur" by (cases u) auto
        note Q = recolor_R [OF R [unfolded C D e u] _ s refl]
        show ?thesis
          by (rule step [OF Q(2,1)]) (use t c s s' C D e u in \<open>cases s; auto intro: inorder_plug_cong\<close>)+
      next
        case RB_BLACK
        show ?thesis
        proof (cases s)
          case (RightOf sb p c)
          show ?thesis using outer_done [of h s s' E z l r] R t less.prems(4,5) s s' C D e RightOf RB_BLACK by simp
        next
          case (LeftOf p c sb)
          note Q = inner_R [OF R [unfolded C D e LeftOf s [unfolded LeftOf stepc.simps]] RB_BLACK]
          have "\<exists>h' t'. lib_rbInsertBalance aug p (rb_rotateRight aug p h) = Some h' \<and> rep h' [] (rb_root h') t'
            \<and> rb_tree t' \<and> inorder t' = inorder (plug (RightOf l z RB_RED # RightOf u g cg # E) (Node r p RB_RED sb))"
            by (rule outer_done [OF Q(2)]) (use t less.prems(4,5) s s' C D e LeftOf RB_BLACK in auto)
          moreover have "inorder (plug (RightOf l z RB_RED # RightOf u g cg # E) (Node r p RB_RED sb))
            = inorder (plug C ?t)" unfolding C D e LeftOf by (auto intro: inorder_plug_cong)
          ultimately show ?thesis unfolding Q(1) by simp
        qed
      qed
    qed
  qed
qed

end

end
