(* ===== verification/Lib_RB_Ops.thy ===== *)
theory Lib_RB_Ops
  imports Lib_RB_Tree
begin

text \<open>
  The operations of \<^verbatim>\<open>lib/rb.c\<close> that search, walk and insert, against the
  sequence of the nodes of the tree.
\<close>

section \<open>Searching\<close>

text \<open>
  \<open>search_cut compare z xs\<close>: the comparison with \<open>z\<close> is monotone along \<open>xs\<close>, negative before
  the place of \<open>z\<close> and positive after it.
\<close>

definition search_cut :: "(addr \<Rightarrow> addr \<Rightarrow> int) \<Rightarrow> addr \<Rightarrow> addr list \<Rightarrow> bool" where
  "search_cut compare z xs \<longleftrightarrow> sorted_wrt (\<lambda>a b. (compare b z < 0 \<longrightarrow> compare a z < 0) \<and> (compare a z > 0 \<longrightarrow> compare b z > 0)
     \<and> (compare a z = 0 \<longrightarrow> compare b z > 0)) xs"

lemma search_cut_append [simp]:
  "search_cut c z (xs @ ys) \<longleftrightarrow> search_cut c z xs \<and> search_cut c z ys \<and> (\<forall>a \<in> set xs. \<forall>b \<in> set ys.
     (c b z < 0 \<longrightarrow> c a z < 0) \<and> (c a z > 0 \<longrightarrow> c b z > 0) \<and> (c a z = 0 \<longrightarrow> c b z > 0))"
  by (auto simp: search_cut_def sorted_wrt_append)

lemma search_cut_Cons [simp]:
  "search_cut c z (a # ys) \<longleftrightarrow> search_cut c z ys \<and> (\<forall>b \<in> set ys.
     (c b z < 0 \<longrightarrow> c a z < 0) \<and> (c a z > 0 \<longrightarrow> c b z > 0) \<and> (c a z = 0 \<longrightarrow> c b z > 0))"
  by (auto simp: search_cut_def)

lemma find_append: "find P (xs @ ys) = (case find P xs of None \<Rightarrow> find P ys | Some x \<Rightarrow> Some x)"
  by (induction xs) auto

lemma find_none: "(\<And>a. a \<in> set xs \<Longrightarrow> \<not> P a) \<Longrightarrow> find P xs = None"
  by (induction xs) auto

lemma findEx_tree:
  "tree_at h p x t \<Longrightarrow> search_cut c n (inorder t) \<Longrightarrow>
   lib_rbFindEx h x n c = Some (case find (\<lambda>a. c a n = 0) (inorder t) of None \<Rightarrow> NULL | Some a \<Rightarrow> a)"
proof (induction t arbitrary: p x)
  case Leaf
  then show ?case by (simp add: lib_rbFindEx.simps)
next
  case (Node l a k r)
  have L: "lib_rbFindEx h (rb_left h a) n c = Some (case find (\<lambda>a. c a n = 0) (inorder l) of None \<Rightarrow> NULL | Some a \<Rightarrow> a)"
    and R: "lib_rbFindEx h (rb_right h a) n c = Some (case find (\<lambda>a. c a n = 0) (inorder r) of None \<Rightarrow> NULL | Some a \<Rightarrow> a)"
    using Node.IH(1) [of a "rb_left h a"] Node.IH(2) [of a "rb_right h a"] Node.prems by simp_all
  have x: "x = a" "a \<noteq> NULL" using Node.prems(1) by simp_all
  consider "c a n = 0" | "c a n > 0" | "c a n < 0" by linarith
  then show ?case
  proof cases
    case 1
    have "find (\<lambda>a. c a n = 0) (inorder l) = None" by (rule find_none) (use 1 Node.prems(2) in fastforce)
    with 1 x show ?thesis by (simp add: lib_rbFindEx.simps [of h a] find_append)
  next
    case 2
    have "find (\<lambda>a. c a n = 0) (inorder r) = None" by (rule find_none) (use 2 Node.prems(2) in fastforce)
    with 2 x L show ?thesis by (simp add: lib_rbFindEx.simps [of h a] find_append split: option.splits)
  next
    case 3
    have "find (\<lambda>a. c a n = 0) (inorder l) = None" by (rule find_none) (use 3 Node.prems(2) in fastforce)
    with 3 x R show ?thesis by (simp add: lib_rbFindEx.simps [of h a] find_append)
  qed
qed

lemma min_loop_tree: "tree_at h p x t \<Longrightarrow> t \<noteq> Leaf \<Longrightarrow> rb_min_loop h x = Some (hd (inorder t))"
proof (induction t arbitrary: p x)
  case (Node l a k r)
  then show ?case
    using tree_at_null [of h a "rb_left h a" l] by (cases "l = Leaf") (auto simp: rb_min_loop.simps [of h a] hd_append tree_at_in elim: inorder.elims)
qed simp

lemma max_loop_tree: "tree_at h p x t \<Longrightarrow> t \<noteq> Leaf \<Longrightarrow> rb_max_loop h x = Some (last (inorder t))"
proof (induction t arbitrary: p x)
  case (Node l a k r)
  then show ?case
    using tree_at_null [of h a "rb_right h a" r] by (cases "r = Leaf") (auto simp: rb_max_loop.simps [of h a] elim: inorder.elims)
qed simp

lemma minimum_tree: "tree_at h p x t \<Longrightarrow> lib_rbMinimum h x = Some (if t = Leaf then NULL else hd (inorder t))"
  using min_loop_tree [of h p x t] tree_at_null [of h p x t] by (auto simp: lib_rbMinimum_def)

lemma maximum_tree: "tree_at h p x t \<Longrightarrow> lib_rbMaximum h x = Some (if t = Leaf then NULL else last (inorder t))"
  using max_loop_tree [of h p x t] tree_at_null [of h p x t] by (auto simp: lib_rbMaximum_def)

section \<open>Positions\<close>

fun ctx_before :: "step list \<Rightarrow> addr list" where
  "ctx_before [] = []"
| "ctx_before (LeftOf a c r # C) = ctx_before C"
| "ctx_before (RightOf l a c # C) = ctx_before C @ inorder l @ [a]"

fun ctx_after :: "step list \<Rightarrow> addr list" where
  "ctx_after [] = []"
| "ctx_after (LeftOf a c r # C) = a # inorder r @ ctx_after C"
| "ctx_after (RightOf l a c # C) = ctx_after C"

lemma inorder_plug_ctx: "inorder (plug C t) = ctx_before C @ inorder t @ ctx_after C"
  by (induction C t rule: plug.induct) simp_all

lemma plug_append: "plug (D @ C) t = plug C (plug D t)"
  by (induction D t rule: plug.induct) simp_all

text \<open>Every node of a tree can be brought into focus.\<close>

lemma rep_zoom:
  "rep h C x t \<Longrightarrow> a \<in> set (inorder t) \<Longrightarrow>
   \<exists>D l c r. rep h (D @ C) a (Node l a c r) \<and> plug D (Node l a c r) = t"
proof (induction t arbitrary: C x)
  case (Node l b c r)
  consider "a = b" | "a \<in> set (inorder l)" | "a \<in> set (inorder r)" using Node.prems(2) by auto
  then show ?case
  proof cases
    case 1
    then have "rep h ([] @ C) a (Node l a c r)" using Node.prems(1) by (auto simp: rep_def)
    then show ?thesis using 1 by (metis plug.simps(1))
  next
    case 2
    have "rep h (LeftOf b c r # C) (rb_left h b) l" using Node.prems(1) rep_left by blast
    from Node.IH(1) [OF this 2] obtain D l' c' r' where
      "rep h ((D @ [LeftOf b c r]) @ C) a (Node l' a c' r')" "plug D (Node l' a c' r') = l" by auto
    then show ?thesis by (metis plug_append plug.simps(1,2))
  next
    case 3
    have "rep h (RightOf l b c # C) (rb_right h b) r" using Node.prems(1) rep_right by blast
    from Node.IH(2) [OF this 3] obtain D l' c' r' where
      "rep h ((D @ [RightOf l b c]) @ C) a (Node l' a c' r')" "plug D (Node l' a c' r') = r" by auto
    then show ?thesis by (metis plug_append plug.simps(1,3))
  qed
qed simp

section \<open>Walking\<close>

definition first_or_null :: "addr list \<Rightarrow> addr" where
  "first_or_null xs = (if xs = [] then NULL else hd xs)"

lemma rep_parent: "rep h C x t \<Longrightarrow> t \<noteq> Leaf \<Longrightarrow> x \<noteq> NULL \<and> rb_parent h x = par C \<and> x \<notin> set (ctx_nodes C)"
  by (cases t) (auto simp: rep_def)

lemma up_right_rep: "rep h C x t \<Longrightarrow> t \<noteq> Leaf \<Longrightarrow> rb_up_right h x = Some (first_or_null (ctx_after C))"
proof (induction C arbitrary: x t)
  case Nil
  then show ?case
    using rep_parent [OF Nil] by (simp add: rb_up_right.simps [of h x] first_or_null_def)
next
  case (Cons s C)
  have P: "x \<noteq> NULL" "rb_parent h x = par (s # C)" "x \<notin> set (ctx_nodes (s # C))" "ctx_at h x (s # C)"
    using rep_parent [OF Cons.prems] Cons.prems(1) by (auto simp: rep_def)
  show ?case
  proof (cases s)
    case (LeftOf a c r)
    then have "rb_right h a \<noteq> x" using ctx_sibling(2) [OF P(4,1,3)] by simp
    with LeftOf P show ?thesis by (auto simp: rb_up_right.simps [of h x] first_or_null_def)
  next
    case (RightOf l a c)
    then have R: "rep h C a (Node l a c t)" using Cons.prems(1) by (auto simp: rep_def)
    then have "a \<noteq> NULL" "rb_right h a = x" using Cons.prems(1) RightOf by (auto simp: rep_def)
    then show ?thesis using Cons.IH [OF R] P(2) RightOf by (simp add: rb_up_right.simps [of h x])
  qed
qed

lemma up_left_rep:
  "rep h C x t \<Longrightarrow> t \<noteq> Leaf \<Longrightarrow> rb_up_left h x = Some (first_or_null (rev (ctx_before C)))"
proof (induction C arbitrary: x t)
  case Nil
  then show ?case
    using rep_parent [OF Nil] by (simp add: rb_up_left.simps [of h x] first_or_null_def)
next
  case (Cons s C)
  have P: "x \<noteq> NULL" "rb_parent h x = par (s # C)" "x \<notin> set (ctx_nodes (s # C))" "ctx_at h x (s # C)"
    using rep_parent [OF Cons.prems] Cons.prems(1) by (auto simp: rep_def)
  show ?case
  proof (cases s)
    case (RightOf l a c)
    then have "rb_left h a \<noteq> x" using ctx_sibling(1) [OF P(4,1,3)] by simp
    with RightOf P show ?thesis by (auto simp: rb_up_left.simps [of h x] first_or_null_def)
  next
    case (LeftOf a c r)
    then have R: "rep h C a (Node t a c r)" using Cons.prems(1) by (auto simp: rep_def)
    then have "a \<noteq> NULL" "rb_left h a = x" using Cons.prems(1) LeftOf by (auto simp: rep_def)
    then show ?thesis using Cons.IH [OF R] P(2) LeftOf by (simp add: rb_up_left.simps [of h x])
  qed
qed

lemma inorder_Nil [simp]: "inorder t = [] \<longleftrightarrow> t = Leaf"
  by (cases t) auto

lemma next_rep:
  assumes R: "rep h C x (Node l x c r)"
  shows "lib_rbNext h x = Some (first_or_null (inorder r @ ctx_after C))"
proof -
  have t: "tree_at h x (rb_right h x) r" using R by (simp add: rep_def)
  show ?thesis
    using minimum_tree [OF t] tree_at_null [OF t] up_right_rep [OF R]
    by (auto simp: lib_rbNext_def first_or_null_def)
qed

lemma prev_rep:
  assumes R: "rep h C x (Node l x c r)"
  shows "lib_rbPrev h x = Some (first_or_null (rev (ctx_before C @ inorder l)))"
proof -
  have t: "tree_at h x (rb_left h x) l" using R by (simp add: rep_def)
  show ?thesis
    using maximum_tree [OF t] tree_at_null [OF t] up_left_rep [OF R]
    by (auto simp: lib_rbPrev_def first_or_null_def hd_rev)
qed

lemma distinct_split_unique:
  "distinct (as @ x # bs) \<Longrightarrow> as @ x # bs = as' @ x # bs' \<Longrightarrow> as = as' \<and> bs = bs'"
proof (induction as arbitrary: as')
  case Nil
  then show ?case by (cases as') auto
next
  case (Cons a as)
  note IH = Cons.IH and P = Cons.prems
  show ?case
  proof (cases as')
    case Nil
    then show ?thesis using P by auto
  next
    case (Cons b cs)
    then have "a = b" "as @ x # bs = cs @ x # bs'" using P by simp_all
    then show ?thesis using IH [of cs] P Cons by simp
  qed
qed

lemma walk_whole:
  assumes R: "rep h [] x0 t" and s: "inorder t = as @ x # bs"
  shows "lib_rbNext h x = Some (first_or_null bs)" and "lib_rbPrev h x = Some (first_or_null (rev as))"
proof -
  obtain D l c r where D: "rep h D x (Node l x c r)" "plug D (Node l x c r) = t"
    using rep_zoom [OF R, of x] s by auto
  have d: "distinct (inorder t)" using R by (simp add: rep_def)
  have "inorder t = (ctx_before D @ inorder l) @ x # (inorder r @ ctx_after D)"
    using D(2) inorder_plug_ctx [of D "Node l x c r"] by simp
  then have e: "ctx_before D @ inorder l = as" "inorder r @ ctx_after D = bs"
    using distinct_split_unique [of as x bs] s d by metis+
  show "lib_rbNext h x = Some (first_or_null bs)" using next_rep [OF D(1)] e by simp
  show "lib_rbPrev h x = Some (first_or_null (rev as))" using prev_rep [OF D(1)] e by simp
qed

section \<open>Insertion\<close>

definition ordered_insert :: "(addr \<Rightarrow> addr \<Rightarrow> int) \<Rightarrow> addr \<Rightarrow> addr list \<Rightarrow> addr list" where
  "ordered_insert c z xs = takeWhile (\<lambda>a. c a z < 0) xs @ z # dropWhile (\<lambda>a. c a z < 0) xs"

fun arrives :: "step list \<Rightarrow> int \<Rightarrow> int \<Rightarrow> bool" where
  "arrives [] c0 c \<longleftrightarrow> c = c0"
| "arrives (LeftOf a k r # C) c0 c \<longleftrightarrow> c > 0"
| "arrives (RightOf l a k # C) c0 c \<longleftrightarrow> c < 0"

lemma descend_found:
  "tree_at h p x t \<Longrightarrow> search_cut c z (inorder t) \<Longrightarrow> a \<in> set (inorder t) \<Longrightarrow> c a z = 0 \<Longrightarrow>
   rb_insert_descend c z h y x c0 = Some (a, 0)"
proof (induction t arbitrary: p x y c0)
  case (Node l b k r)
  have x: "x = b" "b \<noteq> NULL" using Node.prems(1) by simp_all
  consider "a = b" | "a \<in> set (inorder l)" | "a \<in> set (inorder r)" using Node.prems(3) by auto
  then show ?case
  proof cases
    case 1
    then show ?thesis using x Node.prems(4) by (simp add: rb_insert_descend.simps [of c z h _ b])
  next
    case 2
    then have "c b z > 0" using Node.prems(2,4) by auto
    then show ?thesis using Node.IH(1) [OF _ _ 2] Node.prems x
      by (auto simp: rb_insert_descend.simps [of c z h _ b])
  next
    case 3
    then have "c b z < 0" using Node.prems(2,4) by fastforce
    then show ?thesis using Node.IH(2) [OF _ _ 3] Node.prems x
      by (auto simp: rb_insert_descend.simps [of c z h _ b])
  qed
qed simp

lemma cut_take: "(\<And>a. a \<in> set xs \<Longrightarrow> P a) \<Longrightarrow> takeWhile P (xs @ ys) = xs @ takeWhile P ys \<and> dropWhile P (xs @ ys) = dropWhile P ys"
  by (induction xs) auto

lemma cut_stop: "\<not> P b \<Longrightarrow> takeWhile P (xs @ b # ys) = takeWhile P xs \<and> dropWhile P (xs @ b # ys) = dropWhile P xs @ b # ys"
  by (induction xs) auto

lemma descend_leaf:
  "rep h C x t \<Longrightarrow> search_cut c z (inorder t) \<Longrightarrow> (\<And>a. a \<in> set (inorder t) \<Longrightarrow> c a z \<noteq> 0) \<Longrightarrow>
   \<exists>D cc. rb_insert_descend c z h (par C) x c0 = Some (par (D @ C), cc) \<and> rep h (D @ C) NULL Leaf
     \<and> plug D Leaf = t \<and> arrives D c0 cc \<and> ctx_before D = takeWhile (\<lambda>a. c a z < 0) (inorder t)
     \<and> ctx_after D = dropWhile (\<lambda>a. c a z < 0) (inorder t)"
proof (induction t arbitrary: C x c0)
  case Leaf
  then have "x = NULL" by (simp add: rep_def)
  then show ?case using Leaf by (intro exI [of _ "[]"]) (simp add: rb_insert_descend.simps [of c z h _ NULL])
next
  case (Node l b k r)
  have x: "x = b" "b \<noteq> NULL" using Node.prems(1) by (simp_all add: rep_def)
  have L: "rep h (LeftOf b k r # C) (rb_left h b) l" using Node.prems(1) rep_left by blast
  have R: "rep h (RightOf l b k # C) (rb_right h b) r" using Node.prems(1) rep_right by blast
  have nz: "c b z \<noteq> 0" using Node.prems(3) by simp
  show ?case
  proof (cases "c b z > 0")
    case True
    then have e: "takeWhile (\<lambda>a. c a z < 0) (inorder (Node l b k r)) = takeWhile (\<lambda>a. c a z < 0) (inorder l)"
      "dropWhile (\<lambda>a. c a z < 0) (inorder (Node l b k r)) = dropWhile (\<lambda>a. c a z < 0) (inorder l) @ b # inorder r"
      using cut_stop [of "\<lambda>a. c a z < 0" b "inorder l" "inorder r"] by simp_all
    obtain D cc where D: "rb_insert_descend c z h b (rb_left h b) (c b z) = Some (par (D @ LeftOf b k r # C), cc)"
        "rep h (D @ LeftOf b k r # C) NULL Leaf" "plug D Leaf = l" "arrives D (c b z) cc"
        "ctx_before D = takeWhile (\<lambda>a. c a z < 0) (inorder l)" "ctx_after D = dropWhile (\<lambda>a. c a z < 0) (inorder l)"
      using Node.IH(1) [OF L, of "c b z"] Node.prems(2,3) by auto
    have "ctx_before (D @ [LeftOf b k r]) = ctx_before D" "ctx_after (D @ [LeftOf b k r]) = ctx_after D @ b # inorder r"
      by (induction D rule: ctx_before.induct) auto
    then show ?thesis using D e True x nz
      by (intro exI [of _ "D @ [LeftOf b k r]"] exI [of _ cc])
        (cases D rule: par.cases; simp add: plug_append rb_insert_descend.simps [of c z h _ b])
  next
    case False
    then have lt: "c b z < 0" using nz by simp
    then have "\<And>a. a \<in> set (inorder l) \<Longrightarrow> c a z < 0" using Node.prems(2) by auto
    then have e: "takeWhile (\<lambda>a. c a z < 0) (inorder (Node l b k r)) = inorder l @ b # takeWhile (\<lambda>a. c a z < 0) (inorder r)"
      "dropWhile (\<lambda>a. c a z < 0) (inorder (Node l b k r)) = dropWhile (\<lambda>a. c a z < 0) (inorder r)"
      using lt cut_take [of "inorder l" "\<lambda>a. c a z < 0"] by simp_all
    obtain D cc where D: "rb_insert_descend c z h b (rb_right h b) (c b z) = Some (par (D @ RightOf l b k # C), cc)"
        "rep h (D @ RightOf l b k # C) NULL Leaf" "plug D Leaf = r" "arrives D (c b z) cc"
        "ctx_before D = takeWhile (\<lambda>a. c a z < 0) (inorder r)" "ctx_after D = dropWhile (\<lambda>a. c a z < 0) (inorder r)"
      using Node.IH(2) [OF R, of "c b z"] Node.prems(2,3) by auto
    have "ctx_after (D @ [RightOf l b k]) = ctx_after D" "ctx_before (D @ [RightOf l b k]) = inorder l @ b # ctx_before D"
      by (induction D rule: ctx_before.induct) auto
    then show ?thesis using D e lt x nz
      by (intro exI [of _ "D @ [RightOf l b k]"] exI [of _ cc])
        (cases D rule: par.cases; simp add: plug_append rb_insert_descend.simps [of c z h _ b])
  qed
qed

text \<open>A heap holds a red-black tree with the nodes \<open>xs\<close> in order.\<close>

definition rb_nodes :: "'a rbheap_scheme \<Rightarrow> addr list \<Rightarrow> bool" where
  "rb_nodes h xs \<longleftrightarrow> (\<exists>t. rep h [] (rb_root h) t \<and> rb_tree t \<and> inorder t = xs)"

lemma rb_nodes_distinct: "rb_nodes h xs \<Longrightarrow> distinct xs \<and> NULL \<notin> set xs"
  using tree_at_nodes by (fastforce simp: rb_nodes_def rep_def)

context rb_augmented
begin

lemma link_rep:
  assumes R: "rep h C NULL Leaf" and z: "z \<noteq> NULL" "z \<notin> set (ctx_nodes C)" and a: "C \<noteq> [] \<Longrightarrow> arrives C c0 c"
  shows "rep (rb_link aug z (par C) c h) C z (Node Leaf z RB_RED Leaf)"
  using assms by (cases C rule: par.cases) (auto simp: rep_def rb_link_def Let_def)

lemma insert_new:
  assumes T: "rb_nodes h xs" and c: "search_cut c z xs" and nz: "\<And>a. a \<in> set xs \<Longrightarrow> c a z \<noteq> 0"
    and z: "z \<noteq> NULL" "z \<notin> set xs"
  shows "\<exists>h'. lib_rbInsert aug c z h = Some (h', EOK) \<and> rb_nodes h' (ordered_insert c z xs)"
proof -
  obtain t where R: "rep h [] (rb_root h) t" and rb: "rb_tree t" and xs: "inorder t = xs"
    using T by (auto simp: rb_nodes_def)
  obtain D cc where D: "rb_insert_descend c z h NULL (rb_root h) 0 = Some (par D, cc)" "rep h D NULL Leaf"
      "plug D Leaf = t" "arrives D 0 cc" "ctx_before D = takeWhile (\<lambda>a. c a z < 0) xs"
      "ctx_after D = dropWhile (\<lambda>a. c a z < 0) xs"
    using descend_leaf [OF R, of c z 0] c nz xs by auto
  have nd: "z \<notin> set (ctx_nodes D)" using z(2) xs D(3) plug_nodes [of D Leaf] by auto
  have L: "rep (rb_link aug z (par D) cc h) D z (Node Leaf z RB_RED Leaf)"
    using link_rep [OF D(2) z(1) nd] D(4) by simp
  have "hole_c D RB_BLACK" "hole_h D 0" using rb D(3) rb_tree_plug [of D Leaf] by simp_all
  then obtain h' t' where B: "lib_rbInsertBalance aug z (rb_link aug z (par D) cc h) = Some h'"
      "rep h' [] (rb_root h') t'" "rb_tree t'" "inorder t' = inorder (plug D (Node Leaf z RB_RED Leaf))"
    using insertBalance_ok [OF L] by auto
  have "inorder t' = ordered_insert c z xs"
    using B(4) D(5,6) by (simp add: inorder_plug_ctx ordered_insert_def)
  moreover have "\<not> (par D \<noteq> NULL \<and> cc = 0)" using D(4) by (cases D rule: par.cases) auto
  ultimately show ?thesis using D(1) B by (auto simp: lib_rbInsert_def rb_nodes_def)
qed

lemma insert_existing:
  assumes T: "rb_nodes h xs" and c: "search_cut c z xs" and a: "a \<in> set xs" "c a z = 0"
  shows "lib_rbInsert aug c z h = Some (h, - EEXIST)"
proof -
  obtain t where R: "rep h [] (rb_root h) t" and xs: "inorder t = xs"
    using T by (auto simp: rb_nodes_def)
  then have t: "tree_at h NULL (rb_root h) t" by (simp add: rep_def)
  have "a \<noteq> NULL" using rb_nodes_distinct [OF T] a by metis
  then show ?thesis using descend_found [OF t, of c z a NULL 0] c a xs by (simp add: lib_rbInsert_def)
qed

end

section \<open>The interface of an ordered tree\<close>

lemma rb_nodes_find:
  "rb_nodes h xs \<Longrightarrow> search_cut c n xs \<Longrightarrow>
   lib_rbFind h c n = Some (case find (\<lambda>a. c a n = 0) xs of None \<Rightarrow> NULL | Some a \<Rightarrow> a)"
  using findEx_tree [of h NULL "rb_root h" _ c n] by (auto simp: rb_nodes_def lib_rbFind_def rep_def)

lemma rb_nodes_minimum: "rb_nodes h xs \<Longrightarrow> lib_rbMinimum h (rb_root h) = Some (first_or_null xs)"
  using minimum_tree [of h NULL "rb_root h"] by (fastforce simp: rb_nodes_def rep_def first_or_null_def)

lemma rb_nodes_walk:
  assumes "rb_nodes h (as @ x # bs)"
  shows "lib_rbNext h x = Some (first_or_null bs)" and "lib_rbPrev h x = Some (first_or_null (rev as))"
  using assms walk_whole by (auto simp: rb_nodes_def)

end
