(* ===== verification/Lib_RB_Remove.thy ===== *)
theory Lib_RB_Remove
  imports Lib_RB_Ops
begin

text \<open>
  Removal from the red-black tree of \<^verbatim>\<open>lib/rb.c\<close>: the transplants of
  \<open>lib_rbRemove\<close> and the loop of \<open>lib_rbRemoveBalance\<close> with its local sentinel.
\<close>

section \<open>The state of the loop\<close>

fun blacken :: "rbt \<Rightarrow> rbt" where
  "blacken Leaf = Leaf"
| "blacken (Node l a c r) = Node l a RB_BLACK r"

lemma inorder_blacken [simp]: "inorder (blacken t) = inorder t"
  by (cases t) auto

lemma hole_c_black: "hole_c C k \<Longrightarrow> hole_c C RB_BLACK"
  by (induction C k rule: hole_c.induct) auto

text \<open>
  The loop stands at the tree \<open>t\<close> in the context \<open>C\<close>: its pointer \<open>x\<close> is the root of \<open>t\<close>, or the
  sentinel when \<open>t\<close> is empty.
\<close>

definition at_hole :: "addr \<Rightarrow> 'a rbheap_scheme \<Rightarrow> step list \<Rightarrow> rbt \<Rightarrow> addr \<Rightarrow> bool" where
  "at_hole nil h C t x \<longleftrightarrow> nil \<noteq> NULL \<and> nil \<notin> set (inorder t) \<union> set (ctx_nodes C)
     \<and> (if t = Leaf then rep h C NULL t \<and> x = nil \<and> rb_parent h nil = par C \<and> rb_color h nil = RB_BLACK
        else rep h C x t)"

text \<open>The loop returns, with a red-black tree of the same nodes in the same order.\<close>

definition restored :: "'a rbheap_scheme option \<Rightarrow> addr list \<Rightarrow> bool" where
  "restored res xs \<longleftrightarrow> (\<exists>h. res = Some h \<and> rb_nodes h xs)"

lemma at_hole_rep: "at_hole nil h C t x \<Longrightarrow> \<exists>x0. rep h C x0 t"
  by (auto simp: at_hole_def split: if_splits)

lemma at_hole_parent: "at_hole nil h C t x \<Longrightarrow> rb_parent h x = par C"
  using rep_parent by (fastforce simp: at_hole_def split: if_splits)

lemma at_hole_root:
  assumes "at_hole nil h C t x" and "t \<noteq> Leaf \<or> C \<noteq> []"
  shows "x = rb_root h \<longleftrightarrow> C = []"
proof (cases "C = []")
  case True
  then show ?thesis using assms by (auto simp: at_hole_def rep_def)
next
  case False
  have "set (ctx_nodes C) \<subseteq> set (inorder (plug C t))" by (simp add: plug_nodes)
  obtain x0 where R: "rep h C x0 t" using at_hole_rep [OF assms(1)] by blast
  then have R': "rep h [] (rb_root h) (plug C t)" by (rule rep_plug)
  have "rb_root h \<in> set (ctx_nodes C)"
    using R False
  proof (induction C arbitrary: x0 t)
    case (Cons s C)
    show ?case
    proof (cases s)
      case (LeftOf a c r)
      then have "rep h C a (Node t a c r)" using Cons.prems(1) by (auto simp: rep_def)
      then show ?thesis using Cons.IH [of a "Node t a c r"] LeftOf by (cases C) (auto simp: rep_def)
    next
      case (RightOf l a c)
      then have "rep h C a (Node l a c t)" using Cons.prems(1) by (auto simp: rep_def)
      then show ?thesis using Cons.IH [of a "Node l a c t"] RightOf by (cases C) (auto simp: rep_def)
    qed
  qed simp
  moreover have "x \<notin> set (ctx_nodes C)"
    using assms(1) rep_parent [of h C x t] by (auto simp: at_hole_def split: if_splits)
  ultimately show ?thesis using False by metis
qed

lemma at_hole_color: "at_hole nil h C t x \<Longrightarrow> rb_color h x = rootc t"
  by (cases t) (auto simp: at_hole_def rep_def)

lemma at_hole_move:
  assumes A: "at_hole nil h C t x" and R: "rep h' C' y t" and n: "set (ctx_nodes C') = set (ctx_nodes C)"
    and p: "par C' = par C" and nil: "rb_parent h' nil = rb_parent h nil" "rb_color h' nil = rb_color h nil"
  shows "at_hole nil h' C' t x"
proof (cases t)
  case Leaf
  then show ?thesis using assms by (auto simp: at_hole_def rep_def)
next
  case (Node l a c r)
  then have "x = y" using A R by (simp add: at_hole_def rep_def)
  then show ?thesis using assms Node by (simp add: at_hole_def)
qed

section \<open>Frames of the rotations\<close>

context rb_augmented
begin

lemma rotate_color [simp]:
  "rb_color (rb_rotateLeft aug x h) = rb_color h" "rb_color (rb_rotateRight aug x h) = rb_color h"
  by (simp_all add: rb_rotateLeft_def rb_rotateRight_def Let_def)

lemma rotate_parent:
  "n \<notin> {x, rb_right h x, rb_left h (rb_right h x)} \<Longrightarrow> rb_parent (rb_rotateLeft aug x h) n = rb_parent h n"
  "n \<notin> {x, rb_left h x, rb_right h (rb_left h x)} \<Longrightarrow> rb_parent (rb_rotateRight aug x h) n = rb_parent h n"
  by (simp_all add: rb_rotateLeft_def rb_rotateRight_def Let_def)

text \<open>The loop ends at the root and at a red node, which it paints black.\<close>

lemma remove_stop:
  assumes A: "at_hole nil h C t x" and t: "t \<noteq> Leaf" and e: "C = [] \<or> rootc t = RB_RED"
    and inv: "invc (blacken t)" "invh t" "hole_c C RB_BLACK" "hole_h C (Suc (bh t))"
  shows "restored (rb_remove_loop aug nil x h) (inorder (plug C t))"
proof -
  obtain l c r where n: "t = Node l x c r" and R: "rep h C x (Node l x c r)"
    using A t by (cases t) (auto simp: at_hole_def rep_def)
  let ?h = "set_color x RB_BLACK h"
  have "rb_remove_loop aug nil x h = Some ?h"
    using e at_hole_root [OF A] at_hole_color [OF A] t by (subst rb_remove_loop.simps) auto
  moreover have "rep ?h [] (rb_root ?h) (plug C (blacken t))"
    using rep_plug [OF rep_paint [OF R, of RB_BLACK]] n by simp
  moreover have "rb_tree (plug C (blacken t))"
    unfolding rb_tree_plug using e inv n by auto
  moreover have "inorder (plug C (blacken t)) = inorder (plug C t)" by (rule inorder_plug_cong) simp
  ultimately show ?thesis by (auto simp: restored_def rb_nodes_def)
qed

end

section \<open>One turn of the loop\<close>

text \<open>The part of a turn after the sibling \<open>w\<close> has been made black.\<close>

definition rest_L :: "'a augment \<Rightarrow> addr \<Rightarrow> addr \<Rightarrow> addr \<Rightarrow> 'a rbheap_scheme \<Rightarrow> 'a rbheap_scheme option" where
  "rest_L aug nil x w h =
     (if rb_black h (rb_left h w) \<and> rb_black h (rb_right h w) then
        rb_remove_loop aug nil (rb_parent h x) (set_color w RB_RED h)
      else if rb_black h (rb_right h w) then
        rb_remove_loop aug nil x
          (rb_rotateRight aug w (set_color w RB_RED (set_color (rb_left h w) RB_BLACK h)))
      else
        (let h = set_color w (rb_color h (rb_parent h x)) h;
             h = set_color (rb_parent h x) RB_BLACK h;
             h = set_color (rb_right h w) RB_BLACK h;
             h = rb_rotateLeft aug (rb_parent h x) h
         in rb_remove_loop aug nil (rb_root h) h))"

definition rest_R :: "'a augment \<Rightarrow> addr \<Rightarrow> addr \<Rightarrow> addr \<Rightarrow> 'a rbheap_scheme \<Rightarrow> 'a rbheap_scheme option" where
  "rest_R aug nil x w h =
     (if rb_black h (rb_right h w) \<and> rb_black h (rb_left h w) then
        rb_remove_loop aug nil (rb_parent h x) (set_color w RB_RED h)
      else if rb_black h (rb_left h w) then
        rb_remove_loop aug nil x
          (rb_rotateLeft aug w (set_color w RB_RED (set_color (rb_right h w) RB_BLACK h)))
      else
        (let h = set_color w (rb_color h (rb_parent h x)) h;
             h = set_color (rb_parent h x) RB_BLACK h;
             h = set_color (rb_left h w) RB_BLACK h;
             h = rb_rotateRight aug (rb_parent h x) h
         in rb_remove_loop aug nil (rb_root h) h))"

lemma black_child: "tree_at h p x t \<Longrightarrow> rb_black h x \<longleftrightarrow> rootc t = RB_BLACK"
  by (cases t) (auto simp: rb_black_def)

context rb_augmented
begin

lemma remove_turn_L:
  assumes A: "at_hole nil h (LeftOf p cp (Node wl w cw wr) # C) t x" and t: "rootc t = RB_BLACK"
  shows "rb_remove_loop aug nil x h =
    (if cw = RB_RED then
       (let h' = rb_rotateLeft aug p (set_color p RB_RED (set_color w RB_BLACK h))
        in rest_L aug nil x (rb_right h' (rb_parent h' x)) h')
     else rest_L aug nil x w h)"
proof -
  let ?C = "LeftOf p cp (Node wl w cw wr) # C"
  have r: "x \<noteq> rb_root h" using at_hole_root [OF A] by simp
  have c: "rb_color h x = RB_BLACK" using at_hole_color [OF A] t by simp
  have pa: "rb_parent h x = p" using at_hole_parent [OF A] by simp
  obtain x0 where R: "rep h ?C x0 t" using at_hole_rep [OF A] by blast
  have w: "rb_right h p = w" "rb_color h w = cw" "rb_left h p = x0" using R by (auto simp: rep_def)
  have l: "x = rb_left h p \<or> x = nil \<and> rb_left h p = NULL"
    using A R w by (auto simp: at_hole_def rep_def split: if_splits)
  show ?thesis
  proof (cases cw)
    case RB_RED
    then show ?thesis
      using r c pa w l by (subst rb_remove_loop.simps) (simp add: Let_def rest_L_def)
  next
    case RB_BLACK
    then show ?thesis
      using r c pa w l by (subst rb_remove_loop.simps) (simp add: Let_def rest_L_def)
  qed
qed

lemma rest_L_far:
  assumes A: "at_hole nil h (LeftOf p cp (Node wl w RB_BLACK (Node a r RB_RED b)) # C) t x"
    and inv: "invc t" "invh t" "hole_c (LeftOf p cp (Node wl w RB_BLACK (Node a r RB_RED b)) # C) RB_BLACK"
      "hole_h (LeftOf p cp (Node wl w RB_BLACK (Node a r RB_RED b)) # C) (Suc (bh t))"
  shows "restored (rest_L aug nil x w h)
    (inorder (plug (LeftOf p cp (Node wl w RB_BLACK (Node a r RB_RED b)) # C) t))"
proof -
  let ?C = "LeftOf p cp (Node wl w RB_BLACK (Node a r RB_RED b)) # C"
  obtain x0 where R: "rep h ?C x0 t" using at_hole_rep [OF A] by blast
  have pa: "rb_parent h x = p" using at_hole_parent [OF A] by simp
  define h1 where "h1 = set_color r RB_BLACK (set_color p RB_BLACK (set_color w cp h))"
  let ?h = "rb_rotateLeft aug p h1"
  let ?T = "Node (Node t p RB_BLACK wl) w cp (Node a r RB_BLACK b)"
  have F: "rb_color h p = cp" "rb_right h w = r" "rb_color h r = RB_RED" "r \<noteq> NULL" "w \<noteq> r" "w \<noteq> p"
    using R by (auto simp: rep_def)
  then have e: "rest_L aug nil x w h = rb_remove_loop aug nil (rb_root ?h) ?h"
    using pa by (simp add: rest_L_def rb_black_def Let_def h1_def)
  have "rep h1 C p (Node t p RB_BLACK (Node wl w cp (Node a r RB_BLACK b)))"
    using R by (auto simp: rep_def h1_def)
  from rotateLeft_rep [OF this] have R': "rep ?h C w ?T" .
  have rb: "rb_tree (plug C ?T)" using inv by (auto simp: rb_tree_plug)
  have W: "rep ?h [] (rb_root ?h) (plug C ?T)" by (rule rep_plug [OF R'])
  have ne: "plug C ?T \<noteq> Leaf" by (simp add: plug_Leaf)
  have "at_hole nil ?h [] (plug C ?T) (rb_root ?h)"
    using W ne A by (simp add: at_hole_def plug_nodes)
  then have "restored (rb_remove_loop aug nil (rb_root ?h) ?h) (inorder (plug [] (plug C ?T)))"
    by (rule remove_stop [OF _ ne]) (use rb ne in \<open>cases "plug C ?T"; auto simp: rb_tree_def\<close>)+
  moreover have "inorder (plug C ?T) = inorder (plug ?C t)" by (auto intro: inorder_plug_cong)
  ultimately show ?thesis unfolding e by simp
qed

lemma rest_L_near:
  assumes A: "at_hole nil h (LeftOf p cp (Node (Node a l RB_RED b) w RB_BLACK wr) # C) t x"
    and k: "rootc wr = RB_BLACK" "rootc t = RB_BLACK"
    and inv: "invc t" "invh t" "hole_c (LeftOf p cp (Node (Node a l RB_RED b) w RB_BLACK wr) # C) RB_BLACK"
      "hole_h (LeftOf p cp (Node (Node a l RB_RED b) w RB_BLACK wr) # C) (Suc (bh t))"
  shows "restored (rest_L aug nil x w h)
    (inorder (plug (LeftOf p cp (Node (Node a l RB_RED b) w RB_BLACK wr) # C) t))"
proof -
  let ?C = "LeftOf p cp (Node (Node a l RB_RED b) w RB_BLACK wr) # C"
  obtain x0 where R: "rep h ?C x0 t" using at_hole_rep [OF A] by blast
  define h1 where "h1 = set_color w RB_RED (set_color l RB_BLACK h)"
  let ?h = "rb_rotateRight aug w h1" and ?D = "LeftOf p cp (Node a l RB_BLACK (Node b w RB_RED wr)) # C"
  have F: "rb_left h w = l" "l \<noteq> NULL" "rb_color h l = RB_RED" "tree_at h w (rb_right h w) wr"
    using R by (auto simp: rep_def)
  then have e: "rest_L aug nil x w h = rb_remove_loop aug nil x ?h"
    using k(1) black_child [OF F(4)] by (simp add: rest_L_def h1_def) (simp add: rb_black_def)
  have "rep h1 (RightOf t p cp # C) w (Node (Node a l RB_BLACK b) w RB_RED wr)"
    using R by (auto simp: rep_def h1_def)
  from rotateRight_rep [OF this] have R': "rep ?h (RightOf t p cp # C) l (Node a l RB_BLACK (Node b w RB_RED wr))" .
  have nil: "nil \<notin> {w, l, rb_right h l}"
    using A R by (cases b) (auto simp: at_hole_def rep_def split: if_splits)
  have "rep ?h ?D (rb_left ?h p) t" using R' by (auto simp: rep_def)
  then have A': "at_hole nil ?h ?D t x"
    by (rule at_hole_move [OF A]) (use nil F in \<open>auto simp: rotate_parent h1_def\<close>)
  have "rb_remove_loop aug nil x ?h = rest_L aug nil x l ?h"
    using remove_turn_L [OF A' k(2)] by simp
  moreover have "restored (rest_L aug nil x l ?h) (inorder (plug ?D t))"
    by (rule rest_L_far [OF A']) (use inv k in auto)
  moreover have "inorder (plug ?D t) = inorder (plug ?C t)" by (auto intro: inorder_plug_cong)
  ultimately show ?thesis unfolding e by simp
qed

lemma rest_L_up:
  assumes A: "at_hole nil h (LeftOf p cp (Node wl w RB_BLACK wr) # C) t x"
    and k: "rootc wl = RB_BLACK" "rootc wr = RB_BLACK" and h': "h' = set_color w RB_RED h"
  shows "rest_L aug nil x w h = rb_remove_loop aug nil p h'"
    and "at_hole nil h' C (Node t p cp (Node wl w RB_RED wr)) p"
proof -
  obtain x0 where R: "rep h (LeftOf p cp (Node wl w RB_BLACK wr) # C) x0 t" using at_hole_rep [OF A] by blast
  have F: "tree_at h w (rb_left h w) wl" "tree_at h w (rb_right h w) wr" using R by (auto simp: rep_def)
  show "rest_L aug nil x w h = rb_remove_loop aug nil p h'"
    using k black_child [OF F(1)] black_child [OF F(2)] at_hole_parent [OF A] h' by (simp add: rest_L_def)
  have "rep h' C p (Node t p cp (Node wl w RB_RED wr))" using R by (auto simp: rep_def h')
  then show "at_hole nil h' C (Node t p cp (Node wl w RB_RED wr)) p"
    using A by (auto simp: at_hole_def split: if_splits)
qed

text \<open>A turn with a black sibling, given what the loop does one level up.\<close>

lemma rest_L_ok:
  assumes A: "at_hole nil h (LeftOf p cp W # C) t x" and W: "W = Node wl w RB_BLACK wr" and k: "rootc t = RB_BLACK"
    and inv: "invc t" "invh t" "hole_c (LeftOf p cp W # C) RB_BLACK" "hole_h (LeftOf p cp W # C) (Suc (bh t))"
    and up: "\<And>h' t'. t' = Node t p cp (Node wl w RB_RED wr) \<Longrightarrow> at_hole nil h' C t' p \<Longrightarrow> invc (blacken t') \<Longrightarrow>
      invh t' \<Longrightarrow> hole_c C RB_BLACK \<Longrightarrow> hole_h C (Suc (bh t')) \<Longrightarrow>
      restored (rb_remove_loop aug nil p h') (inorder (plug C t'))"
  shows "restored (rest_L aug nil x w h) (inorder (plug (LeftOf p cp W # C) t))"
proof (cases "rootc wr")
  case RB_RED
  then obtain a r b where "wr = Node a r RB_RED b" by (cases wr) auto
  then show ?thesis using rest_L_far [of nil h p cp wl w a r b C t x] A W inv by simp
next
  case RB_BLACK
  note far = this
  show ?thesis
  proof (cases "rootc wl")
    case RB_RED
    then obtain a l b where "wl = Node a l RB_RED b" by (cases wl) auto
    then show ?thesis using rest_L_near [of nil h p cp a l b w wr C t x] A W k inv far by simp
  next
    case RB_BLACK
    note U = rest_L_up [OF A [unfolded W] RB_BLACK far refl]
    let ?t = "Node t p cp (Node wl w RB_RED wr)"
    have "hole_c C RB_BLACK" using inv(3) hole_c_black [of C cp] by (simp add: W)
    then have "restored (rb_remove_loop aug nil p (set_color w RB_RED h)) (inorder (plug C ?t))"
      by (intro up [OF refl U(2)]) (use inv W RB_BLACK far in \<open>auto simp: ac_simps\<close>)
    moreover have "inorder (plug C ?t) = inorder (plug (LeftOf p cp W # C) t)"
      by (auto simp: W intro: inorder_plug_cong)
    ultimately show ?thesis unfolding U(1) by simp
  qed
qed

lemma turn_L_ok:
  assumes A: "at_hole nil h (LeftOf p cp W # C) t x" and k: "rootc t = RB_BLACK"
    and inv: "invc t" "invh t" "hole_c (LeftOf p cp W # C) RB_BLACK" "hole_h (LeftOf p cp W # C) (Suc (bh t))"
    and up: "\<And>h' t'. t' \<noteq> Leaf \<Longrightarrow> at_hole nil h' C t' p \<Longrightarrow> invc (blacken t') \<Longrightarrow>
      invh t' \<Longrightarrow> hole_c C RB_BLACK \<Longrightarrow> hole_h C (Suc (bh t')) \<Longrightarrow>
      restored (rb_remove_loop aug nil p h') (inorder (plug C t'))"
  shows "restored (rb_remove_loop aug nil x h) (inorder (plug (LeftOf p cp W # C) t))"
proof -
  obtain wl w cw wr where W: "W = Node wl w cw wr" using inv(4) by (cases W) auto
  show ?thesis
  proof (cases cw)
    case RB_BLACK
    have "rb_remove_loop aug nil x h = rest_L aug nil x w h"
      using remove_turn_L [OF A [unfolded W] k] RB_BLACK by simp
    moreover have "restored (rest_L aug nil x w h) (inorder (plug (LeftOf p cp W # C) t))"
      by (rule rest_L_ok [OF A W [unfolded RB_BLACK] k inv]) (use up in simp)
    ultimately show ?thesis by simp
  next
    case RB_RED
    then have cp: "cp = RB_BLACK" and wk: "rootc wl = RB_BLACK" "rootc wr = RB_BLACK"
      using inv(3) W by auto
    define h1 where "h1 = set_color p RB_RED (set_color w RB_BLACK h)"
    let ?h = "rb_rotateLeft aug p h1" and ?D = "LeftOf p RB_RED wl # LeftOf w RB_BLACK wr # C"
    obtain x0 where R: "rep h (LeftOf p cp W # C) x0 t" using at_hole_rep [OF A] by blast
    then have "rep h1 C p (Node t p RB_RED (Node wl w RB_BLACK wr))" by (auto simp: rep_def h1_def W)
    from rotateLeft_rep [OF this] have R': "rep ?h ?D (rb_left ?h p) t" by (auto simp: rep_def)
    have F: "rb_right h p = w" "tree_at h w (rb_left h w) wl" using R by (auto simp: rep_def W)
    have "nil \<notin> {p, w, rb_left h w}"
      using A W F(2) by (cases wl) (auto simp: at_hole_def split: if_splits)
    then have A': "at_hole nil ?h ?D t x"
      by (intro at_hole_move [OF A R']) (use F W in \<open>auto simp: rotate_parent h1_def\<close>)
    obtain wll w' wlr where wl: "wl = Node wll w' RB_BLACK wlr" using inv(4) RB_RED wk W by (cases wl) auto
    have "rb_right ?h (rb_parent ?h x) = w'" using R' at_hole_parent [OF A'] wl by (simp add: rep_def)
    then have "rb_remove_loop aug nil x h = rest_L aug nil x w' ?h"
      using remove_turn_L [OF A [unfolded W] k] RB_RED by (simp add: Let_def h1_def)
    moreover have "restored (rest_L aug nil x w' ?h) (inorder (plug ?D t))"
    proof (rule rest_L_ok [OF A' wl k inv(1,2)])
      show "hole_c ?D RB_BLACK" "hole_h ?D (Suc (bh t))" using inv W RB_RED cp wk by auto
      show "restored (rb_remove_loop aug nil p h') (inorder (plug (LeftOf w RB_BLACK wr # C) t'))"
        if "t' = Node t p RB_RED (Node wll w' RB_RED wlr)" "at_hole nil h' (LeftOf w RB_BLACK wr # C) t' p"
          "invc (blacken t')" "invh t'" "hole_c (LeftOf w RB_BLACK wr # C) RB_BLACK"
          "hole_h (LeftOf w RB_BLACK wr # C) (Suc (bh t'))" for h' t'
        by (rule remove_stop [OF that(2) _ _ that(3-6)]) (use that(1) in simp_all)
    qed
    moreover have "inorder (plug ?D t) = inorder (plug (LeftOf p cp W # C) t)"
      by (auto simp: W intro: inorder_plug_cong)
    ultimately show ?thesis by simp
  qed
qed

lemma remove_turn_R:
  assumes A: "at_hole nil h (RightOf (Node wr w cw wl) p cp # C) t x" and t: "rootc t = RB_BLACK"
  shows "rb_remove_loop aug nil x h =
    (if cw = RB_RED then
       (let h' = rb_rotateRight aug p (set_color p RB_RED (set_color w RB_BLACK h))
        in rest_R aug nil x (rb_left h' (rb_parent h' x)) h')
     else rest_R aug nil x w h)"
proof -
  let ?C = "RightOf (Node wr w cw wl) p cp # C"
  have r: "x \<noteq> rb_root h" using at_hole_root [OF A] by simp
  have c: "rb_color h x = RB_BLACK" using at_hole_color [OF A] t by simp
  have pa: "rb_parent h x = p" using at_hole_parent [OF A] by simp
  obtain x0 where R: "rep h ?C x0 t" using at_hole_rep [OF A] by blast
  have w: "rb_left h p = w" "rb_color h w = cw" "rb_right h p = x0" using R by (auto simp: rep_def)
  have l: "w \<noteq> NULL" using R by (simp add: rep_def)
  moreover have "x \<noteq> w" using A R w by (cases t) (auto simp: at_hole_def rep_def split: if_splits)
  note l = l this
  show ?thesis
  proof (cases cw)
    case RB_RED
    then show ?thesis
      using r c pa w l by (subst rb_remove_loop.simps) (simp add: Let_def rest_R_def)
  next
    case RB_BLACK
    then show ?thesis
      using r c pa w l by (subst rb_remove_loop.simps) (simp add: Let_def rest_R_def)
  qed
qed

lemma rest_R_far:
  assumes A: "at_hole nil h (RightOf (Node (Node b r RB_RED a) w RB_BLACK wl) p cp # C) t x"
    and inv: "invc t" "invh t" "hole_c (RightOf (Node (Node b r RB_RED a) w RB_BLACK wl) p cp # C) RB_BLACK"
      "hole_h (RightOf (Node (Node b r RB_RED a) w RB_BLACK wl) p cp # C) (Suc (bh t))"
  shows "restored (rest_R aug nil x w h)
    (inorder (plug (RightOf (Node (Node b r RB_RED a) w RB_BLACK wl) p cp # C) t))"
proof -
  let ?C = "RightOf (Node (Node b r RB_RED a) w RB_BLACK wl) p cp # C"
  obtain x0 where R: "rep h ?C x0 t" using at_hole_rep [OF A] by blast
  have pa: "rb_parent h x = p" using at_hole_parent [OF A] by simp
  define h1 where "h1 = set_color r RB_BLACK (set_color p RB_BLACK (set_color w cp h))"
  let ?h = "rb_rotateRight aug p h1"
  let ?T = "Node (Node b r RB_BLACK a) w cp (Node wl p RB_BLACK t)"
  have F: "rb_color h p = cp" "rb_left h w = r" "rb_color h r = RB_RED" "r \<noteq> NULL" "w \<noteq> r" "w \<noteq> p"
    using R by (auto simp: rep_def)
  then have e: "rest_R aug nil x w h = rb_remove_loop aug nil (rb_root ?h) ?h"
    using pa by (simp add: rest_R_def rb_black_def Let_def h1_def)
  have "rep h1 C p (Node (Node (Node b r RB_BLACK a) w cp wl) p RB_BLACK t)"
    using R by (auto simp: rep_def h1_def)
  from rotateRight_rep [OF this] have R': "rep ?h C w ?T" .
  have rb: "rb_tree (plug C ?T)" using inv by (auto simp: rb_tree_plug)
  have W: "rep ?h [] (rb_root ?h) (plug C ?T)" by (rule rep_plug [OF R'])
  have ne: "plug C ?T \<noteq> Leaf" by (simp add: plug_Leaf)
  have "at_hole nil ?h [] (plug C ?T) (rb_root ?h)"
    using W ne A by (simp add: at_hole_def plug_nodes)
  then have "restored (rb_remove_loop aug nil (rb_root ?h) ?h) (inorder (plug [] (plug C ?T)))"
    by (rule remove_stop [OF _ ne]) (use rb ne in \<open>cases "plug C ?T"; auto simp: rb_tree_def\<close>)+
  moreover have "inorder (plug C ?T) = inorder (plug ?C t)" by (auto intro: inorder_plug_cong)
  ultimately show ?thesis unfolding e by simp
qed

lemma rest_R_near:
  assumes A: "at_hole nil h (RightOf (Node wr w RB_BLACK (Node b l RB_RED a)) p cp # C) t x"
    and k: "rootc wr = RB_BLACK" "rootc t = RB_BLACK"
    and inv: "invc t" "invh t" "hole_c (RightOf (Node wr w RB_BLACK (Node b l RB_RED a)) p cp # C) RB_BLACK"
      "hole_h (RightOf (Node wr w RB_BLACK (Node b l RB_RED a)) p cp # C) (Suc (bh t))"
  shows "restored (rest_R aug nil x w h)
    (inorder (plug (RightOf (Node wr w RB_BLACK (Node b l RB_RED a)) p cp # C) t))"
proof -
  let ?C = "RightOf (Node wr w RB_BLACK (Node b l RB_RED a)) p cp # C"
  obtain x0 where R: "rep h ?C x0 t" using at_hole_rep [OF A] by blast
  define h1 where "h1 = set_color w RB_RED (set_color l RB_BLACK h)"
  let ?h = "rb_rotateLeft aug w h1" and ?D = "RightOf (Node (Node wr w RB_RED b) l RB_BLACK a) p cp # C"
  have F: "rb_right h w = l" "l \<noteq> NULL" "rb_color h l = RB_RED" "tree_at h w (rb_left h w) wr"
    using R by (auto simp: rep_def)
  then have e: "rest_R aug nil x w h = rb_remove_loop aug nil x ?h"
    using k(1) black_child [OF F(4)] by (simp add: rest_R_def h1_def) (simp add: rb_black_def)
  have "rep h1 (LeftOf p cp t # C) w (Node wr w RB_RED (Node b l RB_BLACK a))"
    using R by (auto simp: rep_def h1_def)
  from rotateLeft_rep [OF this] have R': "rep ?h (LeftOf p cp t # C) l (Node (Node wr w RB_RED b) l RB_BLACK a)" .
  have nil: "nil \<notin> {w, l, rb_left h l}"
    using A R by (cases b) (auto simp: at_hole_def rep_def split: if_splits)
  have "rep ?h ?D (rb_right ?h p) t" using R' by (auto simp: rep_def)
  then have A': "at_hole nil ?h ?D t x"
    by (rule at_hole_move [OF A]) (use nil F in \<open>auto simp: rotate_parent h1_def\<close>)
  have "rb_remove_loop aug nil x ?h = rest_R aug nil x l ?h"
    using remove_turn_R [OF A' k(2)] by simp
  moreover have "restored (rest_R aug nil x l ?h) (inorder (plug ?D t))"
    by (rule rest_R_far [OF A']) (use inv k in auto)
  moreover have "inorder (plug ?D t) = inorder (plug ?C t)" by (auto intro: inorder_plug_cong)
  ultimately show ?thesis unfolding e by simp
qed

lemma rest_R_up:
  assumes A: "at_hole nil h (RightOf (Node wr w RB_BLACK wl) p cp # C) t x"
    and k: "rootc wl = RB_BLACK" "rootc wr = RB_BLACK" and h': "h' = set_color w RB_RED h"
  shows "rest_R aug nil x w h = rb_remove_loop aug nil p h'"
    and "at_hole nil h' C (Node (Node wr w RB_RED wl) p cp t) p"
proof -
  obtain x0 where R: "rep h (RightOf (Node wr w RB_BLACK wl) p cp # C) x0 t" using at_hole_rep [OF A] by blast
  have F: "tree_at h w (rb_right h w) wl" "tree_at h w (rb_left h w) wr" using R by (auto simp: rep_def)
  show "rest_R aug nil x w h = rb_remove_loop aug nil p h'"
    using k black_child [OF F(1)] black_child [OF F(2)] at_hole_parent [OF A] h' by (simp add: rest_R_def)
  have "rep h' C p (Node (Node wr w RB_RED wl) p cp t)" using R by (auto simp: rep_def h')
  then show "at_hole nil h' C (Node (Node wr w RB_RED wl) p cp t) p"
    using A by (auto simp: at_hole_def split: if_splits)
qed

text \<open>A turn with a black sibling, given what the loop does one level up.\<close>

lemma rest_R_ok:
  assumes A: "at_hole nil h (RightOf W p cp # C) t x" and W: "W = Node wr w RB_BLACK wl" and k: "rootc t = RB_BLACK"
    and inv: "invc t" "invh t" "hole_c (RightOf W p cp # C) RB_BLACK" "hole_h (RightOf W p cp # C) (Suc (bh t))"
    and up: "\<And>h' t'. t' = Node (Node wr w RB_RED wl) p cp t \<Longrightarrow> at_hole nil h' C t' p \<Longrightarrow> invc (blacken t') \<Longrightarrow>
      invh t' \<Longrightarrow> hole_c C RB_BLACK \<Longrightarrow> hole_h C (Suc (bh t')) \<Longrightarrow>
      restored (rb_remove_loop aug nil p h') (inorder (plug C t'))"
  shows "restored (rest_R aug nil x w h) (inorder (plug (RightOf W p cp # C) t))"
proof (cases "rootc wr")
  case RB_RED
  then obtain a r b where "wr = Node b r RB_RED a" by (cases wr) auto
  then show ?thesis using rest_R_far [of nil h b r a w wl p cp C t x] A W inv by simp
next
  case RB_BLACK
  note far = this
  show ?thesis
  proof (cases "rootc wl")
    case RB_RED
    then obtain a l b where "wl = Node b l RB_RED a" by (cases wl) auto
    then show ?thesis using rest_R_near [of nil h wr w b l a p cp C t x] A W k inv far by simp
  next
    case RB_BLACK
    note U = rest_R_up [OF A [unfolded W] RB_BLACK far refl]
    let ?t = "Node (Node wr w RB_RED wl) p cp t"
    have "hole_c C RB_BLACK" using inv(3) hole_c_black [of C cp] by (simp add: W)
    then have "restored (rb_remove_loop aug nil p (set_color w RB_RED h)) (inorder (plug C ?t))"
      by (intro up [OF refl U(2)]) (use inv W RB_BLACK far in \<open>auto simp: ac_simps\<close>)
    moreover have "inorder (plug C ?t) = inorder (plug (RightOf W p cp # C) t)"
      by (auto simp: W intro: inorder_plug_cong)
    ultimately show ?thesis unfolding U(1) by simp
  qed
qed

lemma turn_R_ok:
  assumes A: "at_hole nil h (RightOf W p cp # C) t x" and k: "rootc t = RB_BLACK"
    and inv: "invc t" "invh t" "hole_c (RightOf W p cp # C) RB_BLACK" "hole_h (RightOf W p cp # C) (Suc (bh t))"
    and up: "\<And>h' t'. t' \<noteq> Leaf \<Longrightarrow> at_hole nil h' C t' p \<Longrightarrow> invc (blacken t') \<Longrightarrow>
      invh t' \<Longrightarrow> hole_c C RB_BLACK \<Longrightarrow> hole_h C (Suc (bh t')) \<Longrightarrow>
      restored (rb_remove_loop aug nil p h') (inorder (plug C t'))"
  shows "restored (rb_remove_loop aug nil x h) (inorder (plug (RightOf W p cp # C) t))"
proof -
  obtain wl w cw wr where W: "W = Node wr w cw wl" using inv(4) by (cases W) auto
  show ?thesis
  proof (cases cw)
    case RB_BLACK
    have "rb_remove_loop aug nil x h = rest_R aug nil x w h"
      using remove_turn_R [OF A [unfolded W] k] RB_BLACK by simp
    moreover have "restored (rest_R aug nil x w h) (inorder (plug (RightOf W p cp # C) t))"
      by (rule rest_R_ok [OF A W [unfolded RB_BLACK] k inv]) (use up in simp)
    ultimately show ?thesis by simp
  next
    case RB_RED
    then have cp: "cp = RB_BLACK" and wk: "rootc wl = RB_BLACK" "rootc wr = RB_BLACK"
      using inv(3) W by auto
    define h1 where "h1 = set_color p RB_RED (set_color w RB_BLACK h)"
    let ?h = "rb_rotateRight aug p h1" and ?D = "RightOf wl p RB_RED # RightOf wr w RB_BLACK # C"
    obtain x0 where R: "rep h (RightOf W p cp # C) x0 t" using at_hole_rep [OF A] by blast
    then have "rep h1 C p (Node (Node wr w RB_BLACK wl) p RB_RED t)" by (auto simp: rep_def h1_def W)
    from rotateRight_rep [OF this] have R': "rep ?h ?D (rb_right ?h p) t" by (auto simp: rep_def)
    have F: "rb_left h p = w" "tree_at h w (rb_right h w) wl" using R by (auto simp: rep_def W)
    have "nil \<notin> {p, w, rb_right h w}"
      using A W F(2) by (cases wl) (auto simp: at_hole_def split: if_splits)
    then have A': "at_hole nil ?h ?D t x"
      by (intro at_hole_move [OF A R']) (use F W in \<open>auto simp: rotate_parent h1_def\<close>)
    obtain wll w' wlr where wl: "wl = Node wlr w' RB_BLACK wll" using inv(4) RB_RED wk W by (cases wl) auto
    have "rb_left ?h (rb_parent ?h x) = w'" using R' at_hole_parent [OF A'] wl by (simp add: rep_def)
    then have "rb_remove_loop aug nil x h = rest_R aug nil x w' ?h"
      using remove_turn_R [OF A [unfolded W] k] RB_RED by (simp add: Let_def h1_def)
    moreover have "restored (rest_R aug nil x w' ?h) (inorder (plug ?D t))"
    proof (rule rest_R_ok [OF A' wl k inv(1,2)])
      show "hole_c ?D RB_BLACK" "hole_h ?D (Suc (bh t))" using inv W RB_RED cp wk by auto
      show "restored (rb_remove_loop aug nil p h') (inorder (plug (RightOf wr w RB_BLACK # C) t'))"
        if "t' = Node (Node wlr w' RB_RED wll) p RB_RED t" "at_hole nil h' (RightOf wr w RB_BLACK # C) t' p"
          "invc (blacken t')" "invh t'" "hole_c (RightOf wr w RB_BLACK # C) RB_BLACK"
          "hole_h (RightOf wr w RB_BLACK # C) (Suc (bh t'))" for h' t'
        by (rule remove_stop [OF that(2) _ _ that(3-6)]) (use that(1) in simp_all)
    qed
    moreover have "inorder (plug ?D t) = inorder (plug (RightOf W p cp # C) t)"
      by (auto simp: W intro: inorder_plug_cong)
    ultimately show ?thesis by simp
  qed
qed

section \<open>The loop\<close>

lemma remove_loop_ok:
  assumes "at_hole nil h C t x" and "t \<noteq> Leaf \<or> C \<noteq> []" and "invc (blacken t)" and "invh t"
    and "hole_c C RB_BLACK" and "hole_h C (Suc (bh t))"
  shows "restored (rb_remove_loop aug nil x h) (inorder (plug C t))"
  using assms
proof (induction C arbitrary: h t x)
  case Nil
  then show ?case by (intro remove_stop) auto
next
  case (Cons s C)
  note A = Cons.prems(1) and inv = Cons.prems(3-6)
  show ?case
  proof (cases "rootc t")
    case RB_RED
    then have "t \<noteq> Leaf" by auto
    then show ?thesis using RB_RED inv by (intro remove_stop [OF A]) auto
  next
    case RB_BLACK
    then have t: "invc t" using inv(1) by (cases t) auto
    show ?thesis
    proof (cases s)
      case (LeftOf p cp W)
      show ?thesis unfolding LeftOf
        by (rule turn_L_ok [OF A [unfolded LeftOf] RB_BLACK t inv(2) inv(3,4) [unfolded LeftOf]])
          (rule Cons.IH; simp)
    next
      case (RightOf W p cp)
      show ?thesis unfolding RightOf
        by (rule turn_R_ok [OF A [unfolded RightOf] RB_BLACK t inv(2) inv(3,4) [unfolded RightOf]])
          (rule Cons.IH; simp)
    qed
  qed
qed

lemma removeBalance_ok:
  assumes R: "rep h C x t" and nil: "nil \<noteq> NULL" "nil \<notin> set (inorder t) \<union> set (ctx_nodes C)"
    and inv: "invc t" "invh t" "hole_c C RB_BLACK" "hole_h C (Suc (bh t))" and p: "p = par C"
  shows "restored (lib_rbRemoveBalance aug nil p x h) (inorder (plug C t))"
proof -
  define h1 where "h1 = set_right nil NULL (set_left nil NULL (set_parent nil p (set_color nil RB_BLACK h)))"
  have R1: "rep h1 C x t" using R nil(2) by (auto simp: rep_def h1_def)
  have nx: "x = NULL \<longleftrightarrow> t = Leaf" using R tree_at_null by (fastforce simp: rep_def)
  show ?thesis
  proof (cases "C = [] \<and> t = Leaf")
    case True
    then have "rb_root h = NULL" using R nx by (auto simp: rep_def)
    then have "lib_rbRemoveBalance aug nil p x h = Some h1"
      by (simp add: lib_rbRemoveBalance_def h1_def Let_def)
    then show ?thesis using R1 True by (auto simp: restored_def rb_nodes_def rb_tree_def rep_def intro!: exI [of _ Leaf])
  next
    case False
    have "rb_root h \<noteq> NULL"
      using rep_plug [OF R] False tree_at_null [of h NULL "rb_root h" "plug C t"] by (auto simp: rep_def plug_Leaf)
    then have "lib_rbRemoveBalance aug nil p x h = rb_remove_loop aug nil (if x = NULL then nil else x) h1"
      by (simp add: lib_rbRemoveBalance_def h1_def Let_def)
    moreover have "at_hole nil h1 C t (if x = NULL then nil else x)"
      using R1 nil nx p by (auto simp: at_hole_def h1_def)
    moreover have "invc (blacken t)" using inv(1) by (cases t) auto
    ultimately show ?thesis using remove_loop_ok False inv by auto
  qed
qed

end

end
