(* ===== verification/Lib_RB_Delete.thy ===== *)
theory Lib_RB_Delete
  imports Lib_RB_Remove
begin

text \<open>
  \<open>lib_rbRemove\<close> of \<^verbatim>\<open>lib/rb.c\<close>: taking a node out of the tree, and the properties
  of the tree as a whole.
\<close>

section \<open>Transplants\<close>

fun addr_of :: "rbt \<Rightarrow> addr" where
  "addr_of Leaf = NULL"
| "addr_of (Node l a c r) = a"

lemma tree_at_addr: "tree_at h p x t \<Longrightarrow> x = addr_of t"
  by (cases t) auto

lemma rep_fields:
  assumes "rb_root h' = rb_root h" and "\<And>n. rb_parent h' n = rb_parent h n" and "\<And>n. rb_left h' n = rb_left h n"
    and "\<And>n. rb_right h' n = rb_right h n" and "\<And>n. rb_color h' n = rb_color h n"
  shows "rep h' C x t = rep h C x t"
proof -
  have "agree h h' A" for A using assms by (simp add: agree_def)
  then show ?thesis using assms(1) by (simp add: rep_def tree_at_cong [of h h'] ctx_at_cong [of h h'])
qed

lemma rep_up: "rep h (D @ C) x t \<Longrightarrow> rep h C (addr_of (plug D t)) (plug D t)"
proof (induction D arbitrary: x t)
  case Nil
  then show ?case using tree_at_addr by (fastforce simp: rep_def)
next
  case (Cons s D)
  show ?case
  proof (cases s)
    case (LeftOf a c r)
    then have "rep h (D @ C) a (Node t a c r)" using Cons.prems by (auto simp: rep_def)
    then show ?thesis using Cons.IH LeftOf by simp
  next
    case (RightOf l a c)
    then have "rep h (D @ C) a (Node l a c t)" using Cons.prems by (auto simp: rep_def)
    then show ?thesis using Cons.IH RightOf by simp
  qed
qed

lemma rep_down: "rep h C x (plug D t) \<Longrightarrow> rep h (D @ C) (addr_of t) t"
proof (induction D arbitrary: t)
  case Nil
  then show ?case using tree_at_addr by (fastforce simp: rep_def)
next
  case (Cons s D)
  show ?case
  proof (cases s)
    case (LeftOf a c r)
    then have R: "rep h (D @ C) a (Node t a c r)" using Cons.IH [of "Node t a c r"] Cons.prems by simp
    then have "tree_at h a (rb_left h a) t" by (simp add: rep_def)
    then show ?thesis using R LeftOf tree_at_addr by (auto simp: rep_def)
  next
    case (RightOf l a c)
    then have R: "rep h (D @ C) a (Node l a c t)" using Cons.IH [of "Node l a c t"] Cons.prems by simp
    then have "tree_at h a (rb_right h a) t" by (simp add: rep_def)
    then show ?thesis using R RightOf tree_at_addr by (auto simp: rep_def)
  qed
qed

lemma leftmost:
  "t \<noteq> Leaf \<Longrightarrow> \<exists>D y c r. t = plug D (Node Leaf y c r) \<and> ctx_before D = [] \<and> y = hd (inorder t)"
proof (induction t)
  case (Node l a c r)
  show ?case
  proof (cases "l = Leaf")
    case True
    then show ?thesis by (intro exI [of _ "[]"]) auto
  next
    case False
    then obtain D y c' r' where D: "l = plug D (Node Leaf y c' r')" "ctx_before D = []" "y = hd (inorder l)"
      using Node.IH(1) by blast
    have "ctx_before (D @ [LeftOf a c r]) = []"
      using D(2) by (induction D rule: ctx_before.induct) auto
    then show ?thesis using D False
      by (intro exI [of _ "D @ [LeftOf a c r]"] exI [of _ y] exI [of _ c'] exI [of _ r']) (simp add: plug_append)
  qed
qed simp

text \<open>Putting \<open>y\<close>, which carries its right subtree already, in the place of \<open>z\<close>.\<close>

definition rb_splice :: "'a augment \<Rightarrow> addr \<Rightarrow> addr \<Rightarrow> 'a rbheap_scheme \<Rightarrow> 'a rbheap_scheme" where
  "rb_splice aug z y h =
     (let h = rb_transplant aug z y h;
          h = set_left y (rb_left h z) h;
          h = set_parent (rb_left h y) y h
      in set_color y (rb_color h z) h)"

context rb_augmented
begin

lemma transplant_color [simp]: "rb_color (rb_transplant aug u v h) = rb_color h"
  by (simp add: rb_transplant_def Let_def)

lemma transplant_child:
  "n \<noteq> rb_parent h u \<Longrightarrow> rb_left (rb_transplant aug u v h) n = rb_left h n"
  "n \<noteq> rb_parent h u \<Longrightarrow> rb_right (rb_transplant aug u v h) n = rb_right h n"
  by (auto simp: rb_transplant_def Let_def)

lemma transplant_parent:
  "n \<noteq> v \<Longrightarrow> rb_parent (rb_transplant aug u v h) n = rb_parent h n"
  by (auto simp: rb_transplant_def Let_def)

lemma transplant_rep:
  assumes C: "ctx_at h u C" "u \<noteq> NULL" "u \<notin> set (ctx_nodes C)" "rb_parent h u = par C"
    and t: "tree_at h q v t" "distinct (inorder t @ ctx_nodes C)"
  shows "rep (rb_transplant aug u v h) C v t"
proof -
  define h1 where "h1 = set_hole C v h"
  define h2 where "h2 = (if v \<noteq> NULL then set_parent v (par C) h1 else h1)"
  have "code_hole u v h = h1" unfolding h1_def by (rule code_hole_eq [OF C])
  then have e: "rep (rb_transplant aug u v h) C v t = rep h2 C v t"
    using C(4) by (intro rep_fields)
      (auto simp: rb_transplant_def Let_def code_hole_def h2_def split: if_splits)
  have nd: "v \<noteq> NULL \<Longrightarrow> v \<in> set (inorder t)" using t(1) tree_at_null tree_at_in by metis
  have "ctx_at h1 v C" unfolding h1_def by (rule ctx_at_hole [OF C(1)]) (use t(2) in simp)
  moreover have "v \<noteq> NULL \<Longrightarrow> v \<notin> set (ctx_nodes C)" using nd t(2) by auto
  ultimately have c2: "ctx_at h2 v C" by (cases "v = NULL") (auto simp: h2_def)
  have "tree_at h1 q v t" using t by (simp add: h1_def)
  then have "tree_at h2 (par C) v t"
    using tree_at_reparent [of h1 q v t "par C"] t(2) tree_at_null [OF t(1)] by (auto simp: h2_def)
  then show ?thesis unfolding e using c2 t(2) by (simp add: rep_def)
qed

lemma splice_rep:
  assumes C: "ctx_at h z C" "z \<noteq> NULL" "rb_parent h z = par C" and l: "tree_at h z (rb_left h z) l" "l \<noteq> Leaf"
    and r: "tree_at h y (rb_right h y) r" and y: "y \<noteq> NULL"
    and D: "distinct (y # z # inorder l @ inorder r @ ctx_nodes C)"
  shows "rep (rb_splice aug z y h) C y (Node l y (rb_color h z) r)"
proof -
  let ?t = "rb_transplant aug z y h" and ?lz = "rb_left h z" and ?g = "set_hole C y h"
  define s0 where "s0 = set_color y (rb_color h z) (set_parent ?lz y (set_left y ?lz (set_parent y (par C) ?g)))"
  have z: "z \<notin> set (ctx_nodes C)" "y \<noteq> z" "y \<notin> set (ctx_nodes C)" using D by auto
  have g: "?g = code_hole z y h" by (rule code_hole_eq [OF C(1,2) z(1) C(3), symmetric])
  have T: "rb_root ?t = rb_root ?g" "rb_parent ?t n = (if n = y then par C else rb_parent h n)"
      "rb_left ?t n = rb_left ?g n" "rb_right ?t n = rb_right ?g n" for n
    unfolding g using C(3) y by (auto simp: rb_transplant_def Let_def code_hole_def)
  have "rb_left ?t z = ?lz" using T(3) [of z] z(1) by simp
  then have E: "rep (rb_splice aug z y h) C y t = rep s0 C y t" for t
    by (intro rep_fields) (auto simp: rb_splice_def Let_def s0_def T)
  have lz: "?lz \<in> set (inorder l)" "?lz \<noteq> NULL" using l tree_at_in tree_at_null by metis+
  have "ctx_at ?g y C" by (rule ctx_at_hole [OF C(1)]) (use D in simp)
  then have c: "ctx_at s0 y C" using D lz(1) by (auto simp: s0_def disjoint_iff)
  have "tree_at s0 (par C) y (Node l y (rb_color h z) r)"
  proof -
    have "tree_at (set_parent ?lz y h) y ?lz l" using tree_at_reparent [OF l(1) _ l(2)] D by simp
    then have "tree_at s0 y ?lz l"
      by (rule tree_at_agree) (use D in \<open>auto simp: agree_def s0_def disjoint_iff\<close>)
    moreover have "tree_at s0 y (rb_right h y) r"
      by (rule tree_at_agree [OF r]) (use D lz in \<open>auto simp: agree_def s0_def disjoint_iff\<close>)
    ultimately show ?thesis using y z lz D by (auto simp: s0_def)
  qed
  then show ?thesis unfolding E using D c by (simp add: rep_def)
qed

section \<open>Removal\<close>

text \<open>The tail of \<open>lib_rbRemove\<close>: rebalancing where a black node has gone.\<close>

lemma finish_removal:
  assumes R: "rep h C x t" and nil: "nil \<noteq> NULL" "nil \<notin> set (inorder t) \<union> set (ctx_nodes C)" and p: "p = par C"
    and t: "invc t" "invh t" "rootc t = RB_RED \<Longrightarrow> c = RB_BLACK"
    and C: "hole_c C c" "hole_h C (bh t + (if c = RB_BLACK then 1 else 0))"
  shows "restored (if c = RB_BLACK then lib_rbRemoveBalance aug nil p x h else Some h) (inorder (plug C t))"
proof (cases c)
  case RB_BLACK
  then show ?thesis using removeBalance_ok [OF R nil t(1,2)] C p by simp
next
  case RB_RED
  then have "rootc t = RB_BLACK" using t(3) by (metis not_black rbcolor.distinct(1))
  then have "rb_tree (plug C t)" using RB_RED t C hole_c_black by (auto simp: rb_tree_plug)
  then show ?thesis using rep_plug [OF R] RB_RED by (auto simp: restored_def rb_nodes_def)
qed

lemma remove_one_child:
  assumes R: "rep h C z (Node l z c r)" and rb: "rb_tree (plug C (Node l z c r))"
    and nil: "nil \<noteq> NULL" "nil \<notin> set (inorder (plug C (Node l z c r)))" and lr: "l = Leaf \<or> r = Leaf"
  shows "restored (lib_rbRemove aug nil z h) (ctx_before C @ inorder l @ inorder r @ ctx_after C)"
proof -
  define t v where "t = (if l = Leaf then r else l)" and "v = (if l = Leaf then rb_right h z else rb_left h z)"
  have T: "tree_at h z (rb_left h z) l" "tree_at h z (rb_right h z) r" "rb_parent h z = par C" "rb_color h z = c"
      "ctx_at h z C" "z \<noteq> NULL" and D: "distinct (inorder l @ z # inorder r @ ctx_nodes C)"
    using R by (auto simp: rep_def)
  have nl: "rb_left h z = NULL \<longleftrightarrow> l = Leaf" "rb_right h z = NULL \<longleftrightarrow> r = Leaf"
    using T(1,2) tree_at_null by metis+
  have R': "rep (rb_transplant aug z v h) C v t"
    by (rule transplant_rep [of h z C z v t]) (use T D in \<open>auto simp: t_def v_def\<close>)
  have I: "invc (Node l z c r)" "invh (Node l z c r)" "hole_c C c" "hole_h C (bh (Node l z c r))"
    using rb unfolding rb_tree_plug by auto
  have "restored (if c = RB_BLACK then lib_rbRemoveBalance aug nil (par C) v (rb_transplant aug z v h)
      else Some (rb_transplant aug z v h)) (inorder (plug C t))"
    by (rule finish_removal [OF R' nil(1)]) (use nil(2) I lr in \<open>auto simp: plug_nodes t_def split: if_splits\<close>)
  moreover have "inorder (plug C t) = ctx_before C @ inorder l @ inorder r @ ctx_after C"
    using lr by (auto simp: inorder_plug_ctx t_def)
  ultimately show ?thesis using nl lr T(3,4) by (auto simp: lib_rbRemove_def Let_def v_def)
qed

text \<open>The successor \<open>y\<close> leaves its place below the right child of \<open>z\<close>.\<close>

lemma hole_c_rename: "hole_c (D @ RightOf l y c # C) k = hole_c (D @ RightOf l z c # C) k"
  by (induction D k rule: hole_c.induct) simp_all

lemma hole_h_rename: "hole_h (D @ RightOf l y c # C) n = hole_h (D @ RightOf l z c # C) n"
  by (induction D n rule: hole_h.induct) simp_all

lemma detach:
  assumes R: "rep h (D @ RightOf l z c # C) y (Node Leaf y cy yr)" and D: "D \<noteq> []"
    and h1: "h1 = rb_transplant aug y (rb_right h y) h"
    and h2: "h2 = set_parent (rb_right h1 z) y (set_right y (rb_right h1 z) h1)"
  shows "ctx_at h2 z C" and "rb_parent h2 z = par C" and "tree_at h2 z (rb_left h2 z) l"
    and "tree_at h2 y (rb_right h2 y) (plug D yr)" and "rb_color h2 z = c"
proof -
  let ?E = "D @ RightOf l z c # C" and ?r = "plug D yr"
  have T: "y \<noteq> NULL" "rb_parent h y = par ?E" "tree_at h y (rb_right h y) yr" "ctx_at h y ?E"
    and dis: "distinct (y # inorder yr @ ctx_nodes ?E)"
    using R by (auto simp: rep_def)
  have "rep h1 ?E (rb_right h y) yr"
    unfolding h1 by (rule transplant_rep [OF T(4,1) _ T(2,3)]) (use dis in auto)
  from rep_up [OF this] have R1: "rep h1 (RightOf l z c # C) (addr_of ?r) ?r" .
  then have F: "z \<noteq> NULL" "rb_right h1 z = addr_of ?r" "rb_color h1 z = c" "rb_parent h1 z = par C"
      "tree_at h1 z (rb_left h1 z) l" "ctx_at h1 z C" "tree_at h1 z (rb_right h1 z) ?r"
    and dis1: "distinct (inorder ?r @ z # inorder l @ ctx_nodes C)"
    by (auto simp: rep_def)
  have nodes: "set (ctx_nodes ?E) = set (ctx_nodes D) \<union> {z} \<union> set (inorder l) \<union> set (ctx_nodes C)"
    by (auto simp: ctx_nodes_def)
  then have y: "y \<notin> set (inorder ?r)" "y \<noteq> z" "y \<notin> set (inorder l)" "y \<notin> set (ctx_nodes C)"
    using dis by (auto simp: plug_nodes)
  have ne: "?r \<noteq> Leaf" using D by (simp add: plug_Leaf)
  then have rz: "rb_right h1 z \<in> set (inorder ?r)" using F(7) tree_at_in by blast
  then have q: "rb_right h1 z \<noteq> z" "rb_right h1 z \<notin> set (inorder l)" "rb_right h1 z \<notin> set (ctx_nodes C)"
      "rb_right h1 z \<noteq> y"
    using dis1 y by auto
  show "ctx_at h2 z C" "rb_parent h2 z = par C" "tree_at h2 z (rb_left h2 z) l" "rb_color h2 z = c"
    using F y q by (simp_all add: h2)
  have "tree_at (set_right y (rb_right h1 z) h1) z (rb_right h1 z) ?r" using F(7) y(1) by simp
  from tree_at_reparent [OF this _ ne] show "tree_at h2 y (rb_right h2 y) ?r"
    using dis1 by (simp add: h2)
qed

lemma remove_code:
  assumes "rb_left h z \<noteq> NULL" and "rb_right h z \<noteq> NULL" and "lib_rbMinimum h (rb_right h z) = Some y"
  shows "lib_rbRemove aug nil z h =
    (let s = rb_splice aug z y (if rb_parent h y = z then h
               else (let h1 = rb_transplant aug y (rb_right h y) h
                     in set_parent (rb_right h1 z) y (set_right y (rb_right h1 z) h1)))
     in case lib_rbMaximum s (rb_left s y) of None \<Rightarrow> None
        | Some t \<Rightarrow> (case lib_rbMinimum (rb_augment aug t s) (rb_right (rb_augment aug t s) y) of None \<Rightarrow> None
            | Some t2 \<Rightarrow> (let f = rb_augment aug t2 (rb_augment aug t s) in
                 if rb_color h y = RB_BLACK
                 then lib_rbRemoveBalance aug nil (if rb_parent h y = z then y else rb_parent h y) (rb_right h y) f
                 else Some f)))"
proof -
  have r: "rb_right (set_right a b g) a = b" for a b and g :: "'a rbheap_scheme" by simp
  show ?thesis
    unfolding lib_rbRemove_def rb_splice_def Let_def r by (simp only: assms if_False option.case)
qed

lemma remove_two_children:
  assumes R: "rep h C z (Node l z c r)" and rb: "rb_tree (plug C (Node l z c r))"
    and nil: "nil \<noteq> NULL" "nil \<notin> set (inorder (plug C (Node l z c r)))" and lr: "l \<noteq> Leaf" "r \<noteq> Leaf"
  shows "restored (lib_rbRemove aug nil z h) (ctx_before C @ inorder l @ inorder r @ ctx_after C)"
proof -
  obtain D y cy yr where r: "r = plug D (Node Leaf y cy yr)" and before: "ctx_before D = []" and y: "y = hd (inorder r)"
    using leftmost [OF lr(2)] by blast
  let ?E = "D @ RightOf l z c # C" and ?E' = "D @ RightOf l y c # C"
  have T: "tree_at h z (rb_left h z) l" "tree_at h z (rb_right h z) r" "ctx_at h z C" "rb_parent h z = par C"
      "rb_color h z = c" "z \<noteq> NULL" and dis: "distinct (inorder l @ z # inorder r @ ctx_nodes C)"
    using R by (auto simp: rep_def)
  have nl: "rb_left h z \<noteq> NULL" "rb_right h z \<noteq> NULL" using lr T(1,2) tree_at_null by metis+
  have min: "lib_rbMinimum h (rb_right h z) = Some y" using minimum_tree [OF T(2)] lr y by simp
  have Ry: "rep h ?E y (Node Leaf y cy yr)"
    using rep_down [of h "RightOf l z c # C" _ D "Node Leaf y cy yr"] R rep_right r by fastforce
  then have Ty: "y \<noteq> NULL" "rb_parent h y = par ?E" "rb_color h y = cy" "tree_at h y (rb_right h y) yr"
    by (auto simp: rep_def)
  have x: "rb_right h y = addr_of yr" by (rule tree_at_addr [OF Ty(4)])
  have rn: "set (inorder r) = set (inorder yr) \<union> {y} \<union> set (ctx_nodes D)" using r by (simp add: plug_nodes)
  define h2 where "h2 = (if rb_parent h y = z then h
     else (let h1 = rb_transplant aug y (rb_right h y) h
           in set_parent (rb_right h1 z) y (set_right y (rb_right h1 z) h1)))"
  have pz: "rb_parent h y = z \<longleftrightarrow> D = []"
    using Ty(2) dis rn by (cases D rule: par.cases) auto
  have dis': "distinct (y # z # inorder l @ inorder (plug D yr) @ ctx_nodes C)"
    using dis before r by (auto simp: inorder_plug_ctx)
  have H: "ctx_at h2 z C" "rb_parent h2 z = par C" "tree_at h2 z (rb_left h2 z) l"
      "tree_at h2 y (rb_right h2 y) (plug D yr)" "rb_color h2 z = c"
    using detach [OF Ry _ refl refl] T Ty pz by (cases "D = []"; simp add: h2_def Let_def)+
  let ?s = "rb_splice aug z y h2"
  have S: "rep ?s C y (Node l y c (plug D yr))"
    using splice_rep [OF H(1) T(6) H(2,3) lr(1) H(4) Ty(1) dis'] H(5) by simp
  have aug: "rep (rb_augment aug a g) K v t = rep g K v t" for a g K v t by (simp add: rep_def)
  obtain t1 where t1: "lib_rbMaximum ?s (rb_left ?s y) = Some t1"
    using S maximum_tree by (fastforce simp: rep_def)
  obtain t2 where t2: "lib_rbMinimum (rb_augment aug t1 ?s) (rb_right (rb_augment aug t1 ?s) y) = Some t2"
    using S minimum_tree [of "rb_augment aug t1 ?s" y _ "plug D yr"] by (fastforce simp: rep_def)
  let ?f = "rb_augment aug t2 (rb_augment aug t1 ?s)"
  have p: "(if rb_parent h y = z then y else rb_parent h y) = par ?E'"
    using pz Ty(2) by (cases D rule: par.cases) auto
  have code: "lib_rbRemove aug nil z h =
      (if cy = RB_BLACK then lib_rbRemoveBalance aug nil (par ?E') (addr_of yr) ?f else Some ?f)"
    unfolding remove_code [OF nl min, folded h2_def] Let_def
    by (simp only: t1 t2 option.case) (simp only: Ty(3) x p)
  have Rf: "rep ?f ?E' (addr_of yr) yr"
    using rep_down [of ?f "RightOf l y c # C" _ D yr] rep_right [of ?f C y l y c "plug D yr"] S aug by blast
  have I: "invc (Node Leaf y cy yr)" "invh (Node Leaf y cy yr)" "hole_c ?E' cy" "hole_h ?E' (bh (Node Leaf y cy yr))"
    using rb unfolding r plug.simps(3) [of l z c C, symmetric] plug_append [symmetric] rb_tree_plug
    by (auto simp: hole_c_rename [where y = y and z = z] hole_h_rename [where y = y and z = z])
  have nil': "nil \<notin> set (inorder yr) \<union> set (ctx_nodes ?E')"
    using nil(2) rn by (auto simp: plug_nodes ctx_nodes_def)
  have "restored (lib_rbRemove aug nil z h) (inorder (plug ?E' yr))"
    unfolding code by (rule finish_removal [OF Rf nil(1) nil' refl _ _ _ I(3)])
      (use I(1,2,4) in \<open>auto split: if_splits\<close>)
  moreover have "inorder (plug ?E' yr) = ctx_before C @ inorder l @ inorder r @ ctx_after C"
    using before r by (simp add: plug_append inorder_plug_ctx)
  ultimately show ?thesis by simp
qed

lemma remove_node:
  assumes N: "rb_nodes h (as @ z # bs)" and nil: "nil \<noteq> NULL" "nil \<notin> set (as @ z # bs)"
  shows "\<exists>h'. lib_rbRemove aug nil z h = Some h' \<and> rb_nodes h' (as @ bs)"
proof -
  obtain t where R: "rep h [] (rb_root h) t" and rb: "rb_tree t" and xs: "inorder t = as @ z # bs"
    using N by (auto simp: rb_nodes_def)
  then obtain C l c r where Rz: "rep h C z (Node l z c r)" and t: "plug C (Node l z c r) = t"
    using rep_zoom [OF R, of z] by auto
  have d: "distinct (as @ z # bs)" using rb_nodes_distinct [OF N] by simp
  have "(ctx_before C @ inorder l) @ z # (inorder r @ ctx_after C) = as @ z # bs"
    using xs t by (auto simp: inorder_plug_ctx)
  then have "as = ctx_before C @ inorder l \<and> bs = inorder r @ ctx_after C"
    using d append_Cons_eq_iff [of z as bs "ctx_before C @ inorder l" "inorder r @ ctx_after C"] by auto
  moreover have "restored (lib_rbRemove aug nil z h) (ctx_before C @ inorder l @ inorder r @ ctx_after C)"
    using remove_one_child [OF Rz] remove_two_children [OF Rz] rb nil xs t by metis
  ultimately show ?thesis by (simp add: restored_def)
qed

end

end
