(* ===== verification/Lib_RB_Spec.thy ===== *)
theory Lib_RB_Spec
  imports Lib_RB_Delete
begin

text \<open>
  What the red-black tree of \<^verbatim>\<open>lib/rb.c\<close> promises its clients: the heap is a
  sequence of nodes in the order of their keys, insertion, removal, search and traversal are the
  operations on that sequence, and they all return. The locale \<open>rb_order\<close> is the contract of
  the comparison callback; each client of the tree interprets it on its own callback.
\<close>

section \<open>The comparison callback\<close>

locale rb_order =
  fixes compare :: "addr \<Rightarrow> addr \<Rightarrow> int" and key :: "addr \<Rightarrow> int"
  assumes compare_less: "compare a b < 0 \<longleftrightarrow> key a < key b"
    and compare_greater: "compare a b > 0 \<longleftrightarrow> key b < key a"
begin

lemma compare_equal: "compare a b = 0 \<longleftrightarrow> key a = key b"
  using compare_less [of a b] compare_greater [of a b] by linarith

lemma key_search_cut: "sorted_wrt (\<lambda>a b. key a < key b) xs \<Longrightarrow> search_cut compare z xs"
  unfolding search_cut_def by (erule sorted_wrt_mono_rel [rotated]) (auto simp: compare_less compare_greater compare_equal)

lemma key_ordered_insert:
  assumes s: "sorted_wrt (\<lambda>a b. key a < key b) xs" and z: "key z \<notin> key ` set xs"
  shows "sorted_wrt (\<lambda>a b. key a < key b) (ordered_insert compare z xs)"
proof -
  let ?P = "\<lambda>a. compare a z < 0"
  have l: "key a < key z" if "a \<in> set (takeWhile ?P xs)" for a
    using set_takeWhileD [OF that] by (simp add: compare_less)
  have r: "key z < key b" if "b \<in> set (dropWhile ?P xs)" for b
  proof (cases "dropWhile ?P xs")
    case Nil
    then show ?thesis using that by (metis empty_iff list.set(1))
  next
    case (Cons d ds)
    then have "\<not> ?P d" "d \<in> set xs" using hd_dropWhile [of ?P xs] set_dropWhileD [of d ?P xs] by simp_all
    then have "key z < key d" using z by (auto simp: compare_less not_less order_le_less)
    moreover have "sorted_wrt (\<lambda>a b. key a < key b) (d # ds)"
      using s takeWhile_dropWhile_id [of ?P xs] Cons sorted_wrt_append by metis
    ultimately show ?thesis using that Cons by auto
  qed
  have "sorted_wrt (\<lambda>a b. key a < key b) (takeWhile ?P xs @ dropWhile ?P xs)" using s by simp
  then show ?thesis using l r unfolding ordered_insert_def sorted_wrt_append by (auto dest!: l r)
qed

end

section \<open>Trees without augmentation\<close>

interpretation plain: rb_augmented no_augment
  by unfold_locales (simp_all add: no_augment_def)

text \<open>
  A comparison by a key that the node carries, as the callbacks of the kernel are written:
  minus one, zero or one.
\<close>

definition key_compare :: "(addr \<Rightarrow> int) \<Rightarrow> addr \<Rightarrow> addr \<Rightarrow> int" where
  "key_compare key a b = (if key a > key b then 1 else if key a < key b then -1 else 0)"

interpretation kc: rb_order "key_compare key" key for key
  by unfold_locales (simp_all add: key_compare_def)

lemma set_ordered_insert [simp]: "set (ordered_insert c z xs) = insert z (set xs)"
proof -
  have "set xs = set (takeWhile (\<lambda>a. c a z < 0) xs) \<union> set (dropWhile (\<lambda>a. c a z < 0) xs)"
    by (metis set_append takeWhile_dropWhile_id)
  then show ?thesis by (auto simp: ordered_insert_def)
qed

lemma rb_nodes_init: "rb_nodes (lib_rbInit h) []"
proof -
  have "rep (lib_rbInit h) [] (rb_root (lib_rbInit h)) Leaf" by (simp add: rep_def lib_rbInit_def)
  then show ?thesis unfolding rb_nodes_def by (intro exI [of _ Leaf]) (simp add: rb_tree_def)
qed

section \<open>Runs of insertions and removals\<close>

text \<open>
  The heaps a client can reach from \<open>lib_rbInit\<close>, with the set of nodes it has put into the
  tree: it never inserts a node that is already linked, and it removes linked nodes only.
\<close>

inductive rb_run :: "(addr \<Rightarrow> int) \<Rightarrow> addr \<Rightarrow> rbheap \<Rightarrow> addr set \<Rightarrow> bool" for key nil where
  run_init: "nil \<noteq> NULL \<Longrightarrow> rb_run key nil (lib_rbInit h) {}"
| run_insert: "rb_run key nil h S \<Longrightarrow> z \<noteq> NULL \<Longrightarrow> z \<noteq> nil \<Longrightarrow> z \<notin> S \<Longrightarrow>
    lib_rbInsert no_augment (key_compare key) z h = Some (h', e) \<Longrightarrow>
    rb_run key nil h' (if e = EOK then insert z S else S)"
| run_remove: "rb_run key nil h S \<Longrightarrow> z \<in> S \<Longrightarrow> lib_rbRemove no_augment nil z h = Some h' \<Longrightarrow>
    rb_run key nil h' (S - {z})"

definition key_nodes :: "(addr \<Rightarrow> int) \<Rightarrow> addr \<Rightarrow> 'a rbheap_scheme \<Rightarrow> addr list \<Rightarrow> bool" where
  "key_nodes key nil h xs \<longleftrightarrow> rb_nodes h xs \<and> sorted_wrt (\<lambda>a b. key a < key b) xs \<and> nil \<noteq> NULL \<and> nil \<notin> set xs"

lemma key_nodes_insert:
  assumes N: "key_nodes key nil h xs" and z: "z \<noteq> NULL" "z \<noteq> nil" "z \<notin> set xs"
  shows "if key z \<in> key ` set xs then lib_rbInsert no_augment (key_compare key) z h = Some (h, - EEXIST)
         else \<exists>h'. lib_rbInsert no_augment (key_compare key) z h = Some (h', EOK) \<and>
                   key_nodes key nil h' (ordered_insert (key_compare key) z xs)"
proof -
  have T: "rb_nodes h xs" and s: "sorted_wrt (\<lambda>a b. key a < key b) xs" using N by (auto simp: key_nodes_def)
  note c = kc.key_search_cut [OF s, of z]
  show ?thesis
  proof (cases "key z \<in> key ` set xs")
    case True
    then obtain a where "a \<in> set xs" "key_compare key a z = 0" by (auto simp: kc.compare_equal)
    then show ?thesis using plain.insert_existing [OF T c] True by simp
  next
    case False
    then have nz: "key_compare key a z \<noteq> 0" if "a \<in> set xs" for a using that kc.compare_equal by (metis image_eqI)
    show ?thesis
      using plain.insert_new [OF T c nz z(1,3)] kc.key_ordered_insert [OF s False] N z False
      by (auto simp: key_nodes_def)
  qed
qed

lemma key_nodes_remove:
  assumes N: "key_nodes key nil h (as @ z # bs)"
  shows "\<exists>h'. lib_rbRemove no_augment nil z h = Some h' \<and> key_nodes key nil h' (as @ bs)"
  using plain.remove_node [of h as z bs nil] N by (auto simp: key_nodes_def sorted_wrt_append)

lemma run_key_nodes: "rb_run key nil h S \<Longrightarrow> \<exists>xs. key_nodes key nil h xs \<and> set xs = S"
proof (induction rule: rb_run.induct)
  case (run_init h)
  then show ?case using rb_nodes_init by (intro exI [of _ "[]"]) (simp add: key_nodes_def)
next
  case (run_insert h S z h' e)
  then obtain xs where N: "key_nodes key nil h xs" "set xs = S" by blast
  show ?case
    using key_nodes_insert [OF N(1) run_insert.hyps(2,3)] run_insert.hyps N
    by (cases "key z \<in> key ` S") fastforce+
next
  case (run_remove h S z h')
  then obtain xs where N: "key_nodes key nil h xs" "set xs = S" by blast
  then obtain as bs where xs: "xs = as @ z # bs" using run_remove.hyps(2) split_list by metis
  then have "distinct (as @ z # bs)" using N rb_nodes_distinct by (fastforce simp: key_nodes_def)
  then show ?case using key_nodes_remove [of key nil h as z bs] N xs run_remove.hyps by fastforce
qed

section \<open>A tree of three nodes\<close>

definition rb_sample :: rbheap where
  "rb_sample = \<lparr>rb_root = 5, rb_parent = (\<lambda>_. NULL)(3 := 5, 8 := 5), rb_left = (\<lambda>_. NULL)(5 := 3),
     rb_right = (\<lambda>_. NULL)(5 := 8), rb_color = (\<lambda>_. RB_RED)(5 := RB_BLACK)\<rparr>"

lemma rb_sample_nodes: "rb_nodes rb_sample [3, 5, 8]"
  unfolding rb_nodes_def
  by (intro exI [of _ "Node (Node Leaf 3 RB_RED Leaf) 5 RB_BLACK (Node Leaf 8 RB_RED Leaf)"])
    (simp add: rep_def rb_sample_def rb_tree_def)

lemma run_insert_new:
  assumes "rb_run key nil h S" and "z \<noteq> NULL" and "z \<noteq> nil" and "z \<notin> S" and "key z \<notin> key ` S"
  shows "\<exists>h'. rb_run key nil h' (insert z S)"
proof -
  obtain xs where N: "key_nodes key nil h xs" "set xs = S" using run_key_nodes [OF assms(1)] by blast
  then obtain h' where "lib_rbInsert no_augment (key_compare key) z h = Some (h', EOK)"
    using key_nodes_insert [of key nil h xs z] assms by auto
  from run_insert [OF assms(1-4) this] show ?thesis by auto
qed

section \<open>The promises\<close>

text \<open>C4: along every run of insertions and removals the tree is the set of linked nodes in strictly
  increasing order of their keys, with the links and colours of a red-black tree, and every further
  insertion and removal returns.\<close>

theorem rb_run_ordered:
  assumes "rb_run key nil h S"
  shows "(\<exists>xs. rb_nodes h xs \<and> set xs = S \<and> sorted_wrt (\<lambda>a b. key a < key b) xs) \<and>
    (z \<in> S \<longrightarrow> lib_rbRemove no_augment nil z h \<noteq> None) \<and>
    (z \<notin> S \<and> z \<noteq> NULL \<and> z \<noteq> nil \<longrightarrow> lib_rbInsert no_augment (key_compare key) z h \<noteq> None)"
proof -
  obtain xs where N: "key_nodes key nil h xs" "set xs = S" using run_key_nodes [OF assms] by blast
  have "lib_rbRemove no_augment nil z h \<noteq> None" if "z \<in> S"
    using that N key_nodes_remove [of key nil h] split_list [of z xs] by fastforce
  moreover have "lib_rbInsert no_augment (key_compare key) z h \<noteq> None" if "z \<notin> S" "z \<noteq> NULL" "z \<noteq> nil"
    using that key_nodes_insert [OF N(1), of z] N(2) by (auto split: if_splits)
  ultimately show ?thesis using N by (auto simp: key_nodes_def)
qed

theorem rb_run_ordered_witness:
  "\<exists>h. rb_run int 9 h {2, 4} \<and> (\<exists>xs. rb_nodes h xs \<and> set xs = {2, 4} \<and> sorted_wrt (\<lambda>a b. int a < int b) xs) \<and>
       lib_rbRemove no_augment 9 4 h \<noteq> None"
proof -
  have "rb_run int 9 (lib_rbInit rb_sample) {}" by (simp add: run_init)
  then obtain h1 where "rb_run int 9 h1 {4}" using run_insert_new [of int 9 _ "{}" 4] by auto
  then obtain h where "rb_run int 9 h {2, 4}" using run_insert_new [of int 9 h1 "{4}" 2] by auto
  then show ?thesis using rb_run_ordered [of int 9 h "{2, 4}" 4] by auto
qed

text \<open>\<open>lib_rbInsert\<close> puts a new node at the place of its key and leaves a red-black tree; a node
  with the key of a linked node is refused with \<open>EEXIST\<close> and the heap is unchanged.\<close>

theorem rb_insert_correct:
  assumes "rb_nodes h xs" and "sorted_wrt (\<lambda>a b. key a < key b) xs" and "z \<noteq> NULL" and "z \<notin> set xs"
  shows "if key z \<in> key ` set xs then lib_rbInsert no_augment (key_compare key) z h = Some (h, - EEXIST)
    else \<exists>h'. lib_rbInsert no_augment (key_compare key) z h = Some (h', EOK) \<and>
      rb_nodes h' (takeWhile (\<lambda>a. key a < key z) xs @ z # dropWhile (\<lambda>a. key a < key z) xs)"
proof -
  obtain nil where "nil \<notin> insert NULL (insert z (set xs))"
    using ex_new_if_finite [of "insert NULL (insert z (set xs))"] by auto
  then have "key_nodes key nil h xs" "z \<noteq> nil" using assms by (auto simp: key_nodes_def)
  from key_nodes_insert [OF this(1) assms(3) this(2) assms(4)] show ?thesis
    by (simp add: ordered_insert_def kc.compare_less key_nodes_def split: if_splits) blast
qed

theorem rb_insert_correct_witness:
  "(\<exists>h'. lib_rbInsert no_augment (key_compare int) 7 rb_sample = Some (h', EOK) \<and> rb_nodes h' [3, 5, 7, 8]) \<and>
   lib_rbInsert no_augment (key_compare (\<lambda>a. int (a mod 10))) 15 rb_sample = Some (rb_sample, - EEXIST)"
  using rb_insert_correct [OF rb_sample_nodes, of int 7]
    rb_insert_correct [OF rb_sample_nodes, of "\<lambda>a. int (a mod 10)" 15] by simp

text \<open>C18: \<open>lib_rbRemove\<close> returns for every linked node and leaves a red-black tree of the other nodes
  in their order.\<close>

theorem rb_remove_correct:
  assumes "rb_nodes h xs" and "z \<in> set xs" and "nil \<noteq> NULL" and "nil \<notin> set xs"
  shows "\<exists>h'. lib_rbRemove no_augment nil z h = Some h' \<and> rb_nodes h' (remove1 z xs)"
proof -
  obtain as bs where xs: "xs = as @ z # bs" and z: "z \<notin> set as" using assms(2) split_list_first by metis
  then show ?thesis using plain.remove_node [of h as z bs nil] assms by (simp add: remove1_append)
qed

theorem rb_remove_correct_witness:
  "\<exists>h'. lib_rbRemove no_augment 9 5 rb_sample = Some h' \<and> rb_nodes h' [3, 8]"
  using rb_remove_correct [OF rb_sample_nodes, of 5 9] by simp

text \<open>\<open>lib_rbFind\<close> returns, and it returns the linked node with the key of the node searched for,
  or the null pointer when there is none.\<close>

theorem rb_find_correct:
  assumes "rb_nodes h xs" and "sorted_wrt (\<lambda>a b. key a < key b) xs"
  shows "\<exists>r. lib_rbFind h (key_compare key) n = Some r \<and>
    (if key n \<in> key ` set xs then r \<in> set xs \<and> key r = key n else r = NULL)"
proof -
  have "find (\<lambda>a. key_compare key a n = 0) xs = Some a \<Longrightarrow> a \<in> set xs \<and> key a = key n" for a
    by (auto simp: find_Some_iff kc.compare_equal)
  moreover have "find (\<lambda>a. key_compare key a n = 0) xs = None \<longleftrightarrow> key n \<notin> key ` set xs"
    unfolding find_None_iff kc.compare_equal by (metis image_iff)
  ultimately show ?thesis
    using rb_nodes_find [OF assms(1) kc.key_search_cut [OF assms(2)], of n] by (auto split: option.splits)
qed

theorem rb_find_correct_witness:
  "(\<exists>r. lib_rbFind rb_sample (key_compare (\<lambda>a. int (a mod 10))) 18 = Some r \<and> r \<in> {3, 5, 8} \<and> int (r mod 10) = 8) \<and>
   lib_rbFind rb_sample (key_compare int) 4 = Some NULL"
  using rb_find_correct [OF rb_sample_nodes, of "\<lambda>a. int (a mod 10)" 18] rb_find_correct [OF rb_sample_nodes, of int 4]
  by auto

text \<open>starting from \<open>lib_rbMinimum\<close>, \<open>lib_rbNext\<close> visits the nodes of the tree in order and ends
  with the null pointer; \<open>lib_rbPrev\<close> visits them backwards.\<close>

theorem rb_walk_correct:
  assumes "rb_nodes h xs" and "xs \<noteq> []" and "i < length xs"
  shows "lib_rbMinimum h (rb_root h) = Some (xs ! 0) \<and>
    lib_rbNext h (xs ! i) = Some (if Suc i < length xs then xs ! Suc i else NULL) \<and>
    lib_rbPrev h (xs ! i) = Some (if i = 0 then NULL else xs ! (i - 1))"
proof -
  have "rb_nodes h (take i xs @ xs ! i # drop (Suc i) xs)" using assms id_take_nth_drop by metis
  note w = rb_nodes_walk [OF this]
  have "first_or_null (drop (Suc i) xs) = (if Suc i < length xs then xs ! Suc i else NULL)"
    by (simp add: first_or_null_def hd_drop_conv_nth)
  moreover have "first_or_null (rev (take i xs)) = (if i = 0 then NULL else xs ! (i - 1))"
    using assms(2,3) by (auto simp: first_or_null_def hd_rev last_conv_nth min_def)
  ultimately show ?thesis
    using w rb_nodes_minimum [OF assms(1)] assms(2) by (simp add: first_or_null_def hd_conv_nth)
qed

theorem rb_walk_correct_witness:
  "lib_rbMinimum rb_sample 5 = Some 3 \<and> lib_rbNext rb_sample 5 = Some 8 \<and> lib_rbPrev rb_sample 5 = Some 3"
  using rb_walk_correct [OF rb_sample_nodes, of 1] by (simp add: rb_sample_def)

end
