(* ===== verification/Lib_RB_Frame.thy ===== *)
theory Lib_RB_Frame
  imports Lib_RB
begin

text \<open>
  What the tree leaves alone: a field of the nodes that no link, no colour and no call of the
  augmentation callback changes has the same value after an insertion or a removal as before. The
  locale \<open>rb_payload\<close> names such a field; the identifier tree interprets it on the identifiers.
\<close>

locale rb_payload =
  fixes aug :: "'a augment" and field :: "'a rbheap_scheme \<Rightarrow> 'b"
  assumes field_parent: "field (set_parent n v h) = field h"
    and field_left: "field (set_left n v h) = field h"
    and field_right: "field (set_right n v h) = field h"
    and field_color: "field (set_color n k h) = field h"
    and field_root: "field (h\<lparr>rb_root := v\<rparr>) = field h"
    and field_aug: "field (aug n h) = field h"
begin

lemma field_augment: "field (rb_augment aug n h) = field h"
  by (simp add: rb_augment_def field_aug)

lemmas field_simps = field_parent field_left field_right field_color field_root field_augment

lemma field_rotate: "field (rb_rotateLeft aug x h) = field h" "field (rb_rotateRight aug x h) = field h"
  by (simp_all add: rb_rotateLeft_def rb_rotateRight_def Let_def field_simps)

lemma field_transplant: "field (rb_transplant aug u v h) = field h"
  by (simp add: rb_transplant_def Let_def field_simps)

lemma field_insertBalance_loop: "lib_rbInsertBalance g z h = Some h' \<Longrightarrow> g = aug \<longrightarrow> field h' = field h"
  by (erule lib_rbInsertBalance.raw_induct [rotated])
    (auto simp: Let_def field_simps field_rotate split: if_splits)

lemmas field_insertBalance = field_insertBalance_loop [THEN mp, OF _ refl]

lemma field_insert:
  assumes "lib_rbInsert aug c z h = Some (h', e)"
  shows "field h' = field h"
  using assms field_insertBalance
  by (fastforce simp: lib_rbInsert_def rb_link_def Let_def field_simps split: option.splits if_splits prod.splits)

lemma field_remove_steps: "rb_remove_loop g nil x h = Some h' \<Longrightarrow> g = aug \<longrightarrow> field h' = field h"
  by (erule rb_remove_loop.raw_induct [where P = "\<lambda>g nil x h h'. g = aug \<longrightarrow> field h' = field h" and
        xa = "(((g, nil), x), h)" and y = h', unfolded prod.case, rotated])
    (simp add: Let_def field_simps field_rotate split: if_splits prod.splits, use field_color in blast)

lemmas field_remove_loop = field_remove_steps [THEN mp, OF _ refl]

lemma field_removeBalance: "lib_rbRemoveBalance aug nil p x h = Some h' \<Longrightarrow> field h' = field h"
  by (auto simp: lib_rbRemoveBalance_def Let_def field_simps dest!: field_remove_loop split: if_splits)

lemma field_remove: "lib_rbRemove aug nil z h = Some h' \<Longrightarrow> field h' = field h"
  unfolding lib_rbRemove_def Let_def
  by (auto simp: field_simps field_transplant dest!: field_removeBalance split: if_splits option.splits)

end

end
