(* ===== verification/Lib_IdTree.thy ===== *)
theory Lib_IdTree
  imports Lib_RB_Spec Lib_RB_Frame
begin

text \<open>
  The identifier tree of \<^verbatim>\<open>lib/idtree.c\<close>: a red-black tree ordered by identifier, in
  which every node also carries the largest run of free identifiers in its left and in its right
  subtree. Identifiers are C integers that the allocation keeps between 0 and \<open>MAX_ID\<close>, so the
  differences the code takes do not overflow and the model uses \<^typ>\<open>int\<close>. The locale \<open>rb_order\<close>
  is interpreted on \<open>lib_idtreeCmp\<close> and \<open>rb_augmented\<close> on \<open>lib_idtreeAugment\<close>.
\<close>

section \<open>Model of idtree.c\<close>

definition MAX_ID :: int where
  "MAX_ID = 2 ^ 31 - 1"

record idheap = rbheap +
  lmaxgap :: "addr \<Rightarrow> int"
  rmaxgap :: "addr \<Rightarrow> int"
  idn :: "addr \<Rightarrow> int"

definition lib_idtreeCmp :: "idheap \<Rightarrow> addr \<Rightarrow> addr \<Rightarrow> int" where
  "lib_idtreeCmp h n1 n2 = idn h n1 - idn h n2"

text \<open>The two loops that look for the neighbour of a node without a child on that side, and the loop
  that carries the gaps up to the root.\<close>

partial_function (option) augment_left_neighbour :: "idheap \<Rightarrow> addr \<Rightarrow> addr \<Rightarrow> addr option" where
  "augment_left_neighbour h it p =
     (if rb_parent h it \<noteq> NULL then
        (let p = rb_parent h it
         in if rb_right h (rb_parent h it) = it then Some p
            else augment_left_neighbour h (rb_parent h it) p)
      else Some p)"

partial_function (option) augment_right_neighbour :: "idheap \<Rightarrow> addr \<Rightarrow> addr \<Rightarrow> addr option" where
  "augment_right_neighbour h it p =
     (if rb_parent h it \<noteq> NULL then
        (let p = rb_parent h it
         in if rb_left h (rb_parent h it) = it then Some p
            else augment_right_neighbour h (rb_parent h it) p)
      else Some p)"

partial_function (option) augment_propagate :: "addr \<Rightarrow> idheap \<Rightarrow> idheap option" where
  "augment_propagate it h =
     (if rb_parent h it \<noteq> NULL then
        (let p = rb_parent h it; g = max (lmaxgap h it) (rmaxgap h it)
         in augment_propagate (rb_parent h it)
              (if rb_left h (rb_parent h it) = it then h\<lparr>lmaxgap := (lmaxgap h)(p := g)\<rparr>
               else h\<lparr>rmaxgap := (rmaxgap h)(p := g)\<rparr>))
      else Some h)"

definition augment_lgap :: "addr \<Rightarrow> idheap \<Rightarrow> int option" where
  "augment_lgap n h =
     (if rb_left h n = NULL then
        map_option (\<lambda>p. if idn h n \<le> idn h p then idn h n else idn h n - idn h p - 1)
          (augment_left_neighbour h n n)
      else (let l = rb_left h n in Some (max (lmaxgap h l) (rmaxgap h l))))"

definition augment_rgap :: "addr \<Rightarrow> idheap \<Rightarrow> int option" where
  "augment_rgap n h =
     (if rb_right h n = NULL then
        map_option (\<lambda>p. if idn h n \<ge> idn h p then MAX_ID - idn h n - 1 else idn h p - idn h n - 1)
          (augment_right_neighbour h n n)
      else (let r = rb_right h n in Some (max (lmaxgap h r) (rmaxgap h r))))"

definition idtree_augment_loops :: "addr \<Rightarrow> idheap \<Rightarrow> idheap option" where
  "idtree_augment_loops n h =
     (case augment_lgap n h of
        None \<Rightarrow> None
      | Some g \<Rightarrow>
          (let h = h\<lparr>lmaxgap := (lmaxgap h)(n := g)\<rparr>
           in case augment_rgap n h of
                None \<Rightarrow> None
              | Some g \<Rightarrow> augment_propagate n (h\<lparr>rmaxgap := (rmaxgap h)(n := g)\<rparr>)))"

text \<open>
  The callback. Its loops follow the parent pointers and end on every tree
  (\<open>idtree_augment_returns\<close>), so the second branch is never taken there.
\<close>

definition lib_idtreeAugment :: "addr \<Rightarrow> idheap \<Rightarrow> idheap" where
  "lib_idtreeAugment n h = (case idtree_augment_loops n h of Some h' \<Rightarrow> h' | None \<Rightarrow> h)"

text \<open>The search compares with a temporary node that carries the identifier; the null pointer stands for its address.\<close>

definition lib_idtreeFind :: "idheap \<Rightarrow> int \<Rightarrow> addr option" where
  "lib_idtreeFind h i = lib_rbFind h (\<lambda>n1 n2. idn h n1 - i) NULL"

partial_function (option) idtree_min_loop :: "idheap \<Rightarrow> addr \<Rightarrow> addr option" where
  "idtree_min_loop h x = (if rb_left h x \<noteq> NULL then idtree_min_loop h (rb_left h x) else Some x)"

definition lib_idtreeMinimum :: "idheap \<Rightarrow> addr \<Rightarrow> addr option" where
  "lib_idtreeMinimum h x = (if x \<noteq> NULL then idtree_min_loop h x else Some x)"

partial_function (option) idtree_up_loop :: "idheap \<Rightarrow> addr \<Rightarrow> addr option" where
  "idtree_up_loop h x =
     (if rb_parent h x \<noteq> NULL \<and> x = rb_right h (rb_parent h x) then idtree_up_loop h (rb_parent h x)
      else Some (rb_parent h x))"

definition lib_idtreeNext :: "idheap \<Rightarrow> addr \<Rightarrow> addr option" where
  "lib_idtreeNext h x = (if rb_right h x \<noteq> NULL then lib_rbMinimum h (rb_right h x) else idtree_up_loop h x)"

definition lib_idtreeInsert :: "addr \<Rightarrow> idheap \<Rightarrow> (idheap \<times> int) option" where
  "lib_idtreeInsert z h = lib_rbInsert lib_idtreeAugment (lib_idtreeCmp h) z h"

definition lib_idtreeRemove :: "addr \<Rightarrow> addr \<Rightarrow> idheap \<Rightarrow> idheap option" where
  "lib_idtreeRemove nil z h = lib_rbRemove lib_idtreeAugment nil z h"

definition lib_idtreeId :: "idheap \<Rightarrow> addr \<Rightarrow> int" where
  "lib_idtreeId h n = idn h n"

partial_function (option) alloc_climb :: "idheap \<Rightarrow> addr \<Rightarrow> addr option" where
  "alloc_climb h f =
     (if rmaxgap h f = 0 then
        (let f = rb_parent h f in if f = NULL then Some NULL else alloc_climb h f)
      else Some f)"

partial_function (option) alloc_descend :: "idheap \<Rightarrow> addr \<Rightarrow> int \<Rightarrow> int option" where
  "alloc_descend h f i =
     (if f \<noteq> NULL then
        if lmaxgap h f > 0 then alloc_descend h (rb_left h f) (idn h f - 1)
        else alloc_descend h (rb_right h f) (idn h f + 1)
      else Some i)"

text \<open>The identifier the allocation chooses; \<open>Some None\<close> is the failure with -1.\<close>

definition alloc_choose :: "idheap \<Rightarrow> int \<Rightarrow> int option option" where
  "alloc_choose h mn =
     (case lib_idtreeFind h mn of
        None \<Rightarrow> None
      | Some f \<Rightarrow>
          if f \<noteq> NULL then
            (case alloc_climb h f of
               None \<Rightarrow> None
             | Some f \<Rightarrow> if f = NULL then Some None
                         else map_option Some (alloc_descend h (rb_right h f) (idn h f + 1)))
          else Some (Some mn))"

text \<open>\<open>LIB_ASSERT\<close> stops the kernel when the chosen identifier is taken.\<close>

datatype 'a asserted = Panic | Returned 'a

definition lib_idtreeAlloc :: "addr \<Rightarrow> int \<Rightarrow> idheap \<Rightarrow> (idheap \<times> int) asserted option" where
  "lib_idtreeAlloc n mn h =
     (if mn > MAX_ID then Some (Returned (h, -1))
      else
        (case alloc_choose (h\<lparr>idn := (idn h)(n := mn)\<rparr>) mn of
           None \<Rightarrow> None
         | Some None \<Rightarrow> Some (Returned (h\<lparr>idn := (idn h)(n := mn)\<rparr>, -1))
         | Some (Some i) \<Rightarrow>
             (let h = h\<lparr>idn := (idn h)(n := i)\<rparr>
              in case lib_idtreeFind h i of
                   None \<Rightarrow> None
                 | Some f \<Rightarrow>
                     if f \<noteq> NULL then Some Panic
                     else map_option (\<lambda>(h, e). Returned (h, i)) (lib_idtreeInsert n h))))"

definition lib_idtreeInit :: "idheap \<Rightarrow> idheap" where
  "lib_idtreeInit h = lib_rbInit h"

section \<open>The tree underneath\<close>

interpretation idorder: rb_order "lib_idtreeCmp h" "idn h" for h
  by unfold_locales (simp_all add: lib_idtreeCmp_def)

lemma augment_propagate_frame:
  "augment_propagate it h = Some h' \<Longrightarrow> rb_root h' = rb_root h \<and> rb_parent h' = rb_parent h \<and>
     rb_left h' = rb_left h \<and> rb_right h' = rb_right h \<and> rb_color h' = rb_color h \<and> idn h' = idn h"
  by (erule augment_propagate.raw_induct [rotated]) (fastforce simp: Let_def split: if_splits)

lemma augment_loops_frame:
  assumes "idtree_augment_loops n h = Some h'"
  shows "rb_root h' = rb_root h \<and> rb_parent h' = rb_parent h \<and> rb_left h' = rb_left h \<and> rb_right h' = rb_right h \<and>
     rb_color h' = rb_color h \<and> idn h' = idn h"
proof -
  note l = assms [unfolded idtree_augment_loops_def Let_def]
  obtain g where g: "augment_lgap n h = Some g" using l by (cases "augment_lgap n h") simp_all
  let ?h = "h\<lparr>lmaxgap := (lmaxgap h)(n := g)\<rparr>"
  obtain g' where g': "augment_rgap n ?h = Some g'" using l g by (cases "augment_rgap n ?h") simp_all
  have "augment_propagate n (?h\<lparr>rmaxgap := (rmaxgap ?h)(n := g')\<rparr>) = Some h'"
    using l unfolding g option.case g' .
  from augment_propagate_frame [OF this] show ?thesis by simp
qed

lemma augment_frame [simp]:
  "rb_root (lib_idtreeAugment n h) = rb_root h" "rb_parent (lib_idtreeAugment n h) = rb_parent h"
  "rb_left (lib_idtreeAugment n h) = rb_left h" "rb_right (lib_idtreeAugment n h) = rb_right h"
  "rb_color (lib_idtreeAugment n h) = rb_color h" "idn (lib_idtreeAugment n h) = idn h"
  unfolding lib_idtreeAugment_def
  by (cases "idtree_augment_loops n h"; simp add: augment_loops_frame)+

interpretation idtree: rb_augmented lib_idtreeAugment
  by unfold_locales simp_all

interpretation idpay: rb_payload lib_idtreeAugment idn
  by unfold_locales (simp_all add: set_parent_def set_left_def set_right_def set_color_def)

text \<open>The loops of the callback end on every tree.\<close>

lemma rep_parent_step:
  assumes "rep h (s # C) x t" and "t \<noteq> Leaf"
  obtains t' where "rb_parent h x = par (s # C)" and "rep h C (par (s # C)) t'" and "t' \<noteq> Leaf"
  using rep_parent [OF assms] rep_up [of h "[s]" C x t] assms(1) by (cases s) fastforce+

lemma left_neighbour_returns: "rep h C x t \<Longrightarrow> t \<noteq> Leaf \<Longrightarrow> \<exists>q. augment_left_neighbour h x p = Some q"
proof (induction C arbitrary: x t p)
  case Nil
  then show ?case using rep_parent by (subst augment_left_neighbour.simps) fastforce
next
  case (Cons s C)
  from rep_parent_step [OF Cons.prems] obtain t'
    where p: "rb_parent h x = par (s # C)" and R: "rep h C (par (s # C)) t'" "t' \<noteq> Leaf" by metis
  from Cons.IH [OF R, of "par (s # C)"] show ?case by (subst augment_left_neighbour.simps) (simp add: Let_def p)
qed

lemma right_neighbour_returns: "rep h C x t \<Longrightarrow> t \<noteq> Leaf \<Longrightarrow> \<exists>q. augment_right_neighbour h x p = Some q"
proof (induction C arbitrary: x t p)
  case Nil
  then show ?case using rep_parent by (subst augment_right_neighbour.simps) fastforce
next
  case (Cons s C)
  from rep_parent_step [OF Cons.prems] obtain t'
    where p: "rb_parent h x = par (s # C)" and R: "rep h C (par (s # C)) t'" "t' \<noteq> Leaf" by metis
  from Cons.IH [OF R, of "par (s # C)"] show ?case by (subst augment_right_neighbour.simps) (simp add: Let_def p)
qed

lemma rep_links:
  assumes "rb_root h' = rb_root h" and "rb_parent h' = rb_parent h" and "rb_left h' = rb_left h"
    and "rb_right h' = rb_right h" and "rb_color h' = rb_color h"
  shows "rep h' C x t = rep h C x t"
proof -
  have "agree h h' A" "agree h' h A" for A using assms by (simp_all add: agree_def)
  then show ?thesis unfolding rep_def using tree_at_agree ctx_at_agree assms(1) by metis
qed

lemma rep_gaps [simp]:
  "rep (h\<lparr>lmaxgap := f\<rparr>) C x t = rep h C x t" "rep (h\<lparr>rmaxgap := f\<rparr>) C x t = rep h C x t"
  "rep (h\<lparr>idn := g\<rparr>) C x t = rep h C x t" for h :: idheap
  by (rule rep_links; simp)+

lemma propagate_returns: "rep h C x t \<Longrightarrow> t \<noteq> Leaf \<Longrightarrow> \<exists>h'. augment_propagate x h = Some h'"
proof (induction C arbitrary: x t h)
  case Nil
  then have "rb_parent h x = NULL" using rep_parent by fastforce
  then show ?case by (subst augment_propagate.simps) simp
next
  case (Cons s C)
  from rep_parent_step [OF Cons.prems] obtain t'
    where p: "rb_parent h x = par (s # C)" and R: "rep h C (par (s # C)) t'" "t' \<noteq> Leaf" by metis
  have "\<exists>h'. augment_propagate (par (s # C)) (h\<lparr>lmaxgap := f\<rparr>) = Some h'"
    "\<exists>h'. augment_propagate (par (s # C)) (h\<lparr>rmaxgap := f\<rparr>) = Some h'" for f
    using R by (auto intro!: Cons.IH)
  then show ?case by (subst augment_propagate.simps) (simp add: Let_def p)
qed

lemma idtree_augment_returns:
  assumes R: "rep h C n t" "t \<noteq> Leaf"
  shows "\<exists>h'. idtree_augment_loops n h = Some h'"
proof -
  have "augment_lgap n h \<noteq> None" using left_neighbour_returns [OF R, of n] by (auto simp: augment_lgap_def Let_def)
  then obtain g where g: "augment_lgap n h = Some g" by auto
  let ?h = "h\<lparr>lmaxgap := (lmaxgap h)(n := g)\<rparr>"
  have R': "rep ?h C n t" using R(1) by simp
  obtain q where q: "augment_right_neighbour ?h n n = Some q" using right_neighbour_returns [OF R' R(2)] by blast
  have "augment_rgap n ?h \<noteq> None" unfolding augment_rgap_def q Let_def by simp
  then obtain g' where g': "augment_rgap n ?h = Some g'" by auto
  have "rep (?h\<lparr>rmaxgap := (rmaxgap ?h)(n := g')\<rparr>) C n t" using R' by (simp only: rep_gaps)
  from propagate_returns [OF this R(2)] show ?thesis
    unfolding idtree_augment_loops_def Let_def g option.case g' .
qed

section \<open>A finite map from identifiers to nodes\<close>

lemma inj_on_strict_sorted: "sorted_wrt (\<lambda>a b. f a < (f b :: int)) xs \<Longrightarrow> inj_on f (set xs)"
  using strict_sorted_iff [of "map f xs"] by (simp add: sorted_wrt_map distinct_map)

definition id_nodes :: "idheap \<Rightarrow> addr list \<Rightarrow> bool" where
  "id_nodes h xs \<longleftrightarrow> rb_nodes h xs \<and> sorted_wrt (\<lambda>a b. idn h a < idn h b) xs"

definition node_of_id :: "idheap \<Rightarrow> addr list \<Rightarrow> int \<Rightarrow> addr" where
  "node_of_id h xs i = (case find (\<lambda>a. idn h a = i) xs of None \<Rightarrow> NULL | Some a \<Rightarrow> a)"

lemma idtreeFind_nodes:
  assumes "id_nodes h xs"
  shows "lib_idtreeFind h i = Some (node_of_id h xs i)"
proof -
  let ?c = "\<lambda>n1 n2. idn h n1 - i"
  have "search_cut ?c NULL xs" unfolding search_cut_def
    by (rule sorted_wrt_mono_rel [of _ "\<lambda>a b. idn h a < idn h b"]) (use assms in \<open>auto simp: id_nodes_def\<close>)
  from rb_nodes_find [of h, OF _ this] show ?thesis
    using assms by (simp add: lib_idtreeFind_def node_of_id_def id_nodes_def)
qed

lemma node_of_id_iff:
  assumes "id_nodes h xs"
  shows "node_of_id h xs i = a \<longleftrightarrow> (if i \<in> idn h ` set xs then a \<in> set xs \<and> idn h a = i else a = NULL)"
proof (cases "find (\<lambda>a. idn h a = i) xs")
  case None
  then have "i \<notin> idn h ` set xs" by (auto simp: find_None_iff)
  then show ?thesis using None by (auto simp: node_of_id_def)
next
  case (Some b)
  then have b: "b \<in> set xs" "idn h b = i" by (auto simp: find_Some_iff)
  have "inj_on (idn h) (set xs)" using assms by (simp add: id_nodes_def inj_on_strict_sorted)
  then have "a = b" if "a \<in> set xs" "idn h a = i" using b that by (auto dest: inj_onD)
  moreover have "node_of_id h xs i = b" using Some by (simp add: node_of_id_def)
  moreover have "i \<in> idn h ` set xs" using b by (metis image_eqI)
  ultimately show ?thesis using b by metis
qed

section \<open>Inserting, removing and allocating\<close>

lemma idtree_insert_nodes:
  assumes N: "id_nodes h xs" and z: "z \<noteq> NULL" "z \<notin> set xs" and new: "idn h z \<notin> idn h ` set xs"
  obtains h' ys where "lib_idtreeInsert z h = Some (h', EOK)" and "id_nodes h' ys" and "set ys = insert z (set xs)" and "idn h' = idn h"
proof -
  have s: "rb_nodes h xs" "sorted_wrt (\<lambda>a b. idn h a < idn h b) xs" using N by (auto simp: id_nodes_def)
  have nz: "lib_idtreeCmp h a z \<noteq> 0" if "a \<in> set xs" for a using that new idorder.compare_equal by (metis image_eqI)
  let ?ys = "ordered_insert (lib_idtreeCmp h) z xs"
  obtain h' where h': "lib_rbInsert lib_idtreeAugment (lib_idtreeCmp h) z h = Some (h', EOK)" "rb_nodes h' ?ys"
    using idtree.insert_new [OF s(1) idorder.key_search_cut [OF s(2)] nz z] by blast
  have i: "idn h' = idn h" using idpay.field_insert [OF h'(1)] .
  have "id_nodes h' ?ys" using h'(2) idorder.key_ordered_insert [OF s(2) new] i by (simp add: id_nodes_def)
  moreover have "set ?ys = insert z (set xs)" by simp
  ultimately show thesis using that h'(1) i by (simp add: lib_idtreeInsert_def)
qed

lemma idtree_remove_nodes:
  assumes N: "id_nodes h xs" and z: "z \<in> set xs" and nil: "nil \<noteq> NULL" "nil \<notin> set xs"
  obtains h' where "lib_idtreeRemove nil z h = Some h'" and "id_nodes h' (remove1 z xs)" and "idn h' = idn h" and "z \<notin> set (remove1 z xs)"
proof -
  obtain as bs where xs: "xs = as @ z # bs" and za: "z \<notin> set as" using z split_list_first by metis
  then obtain h' where h': "lib_rbRemove lib_idtreeAugment nil z h = Some h'" "rb_nodes h' (as @ bs)"
    using idtree.remove_node [of h as z bs nil] N nil by (auto simp: id_nodes_def)
  have i: "idn h' = idn h" using idpay.field_remove [OF h'(1)] .
  have "id_nodes h' (as @ bs)" using h'(2) N i xs by (auto simp: id_nodes_def sorted_wrt_append)
  moreover have "z \<notin> set (as @ bs)" using N xs rb_nodes_distinct by (fastforce simp: id_nodes_def)
  ultimately show thesis using that h'(1) i xs za by (simp add: lib_idtreeRemove_def remove1_append)
qed

lemma id_nodes_upd:
  assumes "id_nodes h xs" and "z \<notin> set xs"
  shows "id_nodes (h\<lparr>idn := (idn h)(z := i)\<rparr>) xs"
proof -
  have "rb_nodes (h\<lparr>idn := (idn h)(z := i)\<rparr>) xs" using assms(1) by (simp add: id_nodes_def rb_nodes_def)
  moreover have "sorted_wrt (\<lambda>a b. ((idn h)(z := i)) a < ((idn h)(z := i)) b) xs"
    by (rule sorted_wrt_mono_rel [of _ "\<lambda>a b. idn h a < idn h b"]) (use assms in \<open>auto simp: id_nodes_def\<close>)
  ultimately show ?thesis by (simp add: id_nodes_def)
qed

text \<open>An allocation that returns an identifier has added the node under it; one that fails has changed nothing but the node.\<close>

lemma idtree_alloc_nodes:
  assumes N: "id_nodes h xs" and z: "z \<noteq> NULL" "z \<notin> set xs" and a: "lib_idtreeAlloc z mn h = Some (Returned (h', i))"
  shows "i = -1 \<and> id_nodes h' xs \<and> (\<forall>x. x \<noteq> z \<longrightarrow> idn h' x = idn h x) \<or>
    (\<exists>ys. id_nodes h' ys \<and> set ys = insert z (set xs) \<and> idn h' = (idn h)(z := i) \<and> i \<notin> idn h ` set xs)"
proof (cases "mn > MAX_ID \<or> alloc_choose (h\<lparr>idn := (idn h)(z := mn)\<rparr>) mn = Some None")
  case True
  then have "i = -1 \<and> (h' = h \<or> h' = h\<lparr>idn := (idn h)(z := mn)\<rparr>)" using a by (auto simp: lib_idtreeAlloc_def split: if_splits)
  then show ?thesis using id_nodes_upd [OF N z(2)] N by auto
next
  case False
  let ?h = "h\<lparr>idn := (idn h)(z := i)\<rparr>"
  obtain r where r: "lib_idtreeFind ?h i = Some NULL" "lib_idtreeInsert z ?h = Some (h', r)"
    using a False by (auto simp: lib_idtreeAlloc_def Let_def split: option.splits if_splits)
  have N': "id_nodes ?h xs" by (rule id_nodes_upd [OF N z(2)])
  have im: "idn ?h ` set xs = idn h ` set xs" using z(2) by (intro image_cong) auto
  have "node_of_id ?h xs i = NULL" using idtreeFind_nodes [OF N', of i] r(1) by simp
  moreover have "NULL \<notin> set xs" using N rb_nodes_distinct by (auto simp: id_nodes_def)
  ultimately have new: "idn ?h z \<notin> idn ?h ` set xs" using node_of_id_iff [OF N', of i NULL] by (auto split: if_splits)
  from idtree_insert_nodes [OF N' z new] obtain h'' ys where
    "lib_idtreeInsert z ?h = Some (h'', EOK)" "id_nodes h'' ys" "set ys = insert z (set xs)" "idn h'' = idn ?h" .
  then show ?thesis using r(2) new im by auto
qed

section \<open>Concrete trees\<close>

declare augment_left_neighbour.simps [code] augment_right_neighbour.simps [code] augment_propagate.simps [code]
  alloc_climb.simps [code] alloc_descend.simps [code] lib_rbFindEx.simps [code] lib_rbInsertBalance.simps [code]
  rb_insert_descend.simps [code]

definition idheap0 :: idheap where
  "idheap0 = \<lparr>rb_root = NULL, rb_parent = (\<lambda>_. NULL), rb_left = (\<lambda>_. NULL), rb_right = (\<lambda>_. NULL),
     rb_color = (\<lambda>_. RB_RED), lmaxgap = (\<lambda>_. 0), rmaxgap = (\<lambda>_. 0), idn = (\<lambda>_. 0)\<rparr>"

definition alloc_all :: "(addr \<times> int) list \<Rightarrow> (idheap \<times> int) asserted option" where
  "alloc_all ns = foldl (\<lambda>r (n, mn). case r of Some (Returned (h, _)) \<Rightarrow> lib_idtreeAlloc n mn h | _ \<Rightarrow> r)
     (Some (Returned (lib_idtreeInit idheap0, 0))) ns"

definition id_sample :: idheap where
  "id_sample = idheap0\<lparr>rb_root := 5, rb_parent := (\<lambda>_. NULL)(3 := 5, 8 := 5), rb_left := (\<lambda>_. NULL)(5 := 3),
     rb_right := (\<lambda>_. NULL)(5 := 8), rb_color := (\<lambda>_. RB_RED)(5 := RB_BLACK), idn := int\<rparr>"

lemma id_sample_nodes: "id_nodes id_sample [3, 5, 8]"
proof -
  have "rb_nodes id_sample [3, 5, 8]" unfolding rb_nodes_def
    by (intro exI [of _ "Node (Node Leaf 3 RB_RED Leaf) 5 RB_BLACK (Node Leaf 8 RB_RED Leaf)"])
      (simp add: rep_def id_sample_def idheap0_def rb_tree_def)
  then show ?thesis by (simp add: id_nodes_def id_sample_def idheap0_def)
qed

section \<open>Properties\<close>



text \<open>\<open>lib_idtreeRemove\<close> takes the identifier of the node out of the map and changes no other entry.\<close>

theorem idtree_remove_find:
  assumes N: "id_nodes h xs" and z: "z \<in> set xs" and nil: "nil \<noteq> NULL" "nil \<notin> set xs"
  shows "\<exists>h'. lib_idtreeRemove nil z h = Some h' \<and> id_nodes h' (remove1 z xs) \<and>
    (\<forall>i. lib_idtreeFind h' i = (if i = idn h z then Some NULL else lib_idtreeFind h i))"
proof -
  from idtree_remove_nodes [OF N z nil] obtain h' where
    h': "lib_idtreeRemove nil z h = Some h'" and N': "id_nodes h' (remove1 z xs)" and i: "idn h' = idn h" and d: "z \<notin> set (remove1 z xs)" .
  have inj: "inj_on (idn h) (set xs)" using N inj_on_strict_sorted by (auto simp: id_nodes_def)
  have "distinct xs" using N rb_nodes_distinct by (auto simp: id_nodes_def)
  then have xs: "set xs = insert z (set (remove1 z xs))" using z by (auto simp: set_remove1_eq)
  define ys where "ys = remove1 z xs"
  have "lib_idtreeFind h' j = (if j = idn h z then Some NULL else lib_idtreeFind h j)" for j
    unfolding idtreeFind_nodes [OF N] idtreeFind_nodes [OF N']
    using node_of_id_iff [OF N', of j "if j = idn h z then NULL else node_of_id h xs j"] d xs inj
      node_of_id_iff [OF N, of j "node_of_id h xs j"] unfolding i ys_def [symmetric] by (auto split: if_splits simp: inj_on_def)
  then show ?thesis using h' N' by blast
qed

theorem idtree_remove_find_witness:
  "\<exists>h'. lib_idtreeRemove 9 5 id_sample = Some h' \<and> id_nodes h' [3, 8] \<and> lib_idtreeFind h' 5 = Some NULL"
  using idtree_remove_find [OF id_sample_nodes, of 5 9] by (auto simp: id_sample_def)

text \<open>with the identifiers 6, 2, 10 and 5 in use, \<open>lib_idtreeAlloc\<close> asked for an identifier not below 5
  returns 4, although 7 is free: the climb to an ancestor with room on its right also takes ancestors below the
  minimum.\<close>

theorem idtree_alloc_below_minimum:
  "(case alloc_all [(1, 6), (2, 2), (3, 10), (4, 5), (5, 5)] of
      Some (Returned (h, i)) \<Rightarrow> i = 4 \<and> lib_idtreeFind h 7 = Some NULL
    | _ \<Rightarrow> False)"
  by code_simp

end
