(* ===== verification/Proc_State.thy ===== *)
theory Proc_State
  imports Lib_List Lib_CBuffer Lib_IdTree
begin

text \<open>
  The state of the thread manager of \<^verbatim>\<open>proc/threads.c\<close>: the threads, the scheduler
  queues, the wait queues, the tree of sleeping threads and the event trace. The circular lists of
  threads are sequences (\<open>LIST_ADD\<close>, \<open>LIST_REMOVE\<close>), the tree of sleeping threads is the sequence of
  its nodes in order, as \<open>rb_insert_correct\<close> and \<open>rb_remove_correct\<close> allow. Every operation runs under
  \<open>threads_common.spinlock\<close>, so it is one step of the state. The assertions of debug builds are no
  steps of the model; that they hold is proved.

  The tree of thread identifiers is the one of \<^verbatim>\<open>lib/idtree.c\<close> at pointer level; its nodes are the
  threads.

  Times are 64-bit unsigned integers, which wrap around. \<open>hal_timerGetUs\<close> is hardware: its
  successive readings are the function \<open>hal_timer\<close> of the state, and \<open>reads\<close> counts them. Whether the
  hardware layer can push a signal frame is \<open>hal_cpuPushSignal\<close>.
\<close>

section \<open>Threads, queues, processes\<close>

type_synonym time = "64 word"

datatype tstate = READY | SLEEP | GHOST

text \<open>
  The address of a wait queue, a variable of type \<open>thread_t *\<close>: the one of the reaper, the queue of a
  lock, the reaper queue of a process, or a queue of another kernel object.
\<close>

datatype qaddr = Qreaper | Qlock addr | Qproc addr | Qobj addr

text \<open>A wait queue holds threads, or the value \<open>wakeupPending\<close>; the null pointer is the empty queue.\<close>

datatype waitq = WakeupPending | Queue "addr list"

fun waiting :: "waitq \<Rightarrow> addr list" where
  "waiting WakeupPending = []"
| "waiting (Queue ts) = ts"

record thread =
  t_locks :: "addr list"
  t_process :: addr
  t_refs :: int
  t_wait :: "qaddr option"
  t_wakeup :: time
  t_priorityBase :: nat
  t_priority :: nat
  t_state :: tstate
  t_exit :: bool
  t_interruptible :: bool
  t_sigmask :: "32 word"
  t_sigpend :: "32 word"
  t_readyTime :: time
  t_maxWait :: time
  t_startTime :: time
  t_cpuTime :: time
  t_lastTime :: time
  t_supervisor :: bool
  t_retval :: int

record process =
  p_threads :: "addr list"
  p_ghosts :: "addr list"
  p_refs :: int
  p_pmapp :: addr
  p_sigpend :: "32 word"
  p_sighandler :: addr
  p_pid :: int

record kernel =
  thr :: "addr \<Rightarrow> thread"
  procs :: "addr \<Rightarrow> process"
  ready :: "nat \<Rightarrow> addr list"
  current :: "nat \<Rightarrow> addr"
  ncpu :: nat
  sleeping :: "addr list"
  queues :: "qaddr \<Rightarrow> waitq"
  ghosts :: "addr list"
  owner :: "addr \<Rightarrow> addr"
  tids :: idheap
  idcounter :: int
  utcoffs :: time
  hal_timer :: "nat \<Rightarrow> time"
  hal_cpuPushSignal :: "addr \<Rightarrow> nat \<Rightarrow> bool"
  reads :: nat
  prev :: time
  timer_wakeup :: time
  perfGather :: bool
  perfLastTimestamp :: time
  perfBuffer :: "nat cbuffer"

text \<open>The number of scheduler queues, \<open>sizeof(threads_common.ready) / sizeof(thread_t *)\<close>.\<close>

definition nprio :: nat where
  "nprio = 8"

definition SYSTICK_INTERVAL :: time where
  "SYSTICK_INTERVAL = 10000"

definition upd_thr :: "addr \<Rightarrow> (thread \<Rightarrow> thread) \<Rightarrow> 'a kernel_scheme \<Rightarrow> 'a kernel_scheme" where
  "upd_thr t f st = st\<lparr>thr := (thr st)(t := f (thr st t))\<rparr>"

definition set_queue :: "qaddr \<Rightarrow> waitq \<Rightarrow> 'a kernel_scheme \<Rightarrow> 'a kernel_scheme" where
  "set_queue q w st = st\<lparr>queues := (queues st)(q := w)\<rparr>"

definition set_ready :: "nat \<Rightarrow> addr list \<Rightarrow> 'a kernel_scheme \<Rightarrow> 'a kernel_scheme" where
  "set_ready p ts st = st\<lparr>ready := (ready st)(p := ts)\<rparr>"

definition upd_proc :: "addr \<Rightarrow> (process \<Rightarrow> process) \<Rightarrow> 'a kernel_scheme \<Rightarrow> 'a kernel_scheme" where
  "upd_proc p f st = st\<lparr>procs := (procs st)(p := f (procs st p))\<rparr>"

definition proc_getTid :: "'a kernel_scheme \<Rightarrow> addr \<Rightarrow> int" where
  "proc_getTid st t = idn (tids st) t"

definition proc_gettimeRaw :: "'a kernel_scheme \<Rightarrow> time \<times> 'a kernel_scheme" where
  "proc_gettimeRaw st = (let now = hal_timer st (reads st) in (now, st\<lparr>reads := reads st + 1, prev := now\<rparr>))"

definition threads_sleepcmp :: "'a kernel_scheme \<Rightarrow> addr \<Rightarrow> addr \<Rightarrow> int" where
  "threads_sleepcmp st t1 t2 =
     (if t_wakeup (thr st t1) \<noteq> t_wakeup (thr st t2)
      then (if t_wakeup (thr st t1) > t_wakeup (thr st t2) then 1 else -1)
      else (if proc_getTid st t1 > proc_getTid st t2 then 1 else -1))"

section \<open>Thread monitoring\<close>

definition perf_idpack :: "nat \<Rightarrow> nat" where
  "perf_idpack i = i div 2 ^ 8"

text \<open>
  A packed C bit field: the first member takes the lowest bits. \<open>pack_bytes n\<close> is the structure in
  \<open>n\<close> bytes, lowest byte first, and \<open>unpack_fields\<close> reads the members back.
\<close>

fun pack_fields :: "(nat \<times> nat) list \<Rightarrow> nat" where
  "pack_fields [] = 0"
| "pack_fields ((v, w) # fs) = v mod 2 ^ w + 2 ^ w * pack_fields fs"

fun unpack_fields :: "nat list \<Rightarrow> nat \<Rightarrow> nat list" where
  "unpack_fields [] n = []"
| "unpack_fields (w # ws) n = n mod 2 ^ w # unpack_fields ws (n div 2 ^ w)"

fun pack_bytes :: "nat \<Rightarrow> nat \<Rightarrow> nat list" where
  "pack_bytes 0 n = []"
| "pack_bytes (Suc k) n = n mod 256 # pack_bytes k (n div 256)"

fun unpack_bytes :: "nat list \<Rightarrow> nat" where
  "unpack_bytes [] = 0"
| "unpack_bytes (b # bs) = b + 256 * unpack_bytes bs"

datatype perf_ev = perf_evScheduling | perf_evEnqueued | perf_evWaking | perf_evPreempted

fun perf_ev_code :: "perf_ev \<Rightarrow> nat" where
  "perf_ev_code perf_evScheduling = 0"
| "perf_ev_code perf_evEnqueued = 1"
| "perf_ev_code perf_evWaking = 2"
| "perf_ev_code perf_evPreempted = 3"

definition perf_event_bytes :: "time \<Rightarrow> perf_ev \<Rightarrow> nat \<Rightarrow> nat list" where
  "perf_event_bytes delta ty tid = pack_bytes 4 (pack_fields [(unat delta, 12), (perf_ev_code ty, 2), (tid, 18)])"

definition perf_write :: "nat list \<Rightarrow> 'a kernel_scheme \<Rightarrow> 'a kernel_scheme" where
  "perf_write ev st = st\<lparr>perfBuffer := fst (cbuffer_write (perfBuffer st) ev (length ev))\<rparr>"

definition perf_tid :: "'a kernel_scheme \<Rightarrow> addr \<Rightarrow> nat" where
  "perf_tid st t = perf_idpack (nat (proc_getTid st t))"

definition perf_event :: "addr \<Rightarrow> perf_ev \<Rightarrow> 'a kernel_scheme \<Rightarrow> 'a kernel_scheme" where
  "perf_event t ty st =
     (let (now, st) = proc_gettimeRaw st;
          st = (if ty = perf_evWaking \<or> ty = perf_evPreempted then upd_thr t (\<lambda>r. r\<lparr>t_readyTime := now\<rparr>) st
                else if ty = perf_evScheduling then
                  (let wait = now - t_readyTime (thr st t)
                   in if t_maxWait (thr st t) < wait then upd_thr t (\<lambda>r. r\<lparr>t_maxWait := wait\<rparr>) st else st)
                else st)
      in if \<not> perfGather st then st
         else (let delta = now - perfLastTimestamp st
               in perf_write (perf_event_bytes delta ty (perf_tid st t)) (st\<lparr>perfLastTimestamp := now\<rparr>)))"

definition perf_scheduling :: "addr \<Rightarrow> 'a kernel_scheme \<Rightarrow> 'a kernel_scheme" where
  "perf_scheduling t st = perf_event t perf_evScheduling st"

definition perf_preempted :: "addr \<Rightarrow> 'a kernel_scheme \<Rightarrow> 'a kernel_scheme" where
  "perf_preempted t st = perf_event t perf_evPreempted st"

definition perf_enqueued :: "addr \<Rightarrow> 'a kernel_scheme \<Rightarrow> 'a kernel_scheme" where
  "perf_enqueued t st = perf_event t perf_evEnqueued st"

definition perf_waking :: "addr \<Rightarrow> 'a kernel_scheme \<Rightarrow> 'a kernel_scheme" where
  "perf_waking t st = perf_event t perf_evWaking st"

text \<open>
  The longer events open with a zero word. The identifier \<open>-1\<close> of a thread without a process fills the
  18 bits of its field with ones.
\<close>

definition perf_pid :: "'a kernel_scheme \<Rightarrow> addr \<Rightarrow> nat" where
  "perf_pid st p = (if p \<noteq> NULL then perf_idpack (nat (p_pid (procs st p))) else 2 ^ 18 - 1)"

definition perf_stamp :: "'a kernel_scheme \<Rightarrow> time \<times> 'a kernel_scheme" where
  "perf_stamp st = (let (now, st) = proc_gettimeRaw st
     in (now - perfLastTimestamp st, st\<lparr>perfLastTimestamp := now\<rparr>))"

definition perf_begin :: "addr \<Rightarrow> 'a kernel_scheme \<Rightarrow> 'a kernel_scheme" where
  "perf_begin t st =
     (if \<not> perfGather st then st
      else (let (delta, st) = perf_stamp st
            in perf_write (pack_bytes 11 (pack_fields [(0, 32), (unat delta, 12), (0, 3), (t_priority (thr st t), 3),
                 (perf_tid st t, 18), (perf_pid st (t_process (thr st t)), 18)])) st))"

definition perf_end :: "addr \<Rightarrow> 'a kernel_scheme \<Rightarrow> 'a kernel_scheme" where
  "perf_end t st =
     (if \<not> perfGather st then st
      else (let (delta, st) = perf_stamp st
            in perf_write (pack_bytes 9 (pack_fields [(0, 32), (unat delta, 12), (1, 3), (perf_tid st t, 18)])) st))"

text \<open>The member \<open>ppid\<close> of the fork event is never assigned: its bits are an argument.\<close>

definition perf_fork :: "nat \<Rightarrow> nat \<Rightarrow> addr \<Rightarrow> 'a kernel_scheme \<Rightarrow> 'a kernel_scheme" where
  "perf_fork ppid cpu p st =
     (if \<not> perfGather st then st
      else (let (delta, st) = perf_stamp st
            in perf_write (pack_bytes 13 (pack_fields [(0, 32), (unat delta, 12), (2, 3),
                 (perf_tid st (current st cpu), 18), (ppid, 18), (perf_idpack (nat (p_pid (procs st p))), 18)])) st))"

definition perf_kill :: "nat \<Rightarrow> addr \<Rightarrow> 'a kernel_scheme \<Rightarrow> 'a kernel_scheme" where
  "perf_kill cpu p st =
     (if \<not> perfGather st then st
      else (let (delta, st) = perf_stamp st
            in perf_write (pack_bytes 11 (pack_fields [(0, 32), (unat delta, 12), (3, 3),
                 (perf_tid st (current st cpu), 18), (perf_idpack (nat (p_pid (procs st p))), 18)])) st))"

text \<open>The path is cut to the 31 characters that fit before its terminating zero.\<close>

definition perf_exec :: "nat \<Rightarrow> nat list \<Rightarrow> 'a kernel_scheme \<Rightarrow> 'a kernel_scheme" where
  "perf_exec cpu path st =
     (if \<not> perfGather st then st
      else (let (delta, st) = perf_stamp st;
                plen = min (length path) 31
            in perf_write (pack_bytes 9 (pack_fields [(0, 32), (unat delta, 12), (4, 3), (perf_tid st (current st cpu), 18)])
                 @ take plen path @ [0]) st))"

text \<open>\<open>perf_start\<close>: \<open>data\<close> is the buffer \<open>perf_bufferAlloc\<close> mapped, \<open>None\<close> when it failed.\<close>

definition perf_start :: "nat list option \<Rightarrow> nat \<Rightarrow> 'a kernel_scheme \<Rightarrow> 'a kernel_scheme \<times> int" where
  "perf_start data pid st =
     (if pid = 0 then (st, - EINVAL)
      else if perfGather st then (st, - EINVAL)
      else (case data of
              None \<Rightarrow> (st, - ENOMEM)
            | Some d \<Rightarrow>
                (let st = st\<lparr>perfBuffer := cbuffer_init d (4 * 2 ^ 20)\<rparr>;
                     st = st\<lparr>perfGather := True\<rparr>;
                     (now, st) = proc_gettimeRaw st
                 in (st\<lparr>perfLastTimestamp := now\<rparr>, EOK))))"

definition perf_read :: "nat \<Rightarrow> 'a kernel_scheme \<Rightarrow> 'a kernel_scheme \<times> nat list \<times> nat" where
  "perf_read bufsz st =
     (let (b, out, n) = cbuffer_read (perfBuffer st) bufsz in (st\<lparr>perfBuffer := b\<rparr>, out, n))"

definition perf_finish :: "'a kernel_scheme \<Rightarrow> 'a kernel_scheme \<times> int" where
  "perf_finish st = (if perfGather st then (st\<lparr>perfGather := False\<rparr>, EOK) else (st, EOK))"

section \<open>What the monitoring leaves alone\<close>

text \<open>
  \<open>same_sched st st'\<close>: the two states agree on everything the scheduler decides by. The monitoring
  changes the clock, the trace and the two wait-time statistics of a thread only.
\<close>

definition sched_view :: "thread \<Rightarrow> thread" where
  "sched_view r = r\<lparr>t_readyTime := 0, t_maxWait := 0\<rparr>"

definition same_sched :: "'a kernel_scheme \<Rightarrow> 'a kernel_scheme \<Rightarrow> bool" where
  "same_sched st st' \<longleftrightarrow> (\<forall>t. sched_view (thr st' t) = sched_view (thr st t)) \<and> procs st' = procs st \<and>
     ready st' = ready st \<and> current st' = current st \<and> ncpu st' = ncpu st \<and> sleeping st' = sleeping st \<and>
     queues st' = queues st \<and> ghosts st' = ghosts st \<and> owner st' = owner st \<and> tids st' = tids st \<and>
     hal_timer st' = hal_timer st \<and> hal_cpuPushSignal st' = hal_cpuPushSignal st"

end
