(* ===== verification/Proc_Sched.thy ===== *)
theory Proc_Sched
  imports Proc_State Lib_Search
begin

text \<open>
  The scheduler, the wait queues and the sleeping threads of \<^verbatim>\<open>proc/threads.c\<close>. A call that
  blocks ends with \<open>hal_cpuReschedule\<close>, which saves the context of the calling thread and runs the
  scheduler; the value the call returns when the thread runs again is then in \<open>t_retval\<close>.
\<close>

section \<open>Model\<close>

unbundle bit_operations_syntax

definition is_current :: "'a kernel_scheme \<Rightarrow> addr \<Rightarrow> bool" where
  "is_current st t \<longleftrightarrow> t \<in> set (map (current st) [0..<ncpu st])"

definition threads_updateWakeup :: "time \<Rightarrow> addr \<Rightarrow> 'a kernel_scheme \<Rightarrow> 'a kernel_scheme" where
  "threads_updateWakeup now mn st =
     (let t = (if mn \<noteq> NULL then mn else first_or_null (sleeping st));
          wakeup = (if t \<noteq> NULL
                    then (if now \<ge> t_wakeup (thr st t) then 1 else t_wakeup (thr st t) - now)
                    else SYSTICK_INTERVAL);
          wakeup = (if wakeup > SYSTICK_INTERVAL + SYSTICK_INTERVAL div 8 then SYSTICK_INTERVAL else wakeup)
      in st\<lparr>timer_wakeup := wakeup\<rparr>)"

text \<open>The thread leaves the queue it waits on and the tree of sleeping threads, and becomes ready.\<close>

definition proc_threadDequeue :: "addr \<Rightarrow> 'a kernel_scheme \<Rightarrow> 'a kernel_scheme" where
  "proc_threadDequeue t st =
     (if t_state (thr st t) = GHOST then st
      else
        (let st = perf_waking t st;
             st = (case t_wait (thr st t) of
                     None \<Rightarrow> st
                   | Some q \<Rightarrow> set_queue q (Queue (LIST_REMOVE (waiting (queues st q)) t)) st);
             st = (if t_wakeup (thr st t) \<noteq> 0 then st\<lparr>sleeping := remove1 t (sleeping st)\<rparr> else st);
             st = upd_thr t (\<lambda>r. r\<lparr>t_wakeup := 0, t_wait := None, t_state := READY, t_interruptible := False\<rparr>) st
         in if is_current st t then st
            else set_ready (t_priority (thr st t)) (LIST_ADD (ready st (t_priority (thr st t))) t) st))"

definition threadWakeup :: "qaddr \<Rightarrow> 'a kernel_scheme \<Rightarrow> 'a kernel_scheme \<times> int" where
  "threadWakeup q st =
     (case queues st q of
        Queue (t # ts) \<Rightarrow> (proc_threadDequeue t st, 1)
      | _ \<Rightarrow> (set_queue q WakeupPending st, 0))"

text \<open>The loop of \<open>_proc_threadBroadcast\<close>: \<open>do ... while\<close> the queue holds a thread.\<close>

partial_function (option) threadBroadcast :: "qaddr \<Rightarrow> int \<Rightarrow> 'a kernel_scheme \<Rightarrow> ('a kernel_scheme \<times> int) option" where
  "threadBroadcast q ret st =
     (let (st, r) = threadWakeup q st
      in case queues st q of
           Queue (t # ts) \<Rightarrow> threadBroadcast q (ret + r) st
         | _ \<Rightarrow> Some (st, ret + r))"

definition threads_cpuTimeCalc :: "addr \<Rightarrow> addr \<Rightarrow> 'a kernel_scheme \<Rightarrow> 'a kernel_scheme" where
  "threads_cpuTimeCalc cur sel st =
     (let (now, st) = proc_gettimeRaw st;
          st = (if cur \<noteq> NULL
                then upd_thr cur (\<lambda>r. r\<lparr>t_cpuTime := t_cpuTime r + (now - t_lastTime r), t_lastTime := now\<rparr>) st
                else st)
      in if sel \<noteq> NULL \<and> cur \<noteq> sel then upd_thr sel (\<lambda>r. r\<lparr>t_lastTime := now\<rparr>) st else st)"

text \<open>The highest pending signal that the thread does not mask is delivered and cleared.\<close>

definition threads_checkSignal :: "addr \<Rightarrow> addr \<Rightarrow> 'a kernel_scheme \<Rightarrow> 'a kernel_scheme \<times> int" where
  "threads_checkSignal sel proc st =
     (let sig = (t_sigpend (thr st sel) OR p_sigpend (procs st proc)) AND NOT (t_sigmask (thr st sel))
      in if sig \<noteq> 0 \<and> p_sighandler (procs st proc) \<noteq> NULL then
           (let s = hal_cpuGetLastBit (unat sig)
            in if hal_cpuPushSignal st sel s then
                 (let st = upd_thr sel (\<lambda>r. r\<lparr>t_sigpend := t_sigpend r AND NOT (push_bit s 1)\<rparr>) st
                  in (upd_proc proc (\<lambda>p. p\<lparr>p_sigpend := p_sigpend p AND NOT (push_bit s 1)\<rparr>) st, 0))
               else (st, -1))
         else (st, -1))"

text \<open>The search for the next thread: a thread that must exit and is in user mode becomes a ghost.\<close>

partial_function (option) schedule_select :: "nat \<Rightarrow> 'a kernel_scheme \<Rightarrow> (addr \<times> 'a kernel_scheme) option" where
  "schedule_select i st =
     (if i < nprio then
        (case ready st i of
           [] \<Rightarrow> schedule_select (i + 1) st
         | t # ts \<Rightarrow>
             (let st = set_ready i (LIST_REMOVE (ready st i) t) st
              in if \<not> t_exit (thr st t) \<or> t_supervisor (thr st t) then Some (t, st)
                 else
                   (let st = upd_thr t (\<lambda>r. r\<lparr>t_state := GHOST\<rparr>) st;
                        st = st\<lparr>ghosts := LIST_ADD (ghosts st) t\<rparr>
                    in schedule_select i (fst (threadWakeup Qreaper st)))))
      else Some (NULL, st))"

text \<open>\<open>kmode\<close> is the processor mode of the interrupted context.\<close>

definition schedule_save :: "nat \<Rightarrow> bool \<Rightarrow> 'a kernel_scheme \<Rightarrow> 'a kernel_scheme" where
  "schedule_save cpu kmode st =
     (let cur = current st cpu;
          st = st\<lparr>current := (current st)(cpu := NULL)\<rparr>
      in if cur \<noteq> NULL then
           (let st = upd_thr cur (\<lambda>r. r\<lparr>t_supervisor := kmode\<rparr>) st
            in if t_state (thr st cur) = READY then
                 perf_preempted cur (set_ready (t_priority (thr st cur)) (LIST_ADD (ready st (t_priority (thr st cur))) cur) st)
               else st)
         else st)"

definition schedule_switch :: "nat \<Rightarrow> addr \<Rightarrow> 'a kernel_scheme \<Rightarrow> 'a kernel_scheme" where
  "schedule_switch cpu sel st =
     (if sel \<noteq> NULL then
        (let st = st\<lparr>current := (current st)(cpu := sel)\<rparr>;
             proc = t_process (thr st sel);
             st = (if proc \<noteq> NULL \<and> p_pmapp (procs st proc) \<noteq> NULL \<and> \<not> t_supervisor (thr st sel)
                   then fst (threads_checkSignal sel proc st) else st)
         in perf_scheduling sel st)
      else st)"

definition threads_schedule :: "nat \<Rightarrow> bool \<Rightarrow> 'a kernel_scheme \<Rightarrow> 'a kernel_scheme option" where
  "threads_schedule cpu kmode st =
     (let cur = current st cpu
      in case schedule_select 0 (schedule_save cpu kmode st) of
           None \<Rightarrow> None
         | Some (sel, st) \<Rightarrow> Some (threads_cpuTimeCalc cur sel (schedule_switch cpu sel st)))"

definition proc_current :: "nat \<Rightarrow> 'a kernel_scheme \<Rightarrow> addr" where
  "proc_current cpu st = current st cpu"

text \<open>
  The hardware layer saves the context of the calling thread, in kernel mode and with the return value
  0, and runs the scheduler.
\<close>

definition hal_cpuReschedule :: "nat \<Rightarrow> 'a kernel_scheme \<Rightarrow> 'a kernel_scheme option" where
  "hal_cpuReschedule cpu st = threads_schedule cpu True (upd_thr (current st cpu) (\<lambda>r. r\<lparr>t_retval := EOK\<rparr>) st)"

text \<open>The timer interrupt on processor 0 wakes the threads whose time has come.\<close>

partial_function (option) timeintr_loop :: "time \<Rightarrow> 'a kernel_scheme \<Rightarrow> (addr \<times> 'a kernel_scheme) option" where
  "timeintr_loop now st =
     (case sleeping st of
        [] \<Rightarrow> Some (NULL, st)
      | t # ts \<Rightarrow>
          if t_wakeup (thr st t) > now then Some (t, st)
          else timeintr_loop now (upd_thr t (\<lambda>r. r\<lparr>t_retval := - ETIME\<rparr>) (proc_threadDequeue t st)))"

definition threads_timeintr :: "nat \<Rightarrow> 'a kernel_scheme \<Rightarrow> ('a kernel_scheme \<times> int) option" where
  "threads_timeintr cpu st =
     (if cpu \<noteq> 0 then Some (st, 1)
      else
        (let (now, st) = proc_gettimeRaw st
         in case timeintr_loop now st of
              None \<Rightarrow> None
            | Some (t, st) \<Rightarrow> Some (threads_updateWakeup now t st, 1)))"

section \<open>Waiting and waking\<close>

definition proc_threadEnqueue :: "nat \<Rightarrow> qaddr \<Rightarrow> time \<Rightarrow> bool \<Rightarrow> 'a kernel_scheme \<Rightarrow> 'a kernel_scheme" where
  "proc_threadEnqueue cpu q timeout interruptible st =
     (if queues st q = WakeupPending then set_queue q (Queue []) st
      else
        (let cur = current st cpu;
             st = set_queue q (Queue (LIST_ADD (waiting (queues st q)) cur)) st;
             st = upd_thr cur (\<lambda>r. r\<lparr>t_state := SLEEP, t_wakeup := 0, t_wait := Some q,
                    t_interruptible := interruptible\<rparr>) st;
             st = (if timeout \<noteq> 0 then
                     (let (now, st) = proc_gettimeRaw st;
                          st = upd_thr cur (\<lambda>r. r\<lparr>t_wakeup := now + timeout\<rparr>) st;
                          st = st\<lparr>sleeping := ordered_insert (threads_sleepcmp st) cur (sleeping st)\<rparr>
                      in threads_updateWakeup now NULL st)
                   else st)
         in perf_enqueued cur st))"

text \<open>
  \<open>proc_threadWaitEx\<close> up to the point where the thread blocks: \<open>Inl err\<close> is a call that returns at
  once, \<open>Inr st\<close> the state after another thread was scheduled. \<open>_proc_threadWait\<close> is the same with
  \<open>interruptible = 0\<close>; the two differ only in the spinlock they hand over.
\<close>

definition proc_threadWaitEx ::
    "nat \<Rightarrow> qaddr \<Rightarrow> time \<Rightarrow> bool \<Rightarrow> 'a kernel_scheme \<Rightarrow> ('a kernel_scheme \<times> int) + 'a kernel_scheme option" where
  "proc_threadWaitEx cpu q timeout interruptible st =
     (let st = proc_threadEnqueue cpu q timeout interruptible st
      in if queues st q = Queue [] then Inl (st, EOK) else Inr (hal_cpuReschedule cpu st))"

definition proc_threadWait ::
    "nat \<Rightarrow> qaddr \<Rightarrow> time \<Rightarrow> 'a kernel_scheme \<Rightarrow> ('a kernel_scheme \<times> int) + 'a kernel_scheme option" where
  "proc_threadWait cpu q timeout st = proc_threadWaitEx cpu q timeout False st"

definition proc_threadWaitInterruptible ::
    "nat \<Rightarrow> qaddr \<Rightarrow> time \<Rightarrow> 'a kernel_scheme \<Rightarrow> ('a kernel_scheme \<times> int) + 'a kernel_scheme option" where
  "proc_threadWaitInterruptible cpu q timeout st = proc_threadWaitEx cpu q timeout True st"

text \<open>\<open>proc_threadSleep\<close>: the sleep, and the value it returns when the thread runs again.\<close>

definition proc_threadSleep :: "nat \<Rightarrow> time \<Rightarrow> 'a kernel_scheme \<Rightarrow> 'a kernel_scheme option" where
  "proc_threadSleep cpu us st =
     (let st = (if us \<noteq> 0 then
                  (let (now, st) = proc_gettimeRaw st;
                       cur = current st cpu;
                       st = upd_thr cur (\<lambda>r. r\<lparr>t_state := SLEEP, t_wait := None, t_wakeup := now + us,
                              t_interruptible := True\<rparr>) st;
                       st = st\<lparr>sleeping := ordered_insert (threads_sleepcmp st) cur (sleeping st)\<rparr>;
                       st = perf_enqueued cur st
                   in threads_updateWakeup now NULL st)
                else st)
      in hal_cpuReschedule cpu st)"

definition proc_threadSleep_ret :: "'a kernel_scheme \<Rightarrow> addr \<Rightarrow> int" where
  "proc_threadSleep_ret st t = (let err = t_retval (thr st t) in if err = - ETIME then EOK else err)"

definition proc_threadWakeup :: "qaddr \<Rightarrow> 'a kernel_scheme \<Rightarrow> 'a kernel_scheme \<times> int" where
  "proc_threadWakeup q st = threadWakeup q st"

definition proc_threadBroadcast :: "qaddr \<Rightarrow> 'a kernel_scheme \<Rightarrow> ('a kernel_scheme \<times> int) option" where
  "proc_threadBroadcast q st = threadBroadcast q 0 st"

definition proc_threadWakeupYield :: "nat \<Rightarrow> qaddr \<Rightarrow> 'a kernel_scheme \<Rightarrow> 'a kernel_scheme option" where
  "proc_threadWakeupYield cpu q st =
     (let (st, r) = threadWakeup q st in if r \<noteq> 0 then hal_cpuReschedule cpu st else Some st)"

definition proc_threadBroadcastYield :: "nat \<Rightarrow> qaddr \<Rightarrow> 'a kernel_scheme \<Rightarrow> 'a kernel_scheme option" where
  "proc_threadBroadcastYield cpu q st =
     (case threadBroadcast q 0 st of
        None \<Rightarrow> None
      | Some (st, r) \<Rightarrow> if r \<noteq> 0 then hal_cpuReschedule cpu st else Some st)"

section \<open>Ending, interrupting, reaping\<close>

definition thread_interrupt :: "addr \<Rightarrow> 'a kernel_scheme \<Rightarrow> 'a kernel_scheme" where
  "thread_interrupt t st = upd_thr t (\<lambda>r. r\<lparr>t_retval := - EINTR\<rparr>) (proc_threadDequeue t st)"

definition proc_threadEnd :: "nat \<Rightarrow> 'a kernel_scheme \<Rightarrow> 'a kernel_scheme option" where
  "proc_threadEnd cpu st =
     (let t = current st cpu;
          st = st\<lparr>current := (current st)(cpu := NULL)\<rparr>;
          st = upd_thr t (\<lambda>r. r\<lparr>t_state := GHOST\<rparr>) st;
          st = st\<lparr>ghosts := LIST_ADD (ghosts st) t\<rparr>;
          st = fst (threadWakeup Qreaper st)
      in threads_schedule cpu True st)"

definition proc_threadExit :: "addr \<Rightarrow> 'a kernel_scheme \<Rightarrow> 'a kernel_scheme" where
  "proc_threadExit t st =
     (let st = upd_thr t (\<lambda>r. r\<lparr>t_exit := True\<rparr>) st
      in if t_interruptible (thr st t) then thread_interrupt t st else st)"

definition proc_threadDestroy :: "addr \<Rightarrow> 'a kernel_scheme \<Rightarrow> 'a kernel_scheme" where
  "proc_threadDestroy t st = (if t \<noteq> NULL then proc_threadExit t st else st)"

definition proc_threadsDestroy :: "addr list \<Rightarrow> 'a kernel_scheme \<Rightarrow> 'a kernel_scheme" where
  "proc_threadsDestroy ts st = foldl (\<lambda>st t. proc_threadExit t st) st ts"

text \<open>
  \<open>proc_reap\<close> waits on the reaper queue while there is no ghost; \<open>reap_take\<close> is the part after the
  loop, which takes the first ghost.
\<close>

definition reap_wait :: "nat \<Rightarrow> 'a kernel_scheme \<Rightarrow> (('a kernel_scheme \<times> int) + 'a kernel_scheme option) option" where
  "reap_wait cpu st = (if ghosts st = [] then Some (proc_threadWaitEx cpu Qreaper 0 False st) else None)"

definition reap_take :: "'a kernel_scheme \<Rightarrow> 'a kernel_scheme \<times> addr" where
  "reap_take st = (let ghost = hd (ghosts st) in (st\<lparr>ghosts := LIST_REMOVE (ghosts st) ghost\<rparr>, ghost))"

section \<open>Priorities\<close>

definition lockGetPriority :: "'a kernel_scheme \<Rightarrow> addr \<Rightarrow> nat" where
  "lockGetPriority st l =
     foldl (\<lambda>p t. if t_priority (thr st t) < p then t_priority (thr st t) else p) (nprio - 1) (waiting (queues st (Qlock l)))"

definition threadGetLockPriority :: "'a kernel_scheme \<Rightarrow> addr \<Rightarrow> nat" where
  "threadGetLockPriority st t =
     foldl (\<lambda>p l. if lockGetPriority st l < p then lockGetPriority st l else p) (nprio - 1) (t_locks (thr st t))"

definition threadGetPriority :: "'a kernel_scheme \<Rightarrow> addr \<Rightarrow> nat" where
  "threadGetPriority st t =
     (let ret = threadGetLockPriority st t
      in if ret < t_priorityBase (thr st t) then ret else t_priorityBase (thr st t))"

definition threadSetPriority :: "addr \<Rightarrow> nat \<Rightarrow> 'a kernel_scheme \<Rightarrow> 'a kernel_scheme" where
  "threadSetPriority t priority st =
     (let priority = (if priority > t_priorityBase (thr st t) then t_priorityBase (thr st t) else priority);
          st = (if t_state (thr st t) = READY \<and> \<not> is_current st t then
                  (let p = t_priority (thr st t);
                       st = set_ready p (LIST_REMOVE (ready st p) t) st
                   in set_ready priority (LIST_ADD (ready st priority) t) st)
                else st)
      in upd_thr t (\<lambda>r. r\<lparr>t_priority := priority\<rparr>) st)"

definition proc_threadPriority :: "nat \<Rightarrow> int \<Rightarrow> 'a kernel_scheme \<Rightarrow> 'a kernel_scheme \<times> int" where
  "proc_threadPriority cpu priority st =
     (if priority < -1 then (st, - EINVAL)
      else if priority \<ge> 0 \<and> priority \<ge> int nprio then (st, - EINVAL)
      else
        (let cur = current st cpu;
             st = (if priority \<ge> 0 then
                     (let st = (if priority < int (t_priority (thr st cur)) \<or> t_locks (thr st cur) = []
                                then upd_thr cur (\<lambda>r. r\<lparr>t_priority := nat priority\<rparr>) st else st)
                      in upd_thr cur (\<lambda>r. r\<lparr>t_priorityBase := nat priority\<rparr>) st)
                   else st)
         in (st, int (t_priorityBase (thr st cur)))))"

section \<open>Time\<close>

definition proc_gettime :: "'a kernel_scheme \<Rightarrow> 'a kernel_scheme \<times> time \<times> time" where
  "proc_gettime st = (let (now, st) = proc_gettimeRaw st in (st, now, utcoffs st))"

definition proc_uptime :: "'a kernel_scheme \<Rightarrow> 'a kernel_scheme \<times> time" where
  "proc_uptime st = (let (st, raw, offs) = proc_gettime st in (st, raw))"

definition proc_settime :: "time \<Rightarrow> 'a kernel_scheme \<Rightarrow> 'a kernel_scheme \<times> int" where
  "proc_settime offs st = (st\<lparr>utcoffs := offs\<rparr>, EOK)"

definition proc_nextWakeup :: "'a kernel_scheme \<Rightarrow> 'a kernel_scheme \<times> time" where
  "proc_nextWakeup st =
     (case sleeping st of
        [] \<Rightarrow> (st, 0)
      | t # ts \<Rightarrow>
          (let (now, st) = proc_gettimeRaw st
           in (st, if now \<ge> t_wakeup (thr st t) then 0 else t_wakeup (thr st t) - now)))"

section \<open>Creating threads\<close>

text \<open>The identifier: from the counter on, or from 0 when there is none.\<close>

definition thread_alloc :: "addr \<Rightarrow> 'a kernel_scheme \<Rightarrow> ('a kernel_scheme \<times> int) asserted option" where
  "thread_alloc t st =
     (let count = (\<lambda>st i. if i \<ge> 0
                   then (st\<lparr>idcounter := (if idcounter st = MAX_ID then 0 else idcounter st + 1)\<rparr>, i) else (st, i))
      in case lib_idtreeAlloc t (idcounter st) (tids st) of
           None \<Rightarrow> None
         | Some Panic \<Rightarrow> Some Panic
         | Some (Returned (h, i)) \<Rightarrow>
             if i < 0 then
               (case lib_idtreeAlloc t 0 h of
                  None \<Rightarrow> None
                | Some Panic \<Rightarrow> Some Panic
                | Some (Returned (h, i)) \<Rightarrow> Some (Returned (count (st\<lparr>tids := h, idcounter := 0\<rparr>) i)))
             else Some (Returned (count (st\<lparr>tids := h\<rparr>) i)))"

definition new_thread :: "addr \<Rightarrow> nat \<Rightarrow> bool \<Rightarrow> time \<Rightarrow> thread" where
  "new_thread process priority kmode now =
     \<lparr>t_locks = [], t_process = process, t_refs = 1, t_wait = None, t_wakeup = 0, t_priorityBase = priority,
      t_priority = priority, t_state = READY, t_exit = False, t_interruptible = False, t_sigmask = 0,
      t_sigpend = 0, t_readyTime = 0, t_maxWait = 0, t_startTime = now, t_cpuTime = 0, t_lastTime = now,
      t_supervisor = kmode, t_retval = 0\<rparr>"

text \<open>
  \<open>proc_threadCreate\<close>: \<open>t\<close> and \<open>kstack\<close> are the blocks \<open>vm_kmalloc\<close> returned, the null pointer when it
  failed; \<open>tls\<close> is the result of \<open>process_tlsInit\<close> when the process has thread-local data; a thread
  without a user stack starts in kernel mode. \<open>nil\<close> is the sentinel of the tree removal.
\<close>

definition threadCreate_insert :: "addr \<Rightarrow> addr \<Rightarrow> nat \<Rightarrow> 'a kernel_scheme \<Rightarrow> 'a kernel_scheme" where
  "threadCreate_insert process t priority st =
     (let st = (if process \<noteq> NULL
                then upd_proc process (\<lambda>p. p\<lparr>p_threads := LIST_ADD (p_threads p) t\<rparr>) st else st);
          st = perf_waking t (perf_begin t st)
      in set_ready priority (LIST_ADD (ready st priority) t) st)"

definition proc_threadCreate ::
    "addr \<Rightarrow> addr \<Rightarrow> addr \<Rightarrow> addr \<Rightarrow> int option \<Rightarrow> nat \<Rightarrow> addr \<Rightarrow> 'a kernel_scheme \<Rightarrow> ('a kernel_scheme \<times> int) asserted option" where
  "proc_threadCreate nil t kstack process tls priority stack st =
     (if priority \<ge> nprio then Some (Returned (st, - EINVAL))
      else if t = NULL then Some (Returned (st, - ENOMEM))
      else if kstack = NULL then Some (Returned (st, - ENOMEM))
      else
        (let (now, st) = proc_gettimeRaw st;
             st = upd_thr t (\<lambda>_. new_thread process priority (stack = NULL) now) st
         in case thread_alloc t st of
              None \<Rightarrow> None
            | Some Panic \<Rightarrow> Some Panic
            | Some (Returned (st, i)) \<Rightarrow>
                if i < 0 then Some (Returned (st, - ENOMEM))
                else
                  (case tls of
                     Some err \<Rightarrow>
                       if err \<noteq> EOK then map_option (\<lambda>h. Returned (st\<lparr>tids := h\<rparr>, err)) (lib_idtreeRemove nil t (tids st))
                       else Some (Returned (threadCreate_insert process t priority st, EOK))
                   | None \<Rightarrow> Some (Returned (threadCreate_insert process t priority st, EOK)))))"

definition threads_findThread :: "int \<Rightarrow> 'a kernel_scheme \<Rightarrow> ('a kernel_scheme \<times> addr) option" where
  "threads_findThread tid st =
     (case lib_idtreeFind (tids st) tid of
        None \<Rightarrow> None
      | Some t \<Rightarrow> Some (if t \<noteq> NULL then upd_thr t (\<lambda>r. r\<lparr>t_refs := t_refs r + 1\<rparr>) st else st, t))"

section \<open>Signals\<close>

text \<open>The search for a thread of the process that does not mask the signal: it is interrupted if it can be.\<close>

fun sigpost_deliver :: "32 word \<Rightarrow> addr list \<Rightarrow> 'a kernel_scheme \<Rightarrow> 'a kernel_scheme" where
  "sigpost_deliver sigbit [] st = st"
| "sigpost_deliver sigbit (t # ts) st =
     (if sigbit AND NOT (t_sigmask (thr st t)) \<noteq> 0
      then (if t_interruptible (thr st t) then thread_interrupt t st else st)
      else sigpost_deliver sigbit ts st)"

definition signal_kill :: nat where "signal_kill = 1"
definition signal_segv :: nat where "signal_segv = 2"
definition signal_illegal :: nat where "signal_illegal = 3"
definition signal_cancel :: nat where "signal_cancel = 32"

text \<open>\<open>threads_sigpost\<close>; \<open>proc_kill\<close> makes all threads of the process exit.\<close>

definition threads_sigpost :: "nat \<Rightarrow> addr \<Rightarrow> addr \<Rightarrow> nat \<Rightarrow> 'a kernel_scheme \<Rightarrow> ('a kernel_scheme \<times> int) option" where
  "threads_sigpost cpu process thread sig st =
     (let sigbit = push_bit sig 1 in
      if (sig = signal_segv \<or> sig = signal_illegal) \<and> p_sighandler (procs st process) = NULL \<or> sig = signal_kill
      then Some (proc_threadsDestroy (p_threads (procs st process)) st, EOK)
      else if sig = signal_cancel then Some (proc_threadDestroy thread st, EOK)
      else if sig = 0 then Some (st, EOK)
      else if thread \<noteq> NULL then
        map_option (\<lambda>st. (st, EOK))
          (hal_cpuReschedule cpu (upd_thr thread (\<lambda>r. r\<lparr>t_sigpend := t_sigpend r OR sigbit\<rparr>) st))
      else
        (let st = upd_proc process (\<lambda>p. p\<lparr>p_sigpend := p_sigpend p OR sigbit\<rparr>) st
         in if p_threads (procs st process) \<noteq> [] then
              map_option (\<lambda>st. (st, EOK)) (hal_cpuReschedule cpu (sigpost_deliver sigbit (p_threads (procs st process)) st))
            else Some (st, - ESRCH)))"

end
