(* ===== verification/Proc_Sched_Inv.thy ===== *)
theory Proc_Sched_Inv
  imports Proc_Sched
begin

text \<open>
  The invariant of the thread manager and its preservation by the building blocks of
  \<^verbatim>\<open>proc/threads.c\<close>. \<open>L\<close> is the set of threads that exist. A thread that is ready and runs on
  no processor is in the scheduler queue of its priority; \<open>X\<close> holds the threads the scheduler has
  taken out of their queue and not yet put on a processor. A sleeping thread is in the queue it waits
  on and, with a timeout, in the tree of sleeping threads.
\<close>

section \<open>What the monitoring and the clock leave alone\<close>

lemma gettimeRaw_simps [simp]:
  "fst (proc_gettimeRaw st) = hal_timer st (reads st)"
  "thr (snd (proc_gettimeRaw st)) = thr st" "ready (snd (proc_gettimeRaw st)) = ready st"
  "current (snd (proc_gettimeRaw st)) = current st" "ncpu (snd (proc_gettimeRaw st)) = ncpu st"
  "sleeping (snd (proc_gettimeRaw st)) = sleeping st" "queues (snd (proc_gettimeRaw st)) = queues st"
  "ghosts (snd (proc_gettimeRaw st)) = ghosts st" "tids (snd (proc_gettimeRaw st)) = tids st"
  "procs (snd (proc_gettimeRaw st)) = procs st" "owner (snd (proc_gettimeRaw st)) = owner st"
  by (simp_all add: proc_gettimeRaw_def Let_def)

lemma upd_thr_simps [simp]:
  "thr (upd_thr t f st) x = (if x = t then f (thr st t) else thr st x)"
  "ready (upd_thr t f st) = ready st" "current (upd_thr t f st) = current st" "ncpu (upd_thr t f st) = ncpu st"
  "sleeping (upd_thr t f st) = sleeping st" "queues (upd_thr t f st) = queues st"
  "ghosts (upd_thr t f st) = ghosts st" "tids (upd_thr t f st) = tids st" "procs (upd_thr t f st) = procs st"
  "owner (upd_thr t f st) = owner st" "hal_timer (upd_thr t f st) = hal_timer st" "reads (upd_thr t f st) = reads st"
  by (simp_all add: upd_thr_def)

lemma set_queue_simps [simp]:
  "thr (set_queue q w st) = thr st" "ready (set_queue q w st) = ready st"
  "current (set_queue q w st) = current st" "ncpu (set_queue q w st) = ncpu st"
  "sleeping (set_queue q w st) = sleeping st" "queues (set_queue q w st) r = (if r = q then w else queues st r)"
  "ghosts (set_queue q w st) = ghosts st" "tids (set_queue q w st) = tids st" "procs (set_queue q w st) = procs st"
  "owner (set_queue q w st) = owner st" "hal_timer (set_queue q w st) = hal_timer st" "reads (set_queue q w st) = reads st"
  by (simp_all add: set_queue_def)

lemma set_ready_simps [simp]:
  "thr (set_ready p ts st) = thr st" "ready (set_ready p ts st) r = (if r = p then ts else ready st r)"
  "current (set_ready p ts st) = current st" "ncpu (set_ready p ts st) = ncpu st"
  "sleeping (set_ready p ts st) = sleeping st" "queues (set_ready p ts st) = queues st"
  "ghosts (set_ready p ts st) = ghosts st" "tids (set_ready p ts st) = tids st" "procs (set_ready p ts st) = procs st"
  "owner (set_ready p ts st) = owner st" "hal_timer (set_ready p ts st) = hal_timer st" "reads (set_ready p ts st) = reads st"
  by (simp_all add: set_ready_def)

lemma perf_event_simps [simp]:
  "ready (perf_event t ty st) = ready st" "current (perf_event t ty st) = current st"
  "ncpu (perf_event t ty st) = ncpu st" "sleeping (perf_event t ty st) = sleeping st"
  "queues (perf_event t ty st) = queues st" "ghosts (perf_event t ty st) = ghosts st"
  "tids (perf_event t ty st) = tids st" "procs (perf_event t ty st) = procs st"
  "owner (perf_event t ty st) = owner st"
  by (simp_all add: perf_event_def perf_write_def proc_gettimeRaw_def Let_def)

lemma perf_event_thr [simp]:
  "t_locks (thr (perf_event t ty st) x) = t_locks (thr st x)"
  "t_process (thr (perf_event t ty st) x) = t_process (thr st x)"
  "t_refs (thr (perf_event t ty st) x) = t_refs (thr st x)"
  "t_wait (thr (perf_event t ty st) x) = t_wait (thr st x)"
  "t_wakeup (thr (perf_event t ty st) x) = t_wakeup (thr st x)"
  "t_priorityBase (thr (perf_event t ty st) x) = t_priorityBase (thr st x)"
  "t_priority (thr (perf_event t ty st) x) = t_priority (thr st x)"
  "t_state (thr (perf_event t ty st) x) = t_state (thr st x)"
  "t_exit (thr (perf_event t ty st) x) = t_exit (thr st x)"
  "t_interruptible (thr (perf_event t ty st) x) = t_interruptible (thr st x)"
  "t_sigmask (thr (perf_event t ty st) x) = t_sigmask (thr st x)"
  "t_sigpend (thr (perf_event t ty st) x) = t_sigpend (thr st x)"
  "t_supervisor (thr (perf_event t ty st) x) = t_supervisor (thr st x)"
  "t_retval (thr (perf_event t ty st) x) = t_retval (thr st x)"
  by (simp_all add: perf_event_def perf_write_def proc_gettimeRaw_def Let_def)

lemmas perf_kinds = perf_scheduling_def perf_preempted_def perf_enqueued_def perf_waking_def

lemma updateWakeup_simps [simp]:
  "thr (threads_updateWakeup now mn st) = thr st" "ready (threads_updateWakeup now mn st) = ready st"
  "current (threads_updateWakeup now mn st) = current st" "ncpu (threads_updateWakeup now mn st) = ncpu st"
  "sleeping (threads_updateWakeup now mn st) = sleeping st" "queues (threads_updateWakeup now mn st) = queues st"
  "ghosts (threads_updateWakeup now mn st) = ghosts st" "tids (threads_updateWakeup now mn st) = tids st"
  "procs (threads_updateWakeup now mn st) = procs st" "owner (threads_updateWakeup now mn st) = owner st"
  by (simp_all add: threads_updateWakeup_def Let_def)

lemma is_current_iff: "is_current st t \<longleftrightarrow> (\<exists>c < ncpu st. current st c = t)"
  by (auto simp: is_current_def)

lemma is_current_cong:
  "current st' = current st \<Longrightarrow> ncpu st' = ncpu st \<Longrightarrow> is_current st' t = is_current st t"
  by (simp add: is_current_def)

lemma is_current_simps [simp]:
  "is_current (set_ready p ts st) = is_current st" "is_current (set_queue q w st) = is_current st"
  "is_current (upd_thr t f st) = is_current st" "is_current (perf_event t ty st) = is_current st"
  "is_current (proc_threadDequeue t st) = is_current st" "is_current (snd (proc_gettimeRaw st)) = is_current st"
  by (intro ext is_current_cong; simp add: proc_threadDequeue_def Let_def perf_kinds split: option.split)+

section \<open>The invariant\<close>

definition ready_ok :: "addr set \<Rightarrow> addr set \<Rightarrow> 'a kernel_scheme \<Rightarrow> bool" where
  "ready_ok L X st \<longleftrightarrow> (\<forall>p. distinct (ready st p)) \<and>
     (\<forall>p t. t \<in> set (ready st p) \<longleftrightarrow>
        t \<in> L \<and> t \<notin> X \<and> t_state (thr st t) = READY \<and> \<not> is_current st t \<and> t_priority (thr st t) = p) \<and>
     (\<forall>t \<in> X. t \<in> L \<and> t_state (thr st t) = READY \<and> \<not> is_current st t)"

definition queues_ok :: "addr set \<Rightarrow> 'a kernel_scheme \<Rightarrow> bool" where
  "queues_ok L st \<longleftrightarrow> (\<forall>q. distinct (waiting (queues st q))) \<and>
     (\<forall>q t. t \<in> set (waiting (queues st q)) \<longleftrightarrow>
        t \<in> L \<and> t_state (thr st t) = SLEEP \<and> t_wait (thr st t) = Some q)"

definition sleep_ok :: "addr set \<Rightarrow> 'a kernel_scheme \<Rightarrow> bool" where
  "sleep_ok L st \<longleftrightarrow> distinct (sleeping st) \<and>
     sorted_wrt (\<lambda>a b. threads_sleepcmp st a b < 0) (sleeping st) \<and>
     (\<forall>t. t \<in> set (sleeping st) \<longleftrightarrow> t \<in> L \<and> t_state (thr st t) = SLEEP \<and> t_wakeup (thr st t) \<noteq> 0)"

definition thread_ok :: "thread \<Rightarrow> bool" where
  "thread_ok r \<longleftrightarrow> t_priority r \<le> t_priorityBase r \<and> t_priorityBase r < nprio \<and>
     (if t_state r = SLEEP then t_wait r \<noteq> None \<or> t_wakeup r \<noteq> 0
      else t_wait r = None \<and> t_wakeup r = 0 \<and> \<not> t_interruptible r)"

definition fields_ok :: "addr set \<Rightarrow> 'a kernel_scheme \<Rightarrow> bool" where
  "fields_ok L st \<longleftrightarrow> NULL \<notin> L \<and> (\<forall>t \<in> L. thread_ok (thr st t))"

definition ghosts_ok :: "addr set \<Rightarrow> 'a kernel_scheme \<Rightarrow> bool" where
  "ghosts_ok L st \<longleftrightarrow> distinct (ghosts st) \<and> (\<forall>t \<in> set (ghosts st). t \<in> L \<and> t_state (thr st t) = GHOST)"

definition cpus_ok :: "addr set \<Rightarrow> 'a kernel_scheme \<Rightarrow> bool" where
  "cpus_ok L st \<longleftrightarrow>
     (\<forall>c < ncpu st. current st c \<noteq> NULL \<longrightarrow> current st c \<in> L \<and> t_state (thr st (current st c)) \<noteq> GHOST) \<and>
     (\<forall>c < ncpu st. \<forall>d < ncpu st. current st c \<noteq> NULL \<and> current st c = current st d \<longrightarrow> c = d)"

definition sched_ok :: "addr set \<Rightarrow> addr set \<Rightarrow> 'a kernel_scheme \<Rightarrow> bool" where
  "sched_ok L X st \<longleftrightarrow> ready_ok L X st \<and> queues_ok L st \<and> sleep_ok L st \<and> fields_ok L st \<and> ghosts_ok L st \<and> cpus_ok L st"

named_theorems sched_defs \<open>the parts of the invariant\<close>

declare thread_ok_def [sched_defs] ready_ok_def [sched_defs] queues_ok_def [sched_defs] sleep_ok_def [sched_defs] fields_ok_def [sched_defs]
  ghosts_ok_def [sched_defs] cpus_ok_def [sched_defs]

lemma sched_okD:
  assumes "sched_ok L X st"
  shows "ready_ok L X st" "queues_ok L st" "sleep_ok L st" "fields_ok L st" "ghosts_ok L st" "cpus_ok L st"
  using assms by (auto simp: sched_ok_def)

text \<open>Membership in the queues, as rewrite rules, and the introduction rules that go with them.\<close>

lemma ready_mem:
  "ready_ok L X st \<Longrightarrow> t \<in> set (ready st p) \<longleftrightarrow>
     t \<in> L \<and> t \<notin> X \<and> t_state (thr st t) = READY \<and> \<not> is_current st t \<and> t_priority (thr st t) = p"
  by (simp add: ready_ok_def)

lemma ready_distinct: "ready_ok L X st \<Longrightarrow> distinct (ready st p)"
  by (simp add: ready_ok_def)

lemma hand_ready: "ready_ok L X st \<Longrightarrow> t \<in> X \<Longrightarrow> t \<in> L \<and> t_state (thr st t) = READY \<and> \<not> is_current st t"
  by (simp add: ready_ok_def)

lemma queue_mem:
  "queues_ok L st \<Longrightarrow> t \<in> set (waiting (queues st q)) \<longleftrightarrow> t \<in> L \<and> t_state (thr st t) = SLEEP \<and> t_wait (thr st t) = Some q"
  by (simp add: queues_ok_def)

lemma queue_distinct: "queues_ok L st \<Longrightarrow> distinct (waiting (queues st q))"
  by (simp add: queues_ok_def)

lemma sleep_mem:
  "sleep_ok L st \<Longrightarrow> t \<in> set (sleeping st) \<longleftrightarrow> t \<in> L \<and> t_state (thr st t) = SLEEP \<and> t_wakeup (thr st t) \<noteq> 0"
  by (simp add: sleep_ok_def)

lemma sleep_distinct: "sleep_ok L st \<Longrightarrow> distinct (sleeping st)"
  by (simp add: sleep_ok_def)

lemma sleep_sorted: "sleep_ok L st \<Longrightarrow> sorted_wrt (\<lambda>a b. threads_sleepcmp st a b < 0) (sleeping st)"
  by (simp add: sleep_ok_def)

lemma ready_okI:
  assumes "\<And>p. distinct (ready st p)"
    and "\<And>p t. t \<in> set (ready st p) \<longleftrightarrow>
      t \<in> L \<and> t \<notin> X \<and> t_state (thr st t) = READY \<and> \<not> is_current st t \<and> t_priority (thr st t) = p"
    and "\<And>t. t \<in> X \<Longrightarrow> t \<in> L \<and> t_state (thr st t) = READY \<and> \<not> is_current st t"
  shows "ready_ok L X st"
  using assms by (simp add: ready_ok_def)

lemma queues_okI:
  assumes "\<And>q. distinct (waiting (queues st q))"
    and "\<And>q t. t \<in> set (waiting (queues st q)) \<longleftrightarrow> t \<in> L \<and> t_state (thr st t) = SLEEP \<and> t_wait (thr st t) = Some q"
  shows "queues_ok L st"
  using assms by (simp add: queues_ok_def)

lemma sleep_okI:
  assumes "distinct (sleeping st)" and "sorted_wrt (\<lambda>a b. threads_sleepcmp st a b < 0) (sleeping st)"
    and "\<And>t. t \<in> set (sleeping st) \<longleftrightarrow> t \<in> L \<and> t_state (thr st t) = SLEEP \<and> t_wakeup (thr st t) \<noteq> 0"
  shows "sleep_ok L st"
  using assms by (simp add: sleep_ok_def)

text \<open>The invariant reads only part of the state.\<close>

definition sched_fields :: "thread \<Rightarrow> qaddr option \<times> time \<times> nat \<times> nat \<times> tstate \<times> bool" where
  "sched_fields r = (t_wait r, t_wakeup r, t_priorityBase r, t_priority r, t_state r, t_interruptible r)"

lemma thread_ok_cong: "sched_fields r = sched_fields r' \<Longrightarrow> thread_ok r = thread_ok r'"
  by (simp add: sched_fields_def thread_ok_def)

definition sched_eq :: "'a kernel_scheme \<Rightarrow> 'b kernel_scheme \<Rightarrow> bool" where
  "sched_eq st st' \<longleftrightarrow> (\<forall>t. sched_fields (thr st' t) = sched_fields (thr st t)) \<and> ready st' = ready st \<and>
     current st' = current st \<and> ncpu st' = ncpu st \<and> sleeping st' = sleeping st \<and> queues st' = queues st \<and>
     ghosts st' = ghosts st \<and> idn (tids st') = idn (tids st)"

lemma sched_ok_cong: "sched_eq st st' \<Longrightarrow> sched_ok L X st' = sched_ok L X st"
  unfolding sched_eq_def sched_fields_def sched_ok_def sched_defs is_current_def threads_sleepcmp_def proc_getTid_def
  by simp

section \<open>Taking a thread off its queues\<close>

lemma dequeue_thr:
  assumes "t_state (thr st t) \<noteq> GHOST"
  shows "t_state (thr (proc_threadDequeue t st) x) = (if x = t then READY else t_state (thr st x))"
    "t_wait (thr (proc_threadDequeue t st) x) = (if x = t then None else t_wait (thr st x))"
    "t_wakeup (thr (proc_threadDequeue t st) x) = (if x = t then 0 else t_wakeup (thr st x))"
    "t_interruptible (thr (proc_threadDequeue t st) x) = (if x = t then False else t_interruptible (thr st x))"
    "t_priority (thr (proc_threadDequeue t st) x) = t_priority (thr st x)"
    "t_priorityBase (thr (proc_threadDequeue t st) x) = t_priorityBase (thr st x)"
    "t_exit (thr (proc_threadDequeue t st) x) = t_exit (thr st x)"
    "t_locks (thr (proc_threadDequeue t st) x) = t_locks (thr st x)"
    "t_process (thr (proc_threadDequeue t st) x) = t_process (thr st x)"
    "t_supervisor (thr (proc_threadDequeue t st) x) = t_supervisor (thr st x)"
    "t_retval (thr (proc_threadDequeue t st) x) = t_retval (thr st x)"
  using assms by (simp_all add: proc_threadDequeue_def Let_def perf_kinds split: option.split)

lemma dequeue_state [simp]:
  "current (proc_threadDequeue t st) = current st" "ncpu (proc_threadDequeue t st) = ncpu st"
  "ghosts (proc_threadDequeue t st) = ghosts st" "tids (proc_threadDequeue t st) = tids st"
  "procs (proc_threadDequeue t st) = procs st" "owner (proc_threadDequeue t st) = owner st"
  by (simp_all add: proc_threadDequeue_def Let_def perf_kinds split: option.split)

lemma dequeue_lists:
  assumes "t_state (thr st t) \<noteq> GHOST"
  shows "ready (proc_threadDequeue t st) p =
      (if p = t_priority (thr st t) \<and> \<not> is_current st t then ready st p @ [t] else ready st p)"
    "waiting (queues (proc_threadDequeue t st) q) =
      (if t_wait (thr st t) = Some q then remove1 t (waiting (queues st q)) else waiting (queues st q))"
    "sleeping (proc_threadDequeue t st) = (if t_wakeup (thr st t) \<noteq> 0 then remove1 t (sleeping st) else sleeping st)"
  using assms
  by (simp_all add: proc_threadDequeue_def Let_def perf_kinds is_current_def LIST_ADD_def LIST_REMOVE_def split: option.split)

lemma sleepcmp_cong:
  "t_wakeup (thr st' a) = t_wakeup (thr st a) \<Longrightarrow> t_wakeup (thr st' b) = t_wakeup (thr st b) \<Longrightarrow>
   idn (tids st') = idn (tids st) \<Longrightarrow> threads_sleepcmp st' a b = threads_sleepcmp st a b"
  by (simp add: threads_sleepcmp_def proc_getTid_def)

lemma sleepcmp_ext:
  "(\<And>t. t_wakeup (thr st' t) = t_wakeup (thr st t)) \<Longrightarrow> idn (tids st') = idn (tids st) \<Longrightarrow>
   threads_sleepcmp st' = threads_sleepcmp st"
  by (intro ext) (simp add: threads_sleepcmp_def proc_getTid_def)

lemma sorted_wrt_cong_set:
  "(\<And>a b. a \<in> set xs \<Longrightarrow> b \<in> set xs \<Longrightarrow> P a b = Q a b) \<Longrightarrow> sorted_wrt P xs = sorted_wrt Q xs"
  by (induction xs) auto

lemma sorted_wrt_remove1: "sorted_wrt P xs \<Longrightarrow> sorted_wrt P (remove1 x xs)"
  by (induction xs) (use set_remove1_subset in fastforce)+

lemma dequeue_ok:
  assumes ok: "sched_ok L X st" and t: "t \<in> L" "t_state (thr st t) = SLEEP"
  shows "sched_ok L X (proc_threadDequeue t st)"
proof -
  let ?s = "proc_threadDequeue t st"
  have g: "t_state (thr st t) \<noteq> GHOST" using t by simp
  note [simp] = dequeue_thr [OF g] dequeue_lists [OF g]
  have cur: "is_current ?s x = is_current st x" for x by (rule is_current_cong) simp_all
  note D = sched_okD [OF ok]
  have "ready_ok L X ?s"
    by (rule ready_okI) (use t hand_ready [OF D(1)] in \<open>auto simp: cur ready_mem [OF D(1)] ready_distinct [OF D(1)]\<close>)
  moreover have "queues_ok L ?s"
    by (rule queues_okI) (use t in \<open>auto simp: queue_mem [OF D(2)] queue_distinct [OF D(2)]\<close>)
  moreover have "sleep_ok L ?s"
  proof -
    have e: "threads_sleepcmp ?s a b = threads_sleepcmp st a b" if "a \<noteq> t" "b \<noteq> t" for a b
      by (rule sleepcmp_cong) (use that in simp_all)
    have "sorted_wrt (\<lambda>a b. threads_sleepcmp ?s a b < 0) (remove1 t (sleeping st))"
      by (rule sorted_wrt_mono_rel [OF _ sorted_wrt_remove1 [OF sleep_sorted [OF D(3)]]])
        (use sleep_distinct [OF D(3)] e in auto)
    moreover have "remove1 t (sleeping st) = sleeping st" if "t_wakeup (thr st t) = 0"
      using that by (simp add: remove1_idem sleep_mem [OF D(3)])
    ultimately show ?thesis
      by (intro sleep_okI) (auto simp: sleep_mem [OF D(3)] sleep_distinct [OF D(3)])
  qed
  moreover have "fields_ok L ?s"
    using D(4) t by (auto simp: fields_ok_def thread_ok_def)
  moreover have "ghosts_ok L ?s"
    using D(5) t by (auto simp: ghosts_ok_def)
  moreover have "cpus_ok L ?s"
    using D(6) t by (auto simp: cpus_ok_def)
  ultimately show ?thesis by (simp add: sched_ok_def)
qed

section \<open>Putting a thread to sleep\<close>

lemma sleepcmp_trans:
  "threads_sleepcmp st a b < 0 \<Longrightarrow> threads_sleepcmp st b c < 0 \<Longrightarrow> threads_sleepcmp st a c < 0"
  by (auto simp: threads_sleepcmp_def split: if_splits)

lemma sleepcmp_flip: "\<not> threads_sleepcmp st a b < 0 \<Longrightarrow> threads_sleepcmp st b a < 0"
  by (auto simp: threads_sleepcmp_def split: if_splits)

lemma sleepcmp_wakeup: "threads_sleepcmp st a b < 0 \<Longrightarrow> t_wakeup (thr st a) \<le> t_wakeup (thr st b)"
  by (auto simp: threads_sleepcmp_def split: if_splits)

lemma sorted_ordered_insert:
  assumes "sorted_wrt (\<lambda>a b. threads_sleepcmp st a b < 0) xs"
  shows "sorted_wrt (\<lambda>a b. threads_sleepcmp st a b < 0) (ordered_insert (threads_sleepcmp st) z xs)"
proof -
  let ?P = "\<lambda>a. threads_sleepcmp st a z < 0"
  have "threads_sleepcmp st z b < 0" if b: "b \<in> set (dropWhile ?P xs)" for b
  proof (cases "dropWhile ?P xs")
    case Nil
    then show ?thesis using b by (metis empty_iff list.set(1))
  next
    case (Cons d ds)
    then have "\<not> ?P d" using hd_dropWhile [of ?P xs] by simp
    then have d: "threads_sleepcmp st z d < 0" by (rule sleepcmp_flip)
    have "sorted_wrt (\<lambda>a b. threads_sleepcmp st a b < 0) (d # ds)"
      using assms takeWhile_dropWhile_id [of ?P xs] Cons sorted_wrt_append by metis
    then show ?thesis using b Cons d sleepcmp_trans [OF d] by auto
  qed
  moreover have "sorted_wrt (\<lambda>a b. threads_sleepcmp st a b < 0) (takeWhile ?P xs @ dropWhile ?P xs)"
    using assms by simp
  ultimately show ?thesis
    unfolding ordered_insert_def sorted_wrt_append by (auto dest: set_takeWhileD)
qed

lemma distinct_ordered_insert: "distinct xs \<Longrightarrow> z \<notin> set xs \<Longrightarrow> distinct (ordered_insert c z xs)"
proof -
  assume a: "distinct xs" "z \<notin> set xs"
  let ?P = "\<lambda>a. c a z < 0"
  have "distinct (takeWhile ?P xs @ dropWhile ?P xs)" using a by simp
  then show ?thesis using a unfolding ordered_insert_def distinct_append
    by (auto dest: set_takeWhileD set_dropWhileD)
qed

text \<open>
  The calling thread goes to sleep, on the queue \<open>q\<close> when \<open>qo = Some q\<close> and until \<open>w\<close> when \<open>w\<close> is not
  0. Both \<open>proc_threadEnqueue\<close> and \<open>proc_threadSleep\<close> are such a state, up to the clock.
\<close>

definition asleep :: "addr \<Rightarrow> qaddr option \<Rightarrow> time \<Rightarrow> bool \<Rightarrow> 'a kernel_scheme \<Rightarrow> 'a kernel_scheme \<Rightarrow> bool" where
  "asleep t qo w i st st' \<longleftrightarrow>
     (\<forall>x. sched_fields (thr st' x) = (if x = t then (qo, w, t_priorityBase (thr st t), t_priority (thr st t), SLEEP, i)
                                     else sched_fields (thr st x))) \<and>
     ready st' = ready st \<and> current st' = current st \<and> ncpu st' = ncpu st \<and> ghosts st' = ghosts st \<and>
     idn (tids st') = idn (tids st) \<and>
     (\<forall>q. waiting (queues st' q) = (if qo = Some q then waiting (queues st q) @ [t] else waiting (queues st q))) \<and>
     sleeping st' = (if w \<noteq> 0 then ordered_insert (threads_sleepcmp st') t (sleeping st) else sleeping st)"

lemma asleep_ok:
  assumes ok: "sched_ok L {} st" and a: "asleep t qo w i st st'"
    and t: "t \<in> L" "t_state (thr st t) = READY" "is_current st t" and w: "qo \<noteq> None \<or> w \<noteq> 0"
  shows "sched_ok L {} st'"
proof -
  note D = sched_okD [OF ok]
  have f: "t_wait (thr st' x) = (if x = t then qo else t_wait (thr st x))"
    "t_wakeup (thr st' x) = (if x = t then w else t_wakeup (thr st x))"
    "t_state (thr st' x) = (if x = t then SLEEP else t_state (thr st x))"
    "t_interruptible (thr st' x) = (if x = t then i else t_interruptible (thr st x))"
    "t_priority (thr st' x) = t_priority (thr st x)" "t_priorityBase (thr st' x) = t_priorityBase (thr st x)" for x
    using a by (auto simp: asleep_def sched_fields_def split: if_splits)
  have s: "ready st' = ready st" "current st' = current st" "ncpu st' = ncpu st" "ghosts st' = ghosts st"
    "idn (tids st') = idn (tids st)"
    "waiting (queues st' q) = (if qo = Some q then waiting (queues st q) @ [t] else waiting (queues st q))"
    "sleeping st' = (if w \<noteq> 0 then ordered_insert (threads_sleepcmp st') t (sleeping st) else sleeping st)" for q
    using a by (auto simp: asleep_def)
  have cur: "is_current st' x = is_current st x" for x by (rule is_current_cong) (simp_all add: s)
  have "ready_ok L {} st'"
    by (rule ready_okI) (use t in \<open>auto simp: cur f s ready_mem [OF D(1)] ready_distinct [OF D(1)]\<close>)
  moreover have "queues_ok L st'"
    by (rule queues_okI) (use t in \<open>auto simp: f s queue_mem [OF D(2)] queue_distinct [OF D(2)]\<close>)
  moreover have "sleep_ok L st'"
  proof -
    have nt: "t \<notin> set (sleeping st)" using t by (simp add: sleep_mem [OF D(3)])
    have "threads_sleepcmp st' a b = threads_sleepcmp st a b" if "a \<in> set (sleeping st)" "b \<in> set (sleeping st)" for a b
      by (rule sleepcmp_cong) (use that nt f s in auto)
    then have "sorted_wrt (\<lambda>a b. threads_sleepcmp st' a b < 0) (sleeping st)"
      using sleep_sorted [OF D(3)] by (metis (no_types, lifting) sorted_wrt_mono_rel)
    then show ?thesis
      by (intro sleep_okI) (use t nt sorted_ordered_insert distinct_ordered_insert sleep_distinct [OF D(3)]
          in \<open>auto simp: s f sleep_mem [OF D(3)]\<close>)
  qed
  moreover have "fields_ok L st'" using D(4) t w by (auto simp: fields_ok_def thread_ok_def f)
  moreover have "ghosts_ok L st'" using D(5) t by (auto simp: ghosts_ok_def f s)
  moreover have "cpus_ok L st'" using D(6) by (auto simp: cpus_ok_def f s)
  ultimately show ?thesis by (simp add: sched_ok_def)
qed

lemma enqueue_asleep:
  assumes "queues st q \<noteq> WakeupPending" and "timeout = 0 \<or> hal_timer st (reads st) + timeout \<noteq> 0"
  shows "asleep (current st cpu) (Some q) (if timeout \<noteq> 0 then hal_timer st (reads st) + timeout else 0) i st
    (proc_threadEnqueue cpu q timeout i st)"
proof -
  have cmp: "threads_sleepcmp (perf_event t ty s) = threads_sleepcmp s" "threads_sleepcmp (threads_updateWakeup n m s) = threads_sleepcmp s"
    "threads_sleepcmp (s\<lparr>sleeping := xs\<rparr>) = threads_sleepcmp s" for t ty n m and s :: "'a kernel_scheme" and xs
    by (rule sleepcmp_ext; simp)+
  show ?thesis using assms
    by (auto simp: asleep_def proc_threadEnqueue_def perf_kinds sched_fields_def LIST_ADD_def case_prod_beta Let_def cmp)
qed

lemma enqueue_pending: "queues st q = WakeupPending \<Longrightarrow> proc_threadEnqueue cpu q timeout i st = set_queue q (Queue []) st"
  by (simp add: proc_threadEnqueue_def)

lemma set_queue_empty_ok:
  assumes ok: "sched_ok L X st" and q: "waiting (queues st q) = []" "waiting w = []"
  shows "sched_ok L X (set_queue q w st)"
proof -
  note D = sched_okD [OF ok]
  have c: "is_current (set_queue q w st) x = is_current st x" for x by (rule is_current_cong) simp_all
  have m: "threads_sleepcmp (set_queue q w st) = threads_sleepcmp st" by (rule sleepcmp_ext) simp_all
  have "queues_ok L (set_queue q w st)"
    by (rule queues_okI) (use q queue_mem [OF D(2), of _ q] queue_distinct [OF D(2)] in \<open>auto simp: queue_mem [OF D(2)]\<close>)
  then show ?thesis
    using D by (simp add: sched_ok_def ready_ok_def sleep_ok_def fields_ok_def ghosts_ok_def cpus_ok_def c m)
qed

lemma enqueue_ok:
  assumes ok: "sched_ok L {} st" and cpu: "cpu < ncpu st" "current st cpu \<noteq> NULL" "t_state (thr st (current st cpu)) = READY"
    and w: "timeout = 0 \<or> hal_timer st (reads st) + timeout \<noteq> 0"
  shows "sched_ok L {} (proc_threadEnqueue cpu q timeout i st)"
proof (cases "queues st q = WakeupPending")
  case True
  then show ?thesis using ok by (simp add: enqueue_pending set_queue_empty_ok)
next
  case False
  have "current st cpu \<in> L" "is_current st (current st cpu)"
    using sched_okD(6) [OF ok] cpu by (auto simp: cpus_ok_def is_current_iff)
  then show ?thesis using asleep_ok [OF ok enqueue_asleep [OF False w]] cpu by auto
qed

section \<open>Choosing the next thread\<close>

lemma fields_ok_upd:
  assumes "sched_ok L X st" and "\<And>r. sched_fields (f r) = sched_fields r"
  shows "sched_ok L X (upd_thr t f st)"
  by (rule sched_ok_cong [THEN iffD2, OF _ assms(1)]) (simp add: sched_eq_def assms(2))

lemma perf_event_ok: "sched_ok L X (perf_event t ty st) = sched_ok L X st"
  by (rule sched_ok_cong) (simp add: sched_eq_def sched_fields_def)

lemma save_ok:
  assumes ok: "sched_ok L {} st" and cpu: "cpu < ncpu st"
  shows "sched_ok L {} (schedule_save cpu kmode st)" and "current (schedule_save cpu kmode st) = (current st)(cpu := NULL)"
    and "ncpu (schedule_save cpu kmode st) = ncpu st"
proof -
  note D = sched_okD [OF ok]
  let ?t = "current st cpu"
  define s1 where "s1 = upd_thr ?t (\<lambda>r. r\<lparr>t_supervisor := kmode\<rparr>) (st\<lparr>current := (current st)(cpu := NULL)\<rparr>)"
  define s2 where "s2 = (if ?t \<noteq> NULL \<and> t_state (thr st ?t) = READY
     then set_ready (t_priority (thr st ?t)) (ready st (t_priority (thr st ?t)) @ [?t]) s1 else s1)"
  have f: "sched_fields (thr s2 x) = sched_fields (thr st x)" for x by (simp add: s2_def s1_def sched_fields_def)
  then have f': "t_wait (thr s2 x) = t_wait (thr st x)" "t_wakeup (thr s2 x) = t_wakeup (thr st x)"
    "t_state (thr s2 x) = t_state (thr st x)" "t_interruptible (thr s2 x) = t_interruptible (thr st x)"
    "t_priority (thr s2 x) = t_priority (thr st x)" "t_priorityBase (thr s2 x) = t_priorityBase (thr st x)" for x
    by (auto simp: sched_fields_def)
  have s: "current s2 = (current st)(cpu := NULL)" "ncpu s2 = ncpu st" "ghosts s2 = ghosts st" "queues s2 = queues st"
    "sleeping s2 = sleeping st" "tids s2 = tids st"
    by (simp_all add: s2_def s1_def)
  have r: "ready s2 p = (if ?t \<noteq> NULL \<and> t_state (thr st ?t) = READY \<and> p = t_priority (thr st ?t) then ready st p @ [?t] else ready st p)" for p
    by (simp add: s2_def s1_def)
  have tL: "?t \<noteq> NULL \<Longrightarrow> ?t \<in> L \<and> is_current st ?t" using D(6) cpu by (auto simp: cpus_ok_def is_current_iff)
  have cur: "is_current s2 x = (is_current st x \<and> x \<noteq> ?t)" if "x \<noteq> NULL" for x
    using D(6) cpu that unfolding is_current_iff s cpus_ok_def by auto
  have m: "threads_sleepcmp s2 = threads_sleepcmp st" by (rule sleepcmp_ext) (simp_all add: f' s)
  have nn: "x \<in> L \<Longrightarrow> x \<noteq> NULL" for x using D(4) by (metis fields_ok_def)
  have "ready_ok L {} s2"
    by (rule ready_okI) (use tL nn in \<open>auto simp: cur f' r ready_mem [OF D(1)] ready_distinct [OF D(1)]\<close>)
  moreover have "queues_ok L s2" "sleep_ok L s2" "fields_ok L s2" "ghosts_ok L s2"
    using D by (simp_all add: queues_ok_def sleep_ok_def fields_ok_def thread_ok_cong [OF f] ghosts_ok_def f' s m)
  moreover have "cpus_ok L s2" using D(6) by (auto simp: cpus_ok_def f' s)
  ultimately have ok2: "sched_ok L {} s2" by (simp add: sched_ok_def)
  have e: "schedule_save cpu kmode st = (if ?t \<noteq> NULL \<and> t_state (thr st ?t) = READY then perf_preempted ?t s2
      else if ?t \<noteq> NULL then s2 else st\<lparr>current := (current st)(cpu := NULL)\<rparr>)"
    by (simp add: schedule_save_def Let_def s2_def s1_def LIST_ADD_def)
  moreover have "sched_eq s2 (st\<lparr>current := (current st)(cpu := NULL)\<rparr>)" if "?t = NULL"
    using that by (simp add: sched_eq_def s2_def s1_def sched_fields_def)
  ultimately show "sched_ok L {} (schedule_save cpu kmode st)"
    using ok2 sched_ok_cong by (auto simp: perf_kinds perf_event_ok)
  show "current (schedule_save cpu kmode st) = (current st)(cpu := NULL)" "ncpu (schedule_save cpu kmode st) = ncpu st"
    unfolding e by (simp_all add: perf_kinds s)
qed

lemma wakeup_ok:
  assumes ok: "sched_ok L X st"
  shows "sched_ok L X (fst (threadWakeup q st))" and "current (fst (threadWakeup q st)) = current st"
    and "ncpu (fst (threadWakeup q st)) = ncpu st"
proof -
  have "sched_ok L X (fst (threadWakeup q st)) \<and> current (fst (threadWakeup q st)) = current st \<and>
      ncpu (fst (threadWakeup q st)) = ncpu st"
  proof (cases "waiting (queues st q)")
    case Nil
    then have "fst (threadWakeup q st) = set_queue q WakeupPending st"
      by (auto simp: threadWakeup_def split: waitq.split)
    then show ?thesis using set_queue_empty_ok [OF ok Nil] by simp
  next
    case (Cons t ts)
    then have e: "fst (threadWakeup q st) = proc_threadDequeue t st"
      by (auto simp: threadWakeup_def split: waitq.split)
    have "t \<in> set (waiting (queues st q))" using Cons by simp
    then have "t \<in> L" "t_state (thr st t) = SLEEP" by (auto simp: queue_mem [OF sched_okD(2) [OF ok]])
    then show ?thesis unfolding e using dequeue_ok [OF ok] by simp
  qed
  then show "sched_ok L X (fst (threadWakeup q st))" "current (fst (threadWakeup q st)) = current st"
    "ncpu (fst (threadWakeup q st)) = ncpu st" by simp_all
qed

text \<open>The states of the threads after a wake-up: at most one thread changes, from sleeping to ready.\<close>

lemma wakeup_states:
  assumes ok: "sched_ok L X st"
  shows "t_state (thr (fst (threadWakeup q st)) x) =
    (if waiting (queues st q) \<noteq> [] \<and> x = hd (waiting (queues st q)) then READY else t_state (thr st x))"
proof (cases "waiting (queues st q)")
  case Nil
  then show ?thesis by (auto simp: threadWakeup_def split: waitq.split)
next
  case (Cons t ts)
  then have e: "fst (threadWakeup q st) = proc_threadDequeue t st" by (auto simp: threadWakeup_def split: waitq.split)
  have "t \<in> set (waiting (queues st q))" using Cons by simp
  then have "t_state (thr st t) \<noteq> GHOST" by (auto simp: queue_mem [OF sched_okD(2) [OF ok]])
  then show ?thesis unfolding e using Cons by (simp add: dequeue_thr)
qed

text \<open>A ready thread that is taken off its queue and becomes a ghost.\<close>

definition make_ghost :: "nat \<Rightarrow> addr \<Rightarrow> 'a kernel_scheme \<Rightarrow> 'a kernel_scheme" where
  "make_ghost i t st = (let st = upd_thr t (\<lambda>r. r\<lparr>t_state := GHOST\<rparr>) (set_ready i (LIST_REMOVE (ready st i) t) st)
     in st\<lparr>ghosts := LIST_ADD (ghosts st) t\<rparr>)"

lemma make_ghost_ok:
  assumes ok: "sched_ok L {} st" and t: "t \<in> set (ready st i)"
  shows "sched_ok L {} (make_ghost i t st)"
proof -
  note D = sched_okD [OF ok]
  let ?s = "make_ghost i t st"
  have f: "t_state (thr ?s x) = (if x = t then GHOST else t_state (thr st x))" "t_wait (thr ?s x) = t_wait (thr st x)"
    "t_wakeup (thr ?s x) = t_wakeup (thr st x)" "t_interruptible (thr ?s x) = t_interruptible (thr st x)"
    "t_priority (thr ?s x) = t_priority (thr st x)" "t_priorityBase (thr ?s x) = t_priorityBase (thr st x)" for x
    by (simp_all add: make_ghost_def Let_def)
  have s: "current ?s = current st" "ncpu ?s = ncpu st" "queues ?s = queues st" "sleeping ?s = sleeping st"
    "tids ?s = tids st" "ghosts ?s = ghosts st @ [t]" "ready ?s p = (if p = i then remove1 t (ready st i) else ready st p)" for p
    by (simp_all add: make_ghost_def Let_def LIST_ADD_def LIST_REMOVE_def)
  have tr: "t \<in> L" "t_state (thr st t) = READY" "\<not> is_current st t" "t_priority (thr st t) = i"
    using t by (auto simp: ready_mem [OF D(1)])
  have cur: "is_current ?s x = is_current st x" for x by (rule is_current_cong) (simp_all add: s)
  have m: "threads_sleepcmp ?s = threads_sleepcmp st" by (rule sleepcmp_ext) (simp_all add: f s)
  have "ready_ok L {} ?s"
    by (rule ready_okI) (use tr in \<open>auto simp: cur f s ready_mem [OF D(1)] ready_distinct [OF D(1)]\<close>)
  moreover have "queues_ok L ?s"
    by (rule queues_okI) (use tr in \<open>auto simp: f s queue_mem [OF D(2)] queue_distinct [OF D(2)]\<close>)
  moreover have "sleep_ok L ?s"
    by (rule sleep_okI) (use tr sleep_sorted [OF D(3)] in \<open>auto simp: f s m sleep_mem [OF D(3)] sleep_distinct [OF D(3)]\<close>)
  moreover have "fields_ok L ?s" using D(4) tr by (auto simp: fields_ok_def thread_ok_def f)
  moreover have "ghosts_ok L ?s" using D(5) tr by (auto simp: ghosts_ok_def f s)
  moreover have "cpus_ok L ?s" using D(6) tr by (auto simp: cpus_ok_def f s is_current_iff)
  ultimately show ?thesis by (simp add: sched_ok_def)
qed

lemma take_ok:
  assumes ok: "sched_ok L {} st" and t: "t \<in> set (ready st i)"
  shows "sched_ok L {t} (set_ready i (LIST_REMOVE (ready st i) t) st)"
proof -
  note D = sched_okD [OF ok]
  let ?s = "set_ready i (LIST_REMOVE (ready st i) t) st"
  have tr: "t \<in> L" "t_state (thr st t) = READY" "\<not> is_current st t" "t_priority (thr st t) = i"
    using t by (auto simp: ready_mem [OF D(1)])
  have cur: "is_current ?s x = is_current st x" for x by (rule is_current_cong) simp_all
  have m: "threads_sleepcmp ?s = threads_sleepcmp st" by (rule sleepcmp_ext) simp_all
  have "ready_ok L {t} ?s"
    by (rule ready_okI) (use tr in \<open>auto simp: cur ready_mem [OF D(1)] ready_distinct [OF D(1)] LIST_REMOVE_def\<close>)
  then show ?thesis using D by (simp add: sched_ok_def queues_ok_def sleep_ok_def fields_ok_def ghosts_ok_def cpus_ok_def m)
qed

end
