(* ===== verification/Proc_Sched_Run.thy ===== *)
theory Proc_Sched_Run
  imports Proc_Sched_Inv
begin

text \<open>
  The scheduler and the timer interrupt return on every state that satisfies the invariant, and keep
  it; what they choose and whom they wake.
\<close>

section \<open>The scheduler\<close>

lemma wakeup_thr:
  assumes ok: "sched_ok L X st" and x: "t_state (thr st x) \<noteq> SLEEP"
  shows "t_exit (thr (fst (threadWakeup q st)) x) = t_exit (thr st x)"
    "t_supervisor (thr (fst (threadWakeup q st)) x) = t_supervisor (thr st x)"
    "t_priority (thr (fst (threadWakeup q st)) x) = t_priority (thr st x)"
    "t_state (thr (fst (threadWakeup q st)) x) = t_state (thr st x)"
proof -
  have "t_state (thr st t) = SLEEP" if "queues st q = Queue (t # ts)" for t ts
    using queue_mem [OF sched_okD(2) [OF ok], of t q] that by simp
  then show "t_exit (thr (fst (threadWakeup q st)) x) = t_exit (thr st x)"
    "t_supervisor (thr (fst (threadWakeup q st)) x) = t_supervisor (thr st x)"
    "t_priority (thr (fst (threadWakeup q st)) x) = t_priority (thr st x)"
    "t_state (thr (fst (threadWakeup q st)) x) = t_state (thr st x)"
    using x by (auto simp: threadWakeup_def dequeue_thr split: waitq.split list.split)
qed

definition runnable :: "'a kernel_scheme \<Rightarrow> addr \<Rightarrow> bool" where
  "runnable st t \<longleftrightarrow> t_state (thr st t) = READY \<and> \<not> is_current st t \<and> (\<not> t_exit (thr st t) \<or> t_supervisor (thr st t))"

text \<open>Threads outside \<open>B\<close> that are ready and need not exit stay so.\<close>

definition steady :: "addr set \<Rightarrow> 'a kernel_scheme \<Rightarrow> 'a kernel_scheme \<Rightarrow> bool" where
  "steady B st st' \<longleftrightarrow> ncpu st' = ncpu st \<and>
     (\<forall>t. t \<notin> B \<and> t_state (thr st t) = READY \<and> \<not> t_exit (thr st t) \<longrightarrow>
        t_state (thr st' t) = READY \<and> \<not> t_exit (thr st' t))"

lemma steady_refl: "steady B st st"
  by (simp add: steady_def)

lemma steady_trans: "steady B a b \<Longrightarrow> steady B b c \<Longrightarrow> steady B a c"
  by (simp add: steady_def)

lemma steady_mono: "steady {} a b \<Longrightarrow> steady B a b"
  by (simp add: steady_def)

lemma steady_wakeup:
  assumes "sched_ok L X st"
  shows "steady B st (fst (threadWakeup q st))"
  using wakeup_thr [OF assms] wakeup_ok(3) [OF assms] by (simp add: steady_def)

lemma select_ghost_step:
  assumes ok: "sched_ok L {} st" and fin: "finite L" and t: "t \<in> set (ready st i)"
    and e: "t_exit (thr st t)" "\<not> t_supervisor (thr st t)"
  defines "s \<equiv> fst (threadWakeup Qreaper (make_ghost i t st))"
  shows "sched_ok L {} s" and "current s = current st" and "ncpu s = ncpu st"
    and "card {x \<in> L. t_state (thr s x) \<noteq> GHOST} < card {x \<in> L. t_state (thr st x) \<noteq> GHOST}"
    and "d \<in> L \<Longrightarrow> runnable st d \<Longrightarrow> runnable s d \<and> t_priority (thr s d) = t_priority (thr st d)"
    and "steady {} st s"
proof -
  have g: "sched_ok L {} (make_ghost i t st)" by (rule make_ghost_ok [OF ok t])
  show "sched_ok L {} s" unfolding s_def by (rule wakeup_ok [OF g])
  have c: "current (make_ghost i t st) = current st" "ncpu (make_ghost i t st) = ncpu st"
    by (simp_all add: make_ghost_def Let_def)
  show cs: "current s = current st" "ncpu s = ncpu st" unfolding s_def by (simp_all add: wakeup_ok [OF g] c)
  have st: "t_state (thr (make_ghost i t st) x) = (if x = t then GHOST else t_state (thr st x))"
    "t_exit (thr (make_ghost i t st) x) = t_exit (thr st x)" "t_supervisor (thr (make_ghost i t st) x) = t_supervisor (thr st x)"
    "t_priority (thr (make_ghost i t st) x) = t_priority (thr st x)" for x
    by (simp_all add: make_ghost_def Let_def)
  have tr: "t \<in> L" "t_state (thr st t) = READY" using t by (auto simp: ready_mem [OF sched_okD(1) [OF ok]])
  have hd: "t_state (thr (make_ghost i t st) (hd (waiting (queues (make_ghost i t st) Qreaper)))) = SLEEP"
    if "waiting (queues (make_ghost i t st) Qreaper) \<noteq> []"
    using queue_mem [OF sched_okD(2) [OF g], of "hd (waiting (queues (make_ghost i t st) Qreaper))" Qreaper] that by simp
  have "{x \<in> L. t_state (thr s x) \<noteq> GHOST} = {x \<in> L. t_state (thr st x) \<noteq> GHOST} - {t}"
    using hd unfolding s_def by (auto simp: wakeup_states [OF g] st split: if_splits)
  then show "card {x \<in> L. t_state (thr s x) \<noteq> GHOST} < card {x \<in> L. t_state (thr st x) \<noteq> GHOST}"
    using card_Diff1_less [of "{x \<in> L. t_state (thr st x) \<noteq> GHOST}" t] fin tr by simp
  show "runnable s d \<and> t_priority (thr s d) = t_priority (thr st d)" if d: "d \<in> L" "runnable st d"
  proof -
    have "d \<noteq> t" using d e by (auto simp: runnable_def)
    then have "t_state (thr (make_ghost i t st) d) \<noteq> SLEEP" using d by (simp add: st runnable_def)
    from wakeup_thr [OF g this, of Qreaper] show ?thesis
      using d \<open>d \<noteq> t\<close> cs unfolding s_def by (simp add: runnable_def st is_current_def)
  qed
  have "steady {} st (make_ghost i t st)" using e c by (auto simp: steady_def st)
  then show "steady {} st s" using steady_trans [OF _ steady_wakeup [OF g]] unfolding s_def by blast
qed

lemma select_ok:
  assumes fin: "finite L" and ok: "sched_ok L {} st"
  shows "\<exists>sel st'. schedule_select i st = Some (sel, st') \<and> sched_ok L (if sel = NULL then {} else {sel}) st' \<and>
    current st' = current st \<and> ncpu st' = ncpu st \<and> steady {} st st' \<and>
    ((\<exists>d \<in> L. runnable st d \<and> i \<le> t_priority (thr st d)) \<longrightarrow> sel \<noteq> NULL)"
  using ok
proof (induction "card {x \<in> L. t_state (thr st x) \<noteq> GHOST} * (nprio + 1) + (nprio - i)" arbitrary: i st rule: less_induct)
  case less
  note ok = less.prems
  note D = sched_okD [OF ok]
  have pr: "t_priority (thr st d) < nprio" if "d \<in> L" for d using D(4) that by (auto simp: fields_ok_def thread_ok_def)
  show ?case
  proof (cases "i < nprio")
    case False
    then show ?thesis using ok pr steady_refl [of "{}" st] by (subst schedule_select.simps) fastforce
  next
    case True
    show ?thesis
    proof (cases "ready st i")
      case Nil
      have "Suc i \<le> t_priority (thr st d)" if "d \<in> L" "runnable st d" "i \<le> t_priority (thr st d)" for d
        using that Nil ready_mem [OF D(1), of d i] by (cases "t_priority (thr st d) = i") (auto simp: runnable_def)
      moreover have "schedule_select i st = schedule_select (Suc i) st"
        using True Nil by (subst schedule_select.simps) simp
      moreover have "card {x \<in> L. t_state (thr st x) \<noteq> GHOST} * (nprio + 1) + (nprio - Suc i) <
          card {x \<in> L. t_state (thr st x) \<noteq> GHOST} * (nprio + 1) + (nprio - i)" using True by simp
      note less.hyps [OF this ok]
      ultimately show ?thesis by (metis (no_types, lifting))
    next
      case (Cons t ts)
      then have t: "t \<in> set (ready st i)" by simp
      then have tn: "t \<noteq> NULL" using D(4) by (metis ready_mem [OF D(1)] fields_ok_def)
      show ?thesis
      proof (cases "t_exit (thr st t) \<and> \<not> t_supervisor (thr st t)")
        case False
        then have "schedule_select i st = Some (t, set_ready i (LIST_REMOVE (ready st i) t) st)"
          using True Cons by (subst schedule_select.simps) (simp add: Let_def)
        then show ?thesis using take_ok [OF ok t] tn by (simp add: steady_def)
      next
        case e: True
        let ?s = "fst (threadWakeup Qreaper (make_ghost i t st))"
        have code: "schedule_select i st = schedule_select i ?s"
          using e True Cons by (subst schedule_select.simps) (simp add: Let_def make_ghost_def)
        note S = select_ghost_step [OF ok fin t conjunct1 [OF e] conjunct2 [OF e]]
        have "card {x \<in> L. t_state (thr ?s x) \<noteq> GHOST} * (nprio + 1) + (nprio - i) <
          card {x \<in> L. t_state (thr st x) \<noteq> GHOST} * (nprio + 1) + (nprio - i)"
          using S(4) by (intro add_strict_right_mono mult_strict_right_mono) simp_all
        from less.hyps [OF this S(1)] obtain sel st' where
          r: "schedule_select i ?s = Some (sel, st')" "sched_ok L (if sel = NULL then {} else {sel}) st'"
            "current st' = current ?s" "ncpu st' = ncpu ?s" "steady {} ?s st'"
            "(\<exists>d \<in> L. runnable ?s d \<and> i \<le> t_priority (thr ?s d)) \<longrightarrow> sel \<noteq> NULL" by blast
        have "sel \<noteq> NULL" if "d \<in> L" "runnable st d" "i \<le> t_priority (thr st d)" for d
          using r(6) S(5) [OF that(1,2)] that(1,3) by auto
        then show ?thesis using r S(2,3) steady_trans [OF S(6) r(5)] unfolding code by auto
      qed
    qed
  qed
qed

lemma sched_eq_trans: "sched_eq a b \<Longrightarrow> sched_eq b c \<Longrightarrow> sched_eq a c"
  by (simp add: sched_eq_def)

lemma sched_eq_refl: "sched_eq a a"
  by (simp add: sched_eq_def)

lemma sched_eq_upd: "(\<And>r. sched_fields (f r) = sched_fields r) \<Longrightarrow> sched_eq st (upd_thr t f st)"
  by (simp add: sched_eq_def)

lemma sched_eq_perf: "sched_eq st (perf_event t ty st)"
  by (simp add: sched_eq_def sched_fields_def)

lemma sched_eq_checkSignal: "sched_eq st (fst (threads_checkSignal t p st))"
  by (simp add: threads_checkSignal_def Let_def sched_eq_def sched_fields_def upd_proc_def)

lemma sched_eq_cpuTime: "sched_eq st (threads_cpuTimeCalc a b st)"
  by (simp add: threads_cpuTimeCalc_def Let_def case_prod_beta sched_eq_def sched_fields_def)

lemma put_on_cpu_ok:
  assumes ok: "sched_ok L {sel} st" and cpu: "cpu < ncpu st" "current st cpu = NULL"
  shows "sched_ok L {} (st\<lparr>current := (current st)(cpu := sel)\<rparr>)"
proof -
  note D = sched_okD [OF ok]
  let ?s = "st\<lparr>current := (current st)(cpu := sel)\<rparr>"
  have h: "sel \<in> L" "t_state (thr st sel) = READY" "\<not> is_current st sel" using hand_ready [OF D(1)] by auto
  have cur: "is_current ?s x = (is_current st x \<or> x = sel)" if "x \<noteq> NULL" for x
    using cpu that unfolding is_current_iff by simp (metis neq0_conv)
  have nn: "x \<in> L \<Longrightarrow> x \<noteq> NULL" for x using D(4) by (metis fields_ok_def)
  have m: "threads_sleepcmp ?s = threads_sleepcmp st" by (rule sleepcmp_ext) simp_all
  have "ready_ok L {} ?s"
    by (rule ready_okI) (use h nn in \<open>auto simp: cur ready_mem [OF D(1)] ready_distinct [OF D(1)]\<close>)
  moreover have "cpus_ok L ?s" using D(6) h by (auto simp: cpus_ok_def is_current_iff)
  ultimately show ?thesis using D by (simp add: sched_ok_def queues_ok_def sleep_ok_def fields_ok_def ghosts_ok_def m)
qed

lemma switch_eq:
  "sel \<noteq> NULL \<Longrightarrow> sched_eq (st\<lparr>current := (current st)(cpu := sel)\<rparr>) (schedule_switch cpu sel st)"
  unfolding schedule_switch_def Let_def perf_kinds
  using sched_eq_trans [OF sched_eq_checkSignal sched_eq_perf] sched_eq_perf by auto

lemma steady_upd: "(\<And>r. t_state (f r) = t_state r \<and> t_exit (f r) = t_exit r) \<Longrightarrow> steady B st (upd_thr t f st)"
  by (simp add: steady_def)

lemma steady_perf: "steady B st (perf_event t ty st)"
  by (simp add: steady_def)

lemma steady_checkSignal: "steady B st (fst (threads_checkSignal t p st))"
  by (simp add: threads_checkSignal_def Let_def steady_def upd_proc_def)

lemma steady_switch: "steady B st (schedule_switch cpu sel st)"
proof -
  have c: "steady B st (st\<lparr>current := c\<rparr>)" for c by (simp add: steady_def)
  show ?thesis
    unfolding schedule_switch_def Let_def perf_kinds
    by (auto intro: steady_refl c steady_trans [OF c steady_perf] steady_trans [OF steady_trans [OF c steady_checkSignal] steady_perf])
qed

lemma steady_cpuTime: "steady B st (threads_cpuTimeCalc a b st)"
  by (simp add: steady_def threads_cpuTimeCalc_def Let_def case_prod_beta)

lemma schedule_ok:
  assumes fin: "finite L" and ok: "sched_ok L {} st" and cpu: "cpu < ncpu st"
  shows "\<exists>st'. threads_schedule cpu kmode st = Some st' \<and> sched_ok L {} st' \<and> ncpu st' = ncpu st \<and>
    (\<forall>c. c \<noteq> cpu \<longrightarrow> current st' c = current st c) \<and> steady {} st st' \<and>
    ((\<exists>d \<in> L. runnable (schedule_save cpu kmode st) d) \<longrightarrow> current st' cpu \<noteq> NULL)"
proof -
  let ?s = "schedule_save cpu kmode st"
  note S = save_ok [OF ok cpu, of kmode]
  obtain sel s2 where r: "schedule_select 0 ?s = Some (sel, s2)" "sched_ok L (if sel = NULL then {} else {sel}) s2"
      "current s2 = current ?s" "ncpu s2 = ncpu ?s" "(\<exists>d \<in> L. runnable ?s d) \<longrightarrow> sel \<noteq> NULL" "steady {} ?s s2"
    using select_ok [OF fin S(1), of 0] by auto
  let ?w = "schedule_switch cpu sel s2" and ?c = "threads_cpuTimeCalc (current st cpu) sel (schedule_switch cpu sel s2)"
  have code: "threads_schedule cpu kmode st = Some ?c" by (simp add: threads_schedule_def r(1))
  have "sched_ok L {} ?w \<and> current ?w = (current s2)(cpu := sel) \<and> ncpu ?w = ncpu s2"
  proof (cases "sel = NULL")
    case True
    then show ?thesis using r(2,3) S(2) by (auto simp: schedule_switch_def)
  next
    case False
    have "sched_ok L {} (s2\<lparr>current := (current s2)(cpu := sel)\<rparr>)"
      by (rule put_on_cpu_ok) (use r False S cpu in auto)
    then show ?thesis
      using switch_eq [OF False, of s2 cpu] sched_ok_cong [OF switch_eq [OF False, of s2 cpu]] by (simp add: sched_eq_def)
  qed
  moreover have "steady {} st ?s"
    by (simp add: steady_def schedule_save_def Let_def perf_kinds)
  moreover have "steady {} s2 ?c" by (rule steady_trans [OF steady_switch steady_cpuTime])
  ultimately show ?thesis
    using steady_trans [OF steady_trans [OF _ r(6)]]
    unfolding code using sched_eq_cpuTime [of ?w "current st cpu" sel] sched_ok_cong [OF sched_eq_cpuTime [of ?w "current st cpu" sel]]
      r(3-5) S(2,3) by (auto simp: sched_eq_def)
qed

lemma reschedule_ok:
  assumes "finite L" and "sched_ok L {} st" and "cpu < ncpu st"
  shows "\<exists>st'. hal_cpuReschedule cpu st = Some st' \<and> sched_ok L {} st' \<and> ncpu st' = ncpu st \<and> steady {} st st'"
proof -
  let ?s = "upd_thr (current st cpu) (\<lambda>r. r\<lparr>t_retval := EOK\<rparr>) st"
  have "sched_ok L {} ?s" by (rule fields_ok_upd [OF assms(2)]) (simp add: sched_fields_def)
  moreover have st: "steady {} st ?s" by (simp add: steady_def)
  ultimately obtain st' where "threads_schedule cpu True ?s = Some st'" "sched_ok L {} st'" "ncpu st' = ncpu st" "steady {} ?s st'"
    using schedule_ok [OF assms(1), of ?s cpu True] assms(3) by auto
  then show ?thesis using steady_trans [OF st] by (auto simp: hal_cpuReschedule_def)
qed

section \<open>The timer interrupt\<close>

lemma sleeping_wakeup_le:
  "sleep_ok L st \<Longrightarrow> sleeping st = t # ts \<Longrightarrow> x \<in> set ts \<Longrightarrow> t_wakeup (thr st t) \<le> t_wakeup (thr st x)"
  using sleep_sorted [of L st] sleepcmp_wakeup by fastforce

lemma timeintr_loop_ok:
  assumes "sched_ok L {} st"
  shows "\<exists>st'. timeintr_loop now st = Some (first_or_null (sleeping st'), st') \<and> sched_ok L {} st' \<and>
     ncpu st' = ncpu st \<and> current st' = current st \<and>
     (\<forall>x. if x \<in> set (sleeping st) \<and> t_wakeup (thr st x) \<le> now
          then t_state (thr st' x) = READY \<and> t_retval (thr st' x) = - ETIME
          else sched_fields (thr st' x) = sched_fields (thr st x) \<and> t_retval (thr st' x) = t_retval (thr st x)) \<and>
     sleeping st' = filter (\<lambda>x. t_wakeup (thr st x) > now) (sleeping st)"
  using assms
proof (induction "length (sleeping st)" arbitrary: st)
  case 0
  then show ?case by (subst timeintr_loop.simps) (simp add: first_or_null_def)
next
  case (Suc n)
  note ok = Suc.prems and D = sched_okD [OF Suc.prems]
  obtain t ts where ts: "sleeping st = t # ts" using Suc.hyps(2) by (cases "sleeping st") auto
  have tm: "t \<in> L" "t_state (thr st t) = SLEEP" "t_wakeup (thr st t) \<noteq> 0" using ts sleep_mem [OF D(3), of t] by auto
  have tt: "t \<notin> set ts" using sleep_distinct [OF D(3)] ts by simp
  show ?case
  proof (cases "t_wakeup (thr st t) > now")
    case True
    have late: "now < t_wakeup (thr st x)" if "x \<in> set (sleeping st)" for x
      using that True ts sleeping_wakeup_le [OF D(3) ts, of x] by auto
    then have "filter (\<lambda>x. now < t_wakeup (thr st x)) (sleeping st) = sleeping st" by (simp add: filter_id_conv)
    moreover have "timeintr_loop now st = Some (first_or_null (sleeping st), st)"
      using ts True by (subst timeintr_loop.simps) (simp add: first_or_null_def)
    ultimately show ?thesis using ok late by (intro exI [of _ st]) (auto dest: leD)
  next
    case False
    let ?s = "upd_thr t (\<lambda>r. r\<lparr>t_retval := - ETIME\<rparr>) (proc_threadDequeue t st)"
    have ok': "sched_ok L {} ?s"
      by (rule fields_ok_upd [OF dequeue_ok [OF ok tm(1,2)]]) (simp add: sched_fields_def)
    have g: "t_state (thr st t) \<noteq> GHOST" using tm by simp
    note F = dequeue_thr [OF g] dequeue_lists(3) [OF g]
    have sl: "sleeping ?s = ts" using ts tm tt by (simp add: F)
    then have len: "n = length (sleeping ?s)" using Suc.hyps(2) ts by simp
    have code: "timeintr_loop now st = timeintr_loop now ?s" using ts False by (subst timeintr_loop.simps) simp
    have w: "t_wakeup (thr ?s x) = t_wakeup (thr st x)" if "x \<noteq> t" for x using that by (simp add: F)
    then have fl: "filter (\<lambda>x. t_wakeup (thr ?s x) > now) ts = filter (\<lambda>x. t_wakeup (thr st x) > now) (sleeping st)"
      using ts False tt by (auto intro!: filter_cong)
    from Suc.hyps(1) [OF len ok'] obtain st' where
      r: "timeintr_loop now ?s = Some (first_or_null (sleeping st'), st')" "sched_ok L {} st'" "ncpu st' = ncpu ?s"
        "current st' = current ?s" "sleeping st' = filter (\<lambda>x. t_wakeup (thr ?s x) > now) (sleeping ?s)"
        "\<forall>x. if x \<in> set (sleeping ?s) \<and> t_wakeup (thr ?s x) \<le> now
          then t_state (thr st' x) = READY \<and> t_retval (thr st' x) = - ETIME
          else sched_fields (thr st' x) = sched_fields (thr ?s x) \<and> t_retval (thr st' x) = t_retval (thr ?s x)"
      by blast
    have "if x \<in> set (sleeping st) \<and> t_wakeup (thr st x) \<le> now
          then t_state (thr st' x) = READY \<and> t_retval (thr st' x) = - ETIME
          else sched_fields (thr st' x) = sched_fields (thr st x) \<and> t_retval (thr st' x) = t_retval (thr st x)" for x
      using r(6) [rule_format, of x] ts tt False by (cases "x = t") (auto simp: sl F sched_fields_def split: if_splits)
    then show ?thesis using r(1-5) fl sl unfolding code by (intro exI [of _ st']) simp
  qed
qed

end
