(* ===== verification/Proc_Sched_Steps.thy ===== *)
theory Proc_Sched_Steps
  imports Proc_Sched_Run
begin

text \<open>
  The operations of the thread manager as steps of a machine, and the invariant along its runs.
\<close>

section \<open>The operations keep the invariant\<close>

lemma wakeup_queue:
  assumes "sched_ok L X st"
  shows "waiting (queues (fst (threadWakeup q st)) r) = (if r = q then tl (waiting (queues st q)) else waiting (queues st r))"
    and "snd (threadWakeup q st) = (if waiting (queues st q) = [] then 0 else 1)"
proof -
  have D: "queues_ok L st" using sched_okD(2) [OF assms] .
  have "waiting (queues (fst (threadWakeup q st)) r) = (if r = q then tl (waiting (queues st q)) else waiting (queues st r)) \<and>
      snd (threadWakeup q st) = (if waiting (queues st q) = [] then 0 else 1)"
  proof (cases "waiting (queues st q)")
    case Nil
    then have "threadWakeup q st = (set_queue q WakeupPending st, 0)" by (auto simp: threadWakeup_def split: waitq.split)
    then show ?thesis using Nil by simp
  next
    case (Cons t ts)
    then have e: "threadWakeup q st = (proc_threadDequeue t st, 1)" by (auto simp: threadWakeup_def split: waitq.split)
    have t: "t_state (thr st t) = SLEEP" "t_wait (thr st t) = Some q" using queue_mem [OF D, of t q] Cons by auto
    then have "t_state (thr st t) \<noteq> GHOST" by simp
    from dequeue_lists(2) [OF this] show ?thesis using t Cons e by simp
  qed
  then show "waiting (queues (fst (threadWakeup q st)) r) = (if r = q then tl (waiting (queues st q)) else waiting (queues st r))"
    "snd (threadWakeup q st) = (if waiting (queues st q) = [] then 0 else 1)" by simp_all
qed

lemma dequeue_queue:
  assumes "t_state (thr st t) \<noteq> GHOST" and "t_wait (thr st t) = Some q"
  shows "queues (proc_threadDequeue t st) q = Queue (remove1 t (waiting (queues st q)))"
  using assms by (simp add: proc_threadDequeue_def Let_def perf_kinds LIST_REMOVE_def)

lemma waiting_cases: "waiting w = [] \<Longrightarrow> w = WakeupPending \<or> w = Queue []"
  by (cases w) auto

lemma broadcast_ok:
  assumes "sched_ok L {} st"
  shows "\<exists>st'. threadBroadcast q r st = Some (st', r + int (length (waiting (queues st q)))) \<and> sched_ok L {} st' \<and>
    ncpu st' = ncpu st \<and> current st' = current st \<and> waiting (queues st' q) = [] \<and>
    (waiting (queues st q) = [] \<longleftrightarrow> queues st' q = WakeupPending) \<and> steady {} st st' \<and>
    (\<forall>x. t_state (thr st' x) = (if x \<in> set (waiting (queues st q)) then READY else t_state (thr st x)))"
  using assms
proof (induction "length (waiting (queues st q))" arbitrary: st r)
  case 0
  then have e: "threadWakeup q st = (set_queue q WakeupPending st, 0)" by (auto simp: threadWakeup_def split: waitq.split)
  have "sched_ok L {} (set_queue q WakeupPending st)" by (rule set_queue_empty_ok) (use 0 in auto)
  then show ?case using 0 e by (subst threadBroadcast.simps) (simp add: steady_def)
next
  case (Suc n)
  note ok = Suc.prems
  let ?s = "fst (threadWakeup q st)"
  obtain t ts where ts: "waiting (queues st q) = t # ts" using Suc.hyps(2) by (cases "waiting (queues st q)") auto
  note W = wakeup_ok [OF ok, of q] steady_wakeup [OF ok, of "{}" q] and Q = wakeup_queue [OF ok, of q] and S = wakeup_states [OF ok, of q]
  have q': "waiting (queues ?s q) = ts" using Q(1) [of q] ts by simp
  show ?case
  proof (cases ts)
    case Nil
    have t: "t_state (thr st t) = SLEEP" "t_wait (thr st t) = Some q"
      using queue_mem [OF sched_okD(2) [OF ok], of t q] ts by auto
    have "?s = proc_threadDequeue t st" using ts by (auto simp: threadWakeup_def split: waitq.split)
    then have "queues ?s q = Queue []" using dequeue_queue [of st t q] t ts Nil by simp
    then have "threadBroadcast q r st = Some (?s, r + 1)"
      by (subst threadBroadcast.simps) (simp add: case_prod_beta Let_def Q(2) ts)
    then show ?thesis using W ts Nil \<open>queues ?s q = Queue []\<close> by (intro exI [of _ ?s]) (simp add: S)
  next
    case (Cons u us)
    then have qs: "queues ?s q = Queue (u # us)" using q' by (cases "queues ?s q") auto
    then have code: "threadBroadcast q r st = threadBroadcast q (r + 1) ?s"
      by (subst threadBroadcast.simps) (simp add: case_prod_beta Let_def Q(2) ts)
    have "n = length (waiting (queues ?s q))" using Suc.hyps(2) ts q' by simp
    from Suc.hyps(1) [OF this W(1), of "r + 1"] obtain st' where
      r: "threadBroadcast q (r + 1) ?s = Some (st', r + 1 + int (length ts))" "sched_ok L {} st'" "ncpu st' = ncpu ?s"
        "current st' = current ?s" "waiting (queues st' q) = []" "queues st' q \<noteq> WakeupPending" "steady {} ?s st'"
        "\<forall>x. t_state (thr st' x) = (if x \<in> set ts then READY else t_state (thr ?s x))"
      using q' Cons by auto
    then show ?thesis unfolding code using W ts steady_trans [OF W(4)] by (intro exI [of _ st']) (simp add: S)
  qed
qed

lemma waitEx_ok:
  assumes fin: "finite L" and ok: "sched_ok L {} st"
    and cpu: "cpu < ncpu st" "current st cpu \<noteq> NULL" "t_state (thr st (current st cpu)) = READY"
    and w: "timeout = 0 \<or> hal_timer st (reads st) + timeout \<noteq> 0"
  shows "case proc_threadWaitEx cpu q timeout i st of
      Inl (st', e) \<Rightarrow> sched_ok L {} st' \<and> steady {current st cpu} st st'
    | Inr r \<Rightarrow> (\<exists>st'. r = Some st' \<and> sched_ok L {} st' \<and> steady {current st cpu} st st')"
proof -
  let ?s = "proc_threadEnqueue cpu q timeout i st"
  have e: "sched_ok L {} ?s" by (rule enqueue_ok [OF ok cpu w])
  have n: "ncpu ?s = ncpu st" and d: "steady {current st cpu} st ?s"
    by (simp_all add: proc_threadEnqueue_def steady_def Let_def case_prod_beta perf_kinds)
  show ?thesis
    using reschedule_ok [OF fin e, of cpu] e n cpu(1) d steady_trans [OF d steady_mono]
    by (auto simp: proc_threadWaitEx_def Let_def)
qed

lemma sleep_asleep:
  assumes "us \<noteq> 0" and "hal_timer st (reads st) + us \<noteq> 0"
  shows "\<exists>s. asleep (current st cpu) None (hal_timer st (reads st) + us) True st s \<and> proc_threadSleep cpu us st = hal_cpuReschedule cpu s \<and>
    steady {current st cpu} st s"
proof -
  let ?now = "hal_timer st (reads st)" and ?cur = "current st cpu"
  define a where "a = upd_thr ?cur (\<lambda>r. r\<lparr>t_state := SLEEP, t_wait := None, t_wakeup := ?now + us,
                              t_interruptible := True\<rparr>) (snd (proc_gettimeRaw st))"
  define b where "b = a\<lparr>sleeping := ordered_insert (threads_sleepcmp a) ?cur (sleeping a)\<rparr>"
  define s where "s = threads_updateWakeup ?now NULL (perf_enqueued ?cur b)"
  have "threads_sleepcmp s = threads_sleepcmp a"
    by (rule sleepcmp_ext) (simp_all add: s_def b_def perf_kinds)
  then have "asleep ?cur None (?now + us) True st s"
    using assms by (auto simp: asleep_def sched_fields_def s_def b_def perf_kinds) (auto simp: a_def)
  moreover have "proc_threadSleep cpu us st = hal_cpuReschedule cpu s"
    using assms by (simp add: proc_threadSleep_def Let_def case_prod_beta a_def b_def s_def)
  moreover have "steady {?cur} st s" by (simp add: steady_def s_def b_def a_def perf_kinds)
  ultimately show ?thesis by blast
qed

lemma current_live:
  assumes "sched_ok L X st" and "cpu < ncpu st" and "current st cpu \<noteq> NULL"
  shows "current st cpu \<in> L" and "is_current st (current st cpu)"
  using sched_okD(6) [OF assms(1)] assms(2,3) by (auto simp: cpus_ok_def is_current_iff)

lemma threadSleep_ok:
  assumes fin: "finite L" and ok: "sched_ok L {} st"
    and cpu: "cpu < ncpu st" "current st cpu \<noteq> NULL" "t_state (thr st (current st cpu)) = READY"
    and w: "us = 0 \<or> hal_timer st (reads st) + us \<noteq> 0"
  shows "\<exists>st'. proc_threadSleep cpu us st = Some st' \<and> sched_ok L {} st' \<and> steady {current st cpu} st st'"
proof (cases "us = 0")
  case True
  then show ?thesis using reschedule_ok [OF fin ok cpu(1)] steady_mono by (auto simp: proc_threadSleep_def)
next
  case False
  then obtain s where s: "asleep (current st cpu) None (hal_timer st (reads st) + us) True st s"
      "proc_threadSleep cpu us st = hal_cpuReschedule cpu s" "steady {current st cpu} st s"
    using sleep_asleep w by blast
  have "sched_ok L {} s" using asleep_ok [OF ok s(1)] current_live [OF ok cpu(1,2)] cpu w False by auto
  moreover have "ncpu s = ncpu st" using s(3) by (simp add: steady_def)
  ultimately show ?thesis
    using reschedule_ok [OF fin, of s cpu] cpu(1) s(2) steady_trans [OF s(3) steady_mono] by auto
qed

lemma steady_dequeue: "steady B st (proc_threadDequeue t st)"
proof (cases "t_state (thr st t) = GHOST")
  case True
  then show ?thesis by (simp add: proc_threadDequeue_def steady_refl)
next
  case False
  then show ?thesis by (simp add: steady_def dequeue_thr)
qed

lemma interrupt_ok:
  assumes ok: "sched_ok L {} st" and t: "t \<in> L" "t_state (thr st t) = SLEEP"
  shows "sched_ok L {} (thread_interrupt t st)" and "steady B st (thread_interrupt t st)"
proof -
  show "sched_ok L {} (thread_interrupt t st)"
    unfolding thread_interrupt_def by (rule fields_ok_upd [OF dequeue_ok [OF ok t]]) (simp add: sched_fields_def)
  show "steady B st (thread_interrupt t st)"
    unfolding thread_interrupt_def by (rule steady_trans [OF steady_dequeue steady_upd]) simp
qed

lemma interruptible_sleeps: "sched_ok L X st \<Longrightarrow> t \<in> L \<Longrightarrow> t_interruptible (thr st t) \<Longrightarrow> t_state (thr st t) = SLEEP"
  using sched_okD(4) [of L X st] by (auto simp: fields_ok_def thread_ok_def split: if_splits)

lemma threadExit_ok:
  assumes ok: "sched_ok L {} st" and t: "t \<in> L"
  shows "sched_ok L {} (proc_threadExit t st)" and "steady {t} st (proc_threadExit t st)"
proof -
  let ?s = "upd_thr t (\<lambda>r. r\<lparr>t_exit := True\<rparr>) st"
  have s: "sched_ok L {} ?s" by (rule fields_ok_upd [OF ok]) (simp add: sched_fields_def)
  have d: "steady {t} st ?s" by (simp add: steady_def)
  have i: "t_interruptible (thr ?s t) \<Longrightarrow> t_state (thr ?s t) = SLEEP" by (rule interruptible_sleeps [OF s t])
  show "sched_ok L {} (proc_threadExit t st)"
    using s interrupt_ok(1) [OF s t] i by (simp add: proc_threadExit_def Let_def)
  show "steady {t} st (proc_threadExit t st)"
    using d steady_trans [OF d interrupt_ok(2) [OF s t]] i by (simp add: proc_threadExit_def Let_def)
qed

lemma threadsDestroy_ok:
  assumes "sched_ok L {} st" and "set ts \<subseteq> L"
  shows "sched_ok L {} (proc_threadsDestroy ts st) \<and> steady (set ts) st (proc_threadsDestroy ts st)"
  using assms
proof (induction ts arbitrary: st)
  case Nil
  then show ?case by (simp add: proc_threadsDestroy_def steady_refl)
next
  case (Cons t ts)
  have t: "t \<in> L" and sub: "set ts \<subseteq> L" using Cons.prems by auto
  note E = threadExit_ok [OF Cons.prems(1) t]
  from Cons.IH [OF E(1) sub] show ?case
    using E(2) by (auto simp: proc_threadsDestroy_def steady_def)
qed

lemma threadEnd_ok:
  assumes fin: "finite L" and ok: "sched_ok L {} st"
    and cpu: "cpu < ncpu st" "current st cpu \<noteq> NULL" "t_state (thr st (current st cpu)) = READY"
  shows "\<exists>st'. proc_threadEnd cpu st = Some st' \<and> sched_ok L {} st' \<and> steady {current st cpu} st st'"
proof -
  note D = sched_okD [OF ok]
  let ?t = "current st cpu"
  define s where "s = (upd_thr ?t (\<lambda>r. r\<lparr>t_state := GHOST\<rparr>) (st\<lparr>current := (current st)(cpu := NULL)\<rparr>))
      \<lparr>ghosts := LIST_ADD (ghosts st) ?t\<rparr>"
  have f: "t_state (thr s x) = (if x = ?t then GHOST else t_state (thr st x))" "t_wait (thr s x) = t_wait (thr st x)"
    "t_wakeup (thr s x) = t_wakeup (thr st x)" "t_interruptible (thr s x) = t_interruptible (thr st x)"
    "t_priority (thr s x) = t_priority (thr st x)" "t_priorityBase (thr s x) = t_priorityBase (thr st x)"
    "t_exit (thr s x) = t_exit (thr st x)" for x
    by (simp_all add: s_def)
  have e: "current s = (current st)(cpu := NULL)" "ncpu s = ncpu st" "queues s = queues st" "sleeping s = sleeping st"
    "tids s = tids st" "ghosts s = ghosts st @ [?t]" "ready s = ready st"
    by (simp_all add: s_def LIST_ADD_def)
  note t = current_live [OF ok cpu(1,2)]
  have cur: "is_current s x = (is_current st x \<and> x \<noteq> ?t)" if "x \<noteq> NULL" for x
    using D(6) cpu that unfolding is_current_iff e cpus_ok_def by auto
  have nn: "x \<in> L \<Longrightarrow> x \<noteq> NULL" for x using D(4) by (metis fields_ok_def)
  have m: "threads_sleepcmp s = threads_sleepcmp st" by (rule sleepcmp_ext) (simp_all add: f e)
  have "ready_ok L {} s"
    by (rule ready_okI) (use t cpu nn in \<open>auto simp: cur f e ready_mem [OF D(1)] ready_distinct [OF D(1)]\<close>)
  moreover have "queues_ok L s"
    by (rule queues_okI) (use t cpu in \<open>auto simp: f e queue_mem [OF D(2)] queue_distinct [OF D(2)]\<close>)
  moreover have "sleep_ok L s"
    by (rule sleep_okI) (use t cpu sleep_sorted [OF D(3)] in \<open>auto simp: f e m sleep_mem [OF D(3)] sleep_distinct [OF D(3)]\<close>)
  moreover have "fields_ok L s" using D(4) t cpu by (auto simp: fields_ok_def thread_ok_def f)
  moreover have "ghosts_ok L s" using D(5) t cpu by (auto simp: ghosts_ok_def f e)
  moreover have "cpus_ok L s" using D(6) cpu by (auto simp: cpus_ok_def f e)
  ultimately have s: "sched_ok L {} s" by (simp add: sched_ok_def)
  let ?w = "fst (threadWakeup Qreaper s)"
  note W = wakeup_ok [OF s, of Qreaper]
  have "proc_threadEnd cpu st = threads_schedule cpu True ?w" by (simp add: proc_threadEnd_def s_def Let_def)
  moreover have "steady {?t} st s" by (auto simp: steady_def f e)
  moreover obtain st' where "threads_schedule cpu True ?w = Some st'" "sched_ok L {} st'" "steady {} ?w st'"
    using schedule_ok [OF fin W(1), of cpu True] W(3) e(2) cpu(1) by auto
  ultimately show ?thesis
    using steady_trans [OF steady_trans [OF _ steady_wakeup [OF s]] steady_mono] by metis
qed

lemma setPriority_ok:
  assumes ok: "sched_ok L {} st" and t: "t \<in> L" and p: "p < nprio"
  shows "sched_ok L {} (threadSetPriority t p st)" and "steady B st (threadSetPriority t p st)"
proof -
  note D = sched_okD [OF ok]
  let ?s = "threadSetPriority t p st" and ?p = "min p (t_priorityBase (thr st t))"
  have f: "t_state (thr ?s x) = t_state (thr st x)" "t_wait (thr ?s x) = t_wait (thr st x)"
    "t_wakeup (thr ?s x) = t_wakeup (thr st x)" "t_interruptible (thr ?s x) = t_interruptible (thr st x)"
    "t_priority (thr ?s x) = (if x = t then ?p else t_priority (thr st x))" "t_priorityBase (thr ?s x) = t_priorityBase (thr st x)"
    "t_exit (thr ?s x) = t_exit (thr st x)" for x
    by (simp_all add: threadSetPriority_def Let_def)
  have e: "current ?s = current st" "ncpu ?s = ncpu st" "queues ?s = queues st" "sleeping ?s = sleeping st"
    "tids ?s = tids st" "ghosts ?s = ghosts st"
    by (simp_all add: threadSetPriority_def Let_def)
  have r: "ready ?s q = (if t_state (thr st t) = READY \<and> \<not> is_current st t
      then (let r = (if q = t_priority (thr st t) then remove1 t (ready st q) else ready st q) in if q = ?p then r @ [t] else r)
      else ready st q)" for q
    by (auto simp: threadSetPriority_def Let_def LIST_ADD_def LIST_REMOVE_def)
  have cur: "is_current ?s x = is_current st x" for x by (rule is_current_cong) (simp_all add: e)
  have m: "threads_sleepcmp ?s = threads_sleepcmp st" by (rule sleepcmp_ext) (simp_all add: f e)
  have "ready_ok L {} ?s"
    by (rule ready_okI)
      (use t in \<open>auto simp: cur f r Let_def ready_mem [OF D(1)] ready_distinct [OF D(1)] split: if_splits\<close>)
  moreover have "fields_ok L ?s" using D(4) t p by (auto simp: fields_ok_def thread_ok_def f)
  ultimately show "sched_ok L {} ?s"
    using D by (simp add: sched_ok_def queues_ok_def sleep_ok_def ghosts_ok_def cpus_ok_def f e m)
  show "steady B st ?s" by (simp add: steady_def f e)
qed

lemma threadPriority_ok:
  assumes ok: "sched_ok L {} st" and cpu: "cpu < ncpu st" "current st cpu \<noteq> NULL"
  shows "sched_ok L {} (fst (proc_threadPriority cpu p st))" and "steady B st (fst (proc_threadPriority cpu p st))"
proof -
  note D = sched_okD [OF ok]
  let ?t = "current st cpu" and ?s = "fst (proc_threadPriority cpu p st)"
  note t = current_live [OF ok cpu]
  have f: "t_state (thr ?s x) = t_state (thr st x)" "t_wait (thr ?s x) = t_wait (thr st x)"
    "t_wakeup (thr ?s x) = t_wakeup (thr st x)" "t_interruptible (thr ?s x) = t_interruptible (thr st x)"
    "t_exit (thr ?s x) = t_exit (thr st x)" for x
    by (simp_all add: proc_threadPriority_def Let_def)
  have g: "x \<noteq> ?t \<Longrightarrow> t_priority (thr ?s x) = t_priority (thr st x)"
    "x \<noteq> ?t \<Longrightarrow> t_priorityBase (thr ?s x) = t_priorityBase (thr st x)"
    "t_priority (thr st x) \<le> t_priorityBase (thr st x) \<Longrightarrow> t_priorityBase (thr st x) < nprio \<Longrightarrow>
       t_priority (thr ?s x) \<le> t_priorityBase (thr ?s x) \<and> t_priorityBase (thr ?s x) < nprio" for x
    by (auto simp: proc_threadPriority_def Let_def)
  have e: "current ?s = current st" "ncpu ?s = ncpu st" "queues ?s = queues st" "sleeping ?s = sleeping st"
    "tids ?s = tids st" "ghosts ?s = ghosts st" "ready ?s = ready st"
    by (simp_all add: proc_threadPriority_def Let_def)
  have cur: "is_current ?s x = is_current st x" for x by (rule is_current_cong) (simp_all add: e)
  have m: "threads_sleepcmp ?s = threads_sleepcmp st" by (rule sleepcmp_ext) (simp_all add: f e)
  have g': "\<not> is_current st x \<Longrightarrow> t_priority (thr ?s x) = t_priority (thr st x)" for x using g(1) t by metis
  have "ready_ok L {} ?s"
    by (rule ready_okI) (auto simp: cur f e g' ready_mem [OF D(1)] ready_distinct [OF D(1)])
  moreover have "fields_ok L ?s" using D(4) g(3) by (auto simp: fields_ok_def thread_ok_def f)
  ultimately show "sched_ok L {} ?s"
    using D by (simp add: sched_ok_def queues_ok_def sleep_ok_def ghosts_ok_def cpus_ok_def f e m)
  show "steady B st ?s" by (simp add: steady_def f e)
qed

lemma reap_ok:
  assumes ok: "sched_ok L {} st" and g: "ghosts st \<noteq> []"
  shows "sched_ok L {} (fst (reap_take st))" and "steady B st (fst (reap_take st))"
    and "snd (reap_take st) \<in> L" and "t_state (thr st (snd (reap_take st))) = GHOST"
proof -
  let ?s = "fst (reap_take st)"
  note D = sched_okD [OF ok]
  have e: "thr ?s = thr st" "current ?s = current st" "ncpu ?s = ncpu st" "queues ?s = queues st" "sleeping ?s = sleeping st"
    "tids ?s = tids st" "ready ?s = ready st" "ghosts ?s = tl (ghosts st)"
    using g by (cases "ghosts st"; simp add: reap_take_def Let_def)+
  have cur: "is_current ?s x = is_current st x" for x by (rule is_current_cong) (simp_all add: e)
  have m: "threads_sleepcmp ?s = threads_sleepcmp st" by (rule sleepcmp_ext) (simp_all add: e)
  have "ghosts_ok L ?s" using D(5) g by (cases "ghosts st") (auto simp: ghosts_ok_def e)
  then show "sched_ok L {} ?s"
    using D by (simp add: sched_ok_def ready_ok_def queues_ok_def sleep_ok_def fields_ok_def cpus_ok_def e m cur)
  show "steady B st ?s" by (simp add: steady_def e)
  show "snd (reap_take st) \<in> L" "t_state (thr st (snd (reap_take st))) = GHOST"
    using D(5) g by (cases "ghosts st"; auto simp: ghosts_ok_def reap_take_def Let_def)+
qed

section \<open>Creation\<close>

lemma idtreeAlloc_idn:
  assumes "lib_idtreeAlloc n mn h = Some (Returned (h', i))"
  shows "x \<noteq> n \<Longrightarrow> idn h' x = idn h x"
  using assms
  by (auto simp: lib_idtreeAlloc_def lib_idtreeInsert_def Let_def split: if_splits option.splits dest!: idpay.field_insert)

lemma thread_alloc_frame:
  assumes a: "thread_alloc t st = Some (Returned (st', i))"
  shows "\<exists>h c. st' = st\<lparr>tids := h, idcounter := c\<rparr> \<and> (\<forall>x. x \<noteq> t \<longrightarrow> idn h x = idn (tids st) x)"
proof -
  obtain h j where h: "lib_idtreeAlloc t (idcounter st) (tids st) = Some (Returned (h, j))"
    using a by (auto simp: thread_alloc_def Let_def split: option.splits asserted.splits)
  show ?thesis
  proof (cases "j < 0")
    case True
    then obtain h2 k where h2: "lib_idtreeAlloc t 0 h = Some (Returned (h2, k))"
      using a h by (auto simp: thread_alloc_def Let_def split: option.splits asserted.splits)
    have "\<exists>c. st' = st\<lparr>tids := h2, idcounter := c\<rparr>"
      using a h h2 True by (simp add: thread_alloc_def Let_def split: if_splits) blast+
    then show ?thesis using idtreeAlloc_idn [OF h] idtreeAlloc_idn [OF h2] by (intro exI [of _ h2]) auto
  next
    case False
    have "\<exists>c. st' = st\<lparr>tids := h, idcounter := c\<rparr>"
      using a h False by (simp add: thread_alloc_def Let_def split: if_splits) blast+
    then show ?thesis using idtreeAlloc_idn [OF h] by (intro exI [of _ h]) auto
  qed
qed

lemma tids_ok:
  assumes ok: "sched_ok L X st" and h: "\<And>x. x \<in> L \<Longrightarrow> idn h x = idn (tids st) x"
    and f: "\<And>x. x \<in> L \<Longrightarrow> sched_fields (thr s x) = sched_fields (thr st x)"
    and e: "current s = current st" "ncpu s = ncpu st" "queues s = queues st" "sleeping s = sleeping st"
      "tids s = h" "ready s = ready st" "ghosts s = ghosts st"
  shows "sched_ok L X s"
proof -
  note D = sched_okD [OF ok]
  have f': "x \<in> L \<Longrightarrow> t_wait (thr s x) = t_wait (thr st x)" "x \<in> L \<Longrightarrow> t_wakeup (thr s x) = t_wakeup (thr st x)"
    "x \<in> L \<Longrightarrow> t_state (thr s x) = t_state (thr st x)" "x \<in> L \<Longrightarrow> t_priority (thr s x) = t_priority (thr st x)" for x
    using f [of x] by (auto simp: sched_fields_def)
  have cur: "is_current s x = is_current st x" for x by (rule is_current_cong) (simp_all add: e)
  have "ready_ok L X s"
    by (rule ready_okI) (use hand_ready [OF D(1)] in \<open>auto simp: f' e cur ready_mem [OF D(1)] ready_distinct [OF D(1)]\<close>)
  moreover have "queues_ok L s"
    by (rule queues_okI) (auto simp: f' e queue_mem [OF D(2)] queue_distinct [OF D(2)])
  moreover have "sleep_ok L s"
  proof (rule sleep_okI)
    have "threads_sleepcmp s a b = threads_sleepcmp st a b" if "a \<in> L" "b \<in> L" for a b
      using that h by (simp add: threads_sleepcmp_def proc_getTid_def f' e)
    then show "sorted_wrt (\<lambda>a b. threads_sleepcmp s a b < 0) (sleeping s)"
      unfolding e by (intro sorted_wrt_mono_rel [OF _ sleep_sorted [OF D(3)]]) (simp add: sleep_mem [OF D(3)])
  qed (auto simp: f' e sleep_mem [OF D(3)] sleep_distinct [OF D(3)])
  moreover have "fields_ok L s" using D(4) thread_ok_cong [OF f] by (auto simp: fields_ok_def)
  moreover have "ghosts_ok L s" using D(5) by (auto simp: ghosts_ok_def f' e)
  moreover have "cpus_ok L s" using D(6) by (auto simp: cpus_ok_def f' e)
  ultimately show ?thesis by (simp add: sched_ok_def)
qed

lemma add_thread_ok:
  assumes ok: "sched_ok L {} st" and t: "t \<notin> L" "t \<noteq> NULL"
    and n: "t_state (thr st t) = READY" "t_priority (thr st t) = p" "thread_ok (thr st t)"
  shows "sched_ok (insert t L) {} (set_ready p (ready st p @ [t]) st)"
proof -
  note D = sched_okD [OF ok]
  let ?s = "set_ready p (ready st p @ [t]) st"
  have cur: "\<not> is_current st t" using D(6) t by (auto simp: is_current_iff cpus_ok_def)
  have m: "threads_sleepcmp ?s = threads_sleepcmp st" by (rule sleepcmp_ext) simp_all
  have "ready_ok (insert t L) {} ?s"
    by (rule ready_okI) (use t n cur in \<open>auto simp: ready_mem [OF D(1)] ready_distinct [OF D(1)]\<close>)
  moreover have "queues_ok (insert t L) ?s"
    by (rule queues_okI) (use n in \<open>auto simp: queue_mem [OF D(2)] queue_distinct [OF D(2)]\<close>)
  moreover have "sleep_ok (insert t L) ?s"
    by (rule sleep_okI) (use n sleep_sorted [OF D(3)] in \<open>auto simp: m sleep_mem [OF D(3)] sleep_distinct [OF D(3)]\<close>)
  moreover have "fields_ok (insert t L) ?s" using D(4) t n by (auto simp: fields_ok_def)
  moreover have "ghosts_ok (insert t L) ?s" using D(5) by (auto simp: ghosts_ok_def)
  moreover have "cpus_ok (insert t L) ?s" using D(6) by (auto simp: cpus_ok_def)
  ultimately show ?thesis by (simp add: sched_ok_def)
qed

lemma perf_begin_simps [simp]:
  "thr (perf_begin t st) = thr st" "ready (perf_begin t st) = ready st" "current (perf_begin t st) = current st"
  "ncpu (perf_begin t st) = ncpu st" "sleeping (perf_begin t st) = sleeping st" "queues (perf_begin t st) = queues st"
  "ghosts (perf_begin t st) = ghosts st" "tids (perf_begin t st) = tids st"
  by (simp_all add: perf_begin_def perf_stamp_def perf_write_def Let_def case_prod_beta)

lemma upd_proc_simps [simp]:
  "thr (upd_proc p f st) = thr st" "ready (upd_proc p f st) = ready st" "current (upd_proc p f st) = current st"
  "ncpu (upd_proc p f st) = ncpu st" "sleeping (upd_proc p f st) = sleeping st" "queues (upd_proc p f st) = queues st"
  "ghosts (upd_proc p f st) = ghosts st" "tids (upd_proc p f st) = tids st"
  by (simp_all add: upd_proc_def)

lemma create_insert_ok:
  assumes ok: "sched_ok L {} st" and t: "t \<notin> L" "t \<noteq> NULL"
    and n: "t_state (thr st t) = READY" "t_priority (thr st t) = p" "thread_ok (thr st t)"
  shows "sched_ok (insert t L) {} (threadCreate_insert process t p st)"
    and "steady {t} st (threadCreate_insert process t p st)"
proof -
  define s where "s = perf_waking t (perf_begin t (if process \<noteq> NULL
      then upd_proc process (\<lambda>p. p\<lparr>p_threads := LIST_ADD (p_threads p) t\<rparr>) st else st))"
  have e: "sched_fields (thr s x) = sched_fields (thr st x)" for x by (simp add: s_def perf_kinds sched_fields_def)
  have "sched_ok L {} s" by (rule tids_ok [OF ok]) (simp_all add: e, simp_all add: s_def perf_kinds)
  moreover have "t_state (thr s t) = READY" "t_priority (thr s t) = p" using n e [of t] by (simp_all add: sched_fields_def)
  moreover have "thread_ok (thr s t)" using n(3) thread_ok_cong [OF e [of t]] by simp
  ultimately have "sched_ok (insert t L) {} (set_ready p (ready s p @ [t]) s)" using add_thread_ok t by blast
  moreover have "threadCreate_insert process t p st = set_ready p (ready s p @ [t]) s"
    by (simp add: threadCreate_insert_def s_def Let_def LIST_ADD_def)
  ultimately show "sched_ok (insert t L) {} (threadCreate_insert process t p st)" by simp
  show "steady {t} st (threadCreate_insert process t p st)"
    by (simp add: threadCreate_insert_def steady_def Let_def perf_kinds)
qed

lemma threadCreate_ok:
  assumes ok: "sched_ok L {} st" and t: "t \<notin> L"
    and c: "proc_threadCreate nil t kstack process tls p stack st = Some (Returned (st', e))"
  shows "sched_ok (if e = EOK then insert t L else L) {} st' \<and> steady {t} st st'"
proof (cases "p \<ge> nprio \<or> t = NULL \<or> kstack = NULL")
  case True
  then show ?thesis using c ok by (auto simp: proc_threadCreate_def steady_refl split: if_splits)
next
  case False
  let ?s = "upd_thr t (\<lambda>_. new_thread process p (stack = NULL) (hal_timer st (reads st))) (snd (proc_gettimeRaw st))"
  obtain s i where a: "thread_alloc t ?s = Some (Returned (s, i))"
    using c False by (auto simp: proc_threadCreate_def Let_def case_prod_beta split: option.splits asserted.splits)
  from thread_alloc_frame [OF a] obtain h cn where
    s: "s = ?s\<lparr>tids := h, idcounter := cn\<rparr>" and h: "\<And>x. x \<noteq> t \<Longrightarrow> idn h x = idn (tids st) x" by auto
  have th: "sched_fields (thr s x) = sched_fields (thr st x)" "t_exit (thr s x) = t_exit (thr st x)" if "x \<noteq> t" for x
    using that by (simp_all add: s sched_fields_def)
  have hL: "idn h x = idn (tids st) x" and fL: "sched_fields (thr s x) = sched_fields (thr st x)" if "x \<in> L" for x
    using that h th t by metis+
  have sk: "sched_ok L {} s" by (rule tids_ok [OF ok hL fL]) (simp_all add: s)
  have sd: "steady {t} st s" by (simp add: s steady_def)
  have n: "t_state (thr s t) = READY" "t_priority (thr s t) = p" "thread_ok (thr s t)"
    using False by (simp_all add: s new_thread_def thread_ok_def)
  have ins: "sched_ok (insert t L) {} (threadCreate_insert process t p s) \<and> steady {t} st (threadCreate_insert process t p s)"
    using create_insert_ok [OF sk t _ n] False steady_trans [OF sd] by blast
  have rem: "sched_ok L {} (s\<lparr>tids := h'\<rparr>) \<and> steady {t} st (s\<lparr>tids := h'\<rparr>)" if "lib_idtreeRemove nil t (tids s) = Some h'" for h'
  proof -
    have "idn h' = idn (tids s)" using that idpay.field_remove by (simp add: lib_idtreeRemove_def)
    then have "sched_ok L {} (s\<lparr>tids := h'\<rparr>)" by (intro tids_ok [OF sk, of h']) simp_all
    then show ?thesis using sd by (simp add: steady_def)
  qed
  have "proc_threadCreate nil t kstack process tls p stack st =
      (if i < 0 then Some (Returned (s, - ENOMEM))
       else (case tls of
          Some err \<Rightarrow> if err \<noteq> EOK then map_option (\<lambda>h. Returned (s\<lparr>tids := h\<rparr>, err)) (lib_idtreeRemove nil t (tids s))
            else Some (Returned (threadCreate_insert process t p s, EOK))
        | None \<Rightarrow> Some (Returned (threadCreate_insert process t p s, EOK))))"
    using False a by (simp add: proc_threadCreate_def Let_def case_prod_beta cong: if_cong option.case_cong)
  then show ?thesis using c sk sd ins rem
    by (cases "lib_idtreeRemove nil t (tids s)") (auto split: if_splits option.splits)
qed

lemma due_step_steady: "steady {} st (upd_thr t (\<lambda>r. r\<lparr>t_retval := - ETIME\<rparr>) (proc_threadDequeue t st))"
  by (rule steady_trans [OF steady_dequeue steady_upd]) simp

lemma timeintr_loop_steady: "timeintr_loop now st = Some (t, st') \<Longrightarrow> steady {} st st'"
  by (erule timeintr_loop.raw_induct [where P = "\<lambda>now st p. steady {} st (snd p)" and y = "(t, st')", unfolded prod.sel, rotated])
    (auto simp: steady_refl split: list.splits if_splits, rule steady_trans [OF due_step_steady], blast)

lemma timeintr_ok:
  assumes ok: "sched_ok L {} st" and r: "threads_timeintr cpu st = Some (st', r)"
  shows "sched_ok L {} st' \<and> steady {} st st'"
proof (cases "cpu = 0")
  case True
  let ?now = "hal_timer st (reads st)" and ?s = "snd (proc_gettimeRaw st)"
  have k: "sched_ok L {} ?s" using ok by (subst sched_ok_cong [of st]) (simp_all add: sched_eq_def proc_gettimeRaw_def Let_def)
  from timeintr_loop_ok [OF k, of ?now] obtain s t where
    l: "timeintr_loop ?now ?s = Some (t, s)" "sched_ok L {} s" by blast
  have st': "st' = threads_updateWakeup ?now t s"
    using r True l(1) by (simp add: threads_timeintr_def proc_gettimeRaw_def Let_def)
  have "sched_ok L {} st'" unfolding st' using l(2) by (subst sched_ok_cong [of s]) (simp_all add: sched_eq_def)
  moreover have "steady {} ?s s" using timeintr_loop_steady [OF l(1)] by simp
  then have "steady {} st st'" by (simp add: steady_def st' proc_gettimeRaw_def Let_def)
  ultimately show ?thesis by simp
qed (use ok r in \<open>simp add: threads_timeintr_def steady_refl\<close>)

section \<open>Runs\<close>

text \<open>
  The reachable states of the thread manager. \<open>I\<close> is the set of the idle threads, one for every
  processor, and \<open>L\<close> the threads that exist. A new thread gets a block of memory no existing thread has.
  The idle threads never block and nobody makes them exit. The timeouts are those that do not bring
  the wake-up time to 0; what happens otherwise is \<open>sleep_wraps_to_zero\<close>. The steps are the calls of
  the kernel and the interrupts, in any order and on any processor; \<open>Q\<close> are the wait queues the calls use.
\<close>

definition busy :: "addr set \<Rightarrow> nat \<Rightarrow> 'a kernel_scheme \<Rightarrow> bool" where
  "busy I cpu st \<longleftrightarrow> cpu < ncpu st \<and> current st cpu \<noteq> NULL \<and> current st cpu \<notin> I \<and> t_state (thr st (current st cpu)) = READY"

definition timeout_ok :: "time \<Rightarrow> 'a kernel_scheme \<Rightarrow> bool" where
  "timeout_ok us st \<longleftrightarrow> us = 0 \<or> hal_timer st (reads st) + us \<noteq> 0"

inductive sched_step :: "addr set \<Rightarrow> qaddr set \<Rightarrow> addr set \<times> 'a kernel_scheme \<Rightarrow> addr set \<times> 'a kernel_scheme \<Rightarrow> bool" for I Q where
  create: "t \<notin> L \<Longrightarrow> proc_threadCreate nil t kstack process tls p stack st = Some (Returned (st', e)) \<Longrightarrow>
    sched_step I Q (L, st) (if e = EOK then insert t L else L, st')"
| interrupt: "cpu < ncpu st \<Longrightarrow> threads_schedule cpu kmode st = Some st' \<Longrightarrow> sched_step I Q (L, st) (L, st')"
| timer: "threads_timeintr cpu st = Some (st', r) \<Longrightarrow> sched_step I Q (L, st) (L, st')"
| wait_now: "busy I cpu st \<Longrightarrow> timeout_ok us st \<Longrightarrow> proc_threadWaitEx cpu q us i st = Inl (st', e) \<Longrightarrow> q \<in> Q \<Longrightarrow>
    sched_step I Q (L, st) (L, st')"
| wait_block: "busy I cpu st \<Longrightarrow> timeout_ok us st \<Longrightarrow> proc_threadWaitEx cpu q us i st = Inr (Some st') \<Longrightarrow> q \<in> Q \<Longrightarrow>
    sched_step I Q (L, st) (L, st')"
| sleep: "busy I cpu st \<Longrightarrow> timeout_ok us st \<Longrightarrow> proc_threadSleep cpu us st = Some st' \<Longrightarrow> sched_step I Q (L, st) (L, st')"
| wakeup: "q \<in> Q \<Longrightarrow> sched_step I Q (L, st) (L, fst (proc_threadWakeup q st))"
| broadcast: "proc_threadBroadcast q st = Some (st', n) \<Longrightarrow> q \<in> Q \<Longrightarrow> sched_step I Q (L, st) (L, st')"
| priority: "cpu < ncpu st \<Longrightarrow> current st cpu \<noteq> NULL \<Longrightarrow> sched_step I Q (L, st) (L, fst (proc_threadPriority cpu p st))"
| inherit: "t \<in> L \<Longrightarrow> p < nprio \<Longrightarrow> sched_step I Q (L, st) (L, threadSetPriority t p st)"
| exit: "t \<in> L - I \<Longrightarrow> sched_step I Q (L, st) (L, proc_threadDestroy t st)"
| kill: "set ts \<subseteq> L - I \<Longrightarrow> sched_step I Q (L, st) (L, proc_threadsDestroy ts st)"
| finish: "busy I cpu st \<Longrightarrow> proc_threadEnd cpu st = Some st' \<Longrightarrow> sched_step I Q (L, st) (L, st')"
| reap: "ghosts st \<noteq> [] \<Longrightarrow> sched_step I Q (L, st) (L, fst (reap_take st))"

inductive sched_reach :: "addr set \<Rightarrow> qaddr set \<Rightarrow> addr set \<times> 'a kernel_scheme \<Rightarrow> addr set \<times> 'a kernel_scheme \<Rightarrow> bool" for I Q where
  reach_refl: "sched_reach I Q s s"
| reach_step: "sched_reach I Q s u \<Longrightarrow> sched_step I Q u v \<Longrightarrow> sched_reach I Q s v"

text \<open>The invariant of a run: with every processor goes an idle thread that is ready.\<close>

definition run_ok :: "addr set \<Rightarrow> addr set \<times> 'a kernel_scheme \<Rightarrow> bool" where
  "run_ok I s \<longleftrightarrow> (case s of (L, st) \<Rightarrow> finite L \<and> sched_ok L {} st \<and> I \<subseteq> L \<and> card I = ncpu st \<and>
     (\<forall>t \<in> I. t_state (thr st t) = READY \<and> \<not> t_exit (thr st t)))"

lemma run_okI:
  assumes "run_ok I (L, st)" and "finite L'" and "L \<subseteq> L'" and "sched_ok L' {} st'" and "steady B st st'" and "B \<inter> I = {}"
  shows "run_ok I (L', st')"
  using assms by (auto simp: run_ok_def steady_def)

lemma step_run_ok: "sched_step I Q s s' \<Longrightarrow> run_ok I s \<Longrightarrow> run_ok I s'"
proof (induction rule: sched_step.induct)
  case (create t L nil kstack process tls p stack st st' e)
  then have "sched_ok L {} st" "finite L" "t \<notin> I" by (auto simp: run_ok_def)
  from threadCreate_ok [OF this(1) create.hyps] show ?case
    using run_okI [OF create.prems, of "if e = EOK then insert t L else L" st' "{t}"] \<open>finite L\<close> \<open>t \<notin> I\<close>
    by (auto simp: subset_insertI)
next
  case (interrupt cpu st kmode st' L)
  then have r: "finite L" "sched_ok L {} st" by (auto simp: run_ok_def)
  from schedule_ok [OF r interrupt.hyps(1), of kmode] show ?case
    using run_okI [OF interrupt.prems, of L st' "{}"] r interrupt.hyps(2) by auto
next
  case (timer cpu st st' r L)
  then have r: "finite L" "sched_ok L {} st" by (auto simp: run_ok_def)
  have "sched_ok L {} st' \<and> steady {} st st'" using timeintr_ok [OF r(2) timer.hyps] .
  then show ?case using run_okI [OF timer.prems, of L st' "{}"] r by auto
next
  case (wait_now cpu st us q i st' e L)
  then have r: "finite L" "sched_ok L {} st" by (auto simp: run_ok_def)
  from wait_now.hyps(1,2) show ?case
    using waitEx_ok [OF r, of cpu us q i] run_okI [OF wait_now.prems, of L st' "{current st cpu}"] r wait_now.hyps(3)
    by (auto simp: busy_def timeout_ok_def)
next
  case (wait_block cpu st us q i st' L)
  then have r: "finite L" "sched_ok L {} st" by (auto simp: run_ok_def)
  from wait_block.hyps(1,2) show ?case
    using waitEx_ok [OF r, of cpu us q i] run_okI [OF wait_block.prems, of L st' "{current st cpu}"] r wait_block.hyps(3)
    by (auto simp: busy_def timeout_ok_def)
next
  case (sleep cpu st us st' L)
  then have r: "finite L" "sched_ok L {} st" by (auto simp: run_ok_def)
  from sleep.hyps(1,2) show ?case
    using threadSleep_ok [OF r, of cpu us] run_okI [OF sleep.prems, of L st' "{current st cpu}"] r sleep.hyps(3)
    by (auto simp: busy_def timeout_ok_def)
next
  case (wakeup q L st)
  then have r: "finite L" "sched_ok L {} st" by (auto simp: run_ok_def)
  show ?case
    using wakeup_ok(1) [OF r(2)] steady_wakeup [OF r(2), of "{}"] run_okI [OF wakeup.prems, of L _ "{}"] r
    by (auto simp: proc_threadWakeup_def)
next
  case (broadcast q st st' n L)
  then have r: "finite L" "sched_ok L {} st" by (auto simp: run_ok_def)
  show ?case
    using broadcast_ok [OF r(2), of q 0] run_okI [OF broadcast.prems, of L st' "{}"] r broadcast.hyps
    by (auto simp: proc_threadBroadcast_def)
next
  case (priority cpu st L p)
  then have r: "finite L" "sched_ok L {} st" by (auto simp: run_ok_def)
  show ?case
    using threadPriority_ok [OF r(2) priority.hyps] run_okI [OF priority.prems, of L _ "{}"] r by auto
next
  case (inherit t L p st)
  then have r: "finite L" "sched_ok L {} st" by (auto simp: run_ok_def)
  show ?case using setPriority_ok [OF r(2) inherit.hyps] run_okI [OF inherit.prems, of L _ "{}"] r by auto
next
  case (exit t L st)
  then have r: "finite L" "sched_ok L {} st" "t \<in> L" by (auto simp: run_ok_def)
  show ?case
    using threadExit_ok [OF r(2,3)] run_okI [OF exit.prems, of L _ "{t}"] r exit by (auto simp: proc_threadDestroy_def)
next
  case (kill ts L st)
  then have r: "finite L" "sched_ok L {} st" "set ts \<subseteq> L" by (auto simp: run_ok_def)
  show ?case using threadsDestroy_ok [OF r(2,3)] run_okI [OF kill.prems, of L _ "set ts"] r kill.hyps by auto
next
  case (finish cpu st st' L)
  then have r: "finite L" "sched_ok L {} st" by (auto simp: run_ok_def)
  from finish.hyps(1) show ?case
    using threadEnd_ok [OF r, of cpu] run_okI [OF finish.prems, of L st' "{current st cpu}"] r finish.hyps(2) by (auto simp: busy_def)
next
  case (reap st L)
  then have r: "finite L" "sched_ok L {} st" by (auto simp: run_ok_def)
  show ?case using reap_ok [OF r(2) reap.hyps] run_okI [OF reap.prems, of L _ "{}"] r by auto
qed

lemma reach_run_ok: "sched_reach I Q s s' \<Longrightarrow> run_ok I s \<Longrightarrow> run_ok I s'"
  by (induction rule: sched_reach.induct) (auto intro: step_run_ok)

end
