(* ===== verification/Proc_Sched_Spec.thy ===== *)
theory Proc_Sched_Spec
  imports Proc_Sched_Steps "HOL-Library.Code_Target_Numeral"
begin

text \<open>
  What the thread manager of \<^verbatim>\<open>proc/threads.c\<close> guarantees: the start \<open>_threads_init\<close>, the
  invariant of every run, and the behaviour of the scheduler, the timer interrupt and the wait queues.
\<close>

section \<open>The start\<close>









section \<open>Properties\<close>



text \<open>
  When the scheduler has put back the thread of its own processor, the other processors run one thread
  each at most. There is an idle thread more than that, and it is in a ready list.
\<close>

lemma idle_runnable:
  assumes R: "run_ok I (L, st)" and cpu: "cpu < ncpu st"
  shows "\<exists>d \<in> L. runnable (schedule_save cpu kmode st) d"
proof -
  let ?s = "schedule_save cpu kmode st" and ?C = "current st ` ({..<ncpu st} - {cpu})"
  have ok: "sched_ok L {} st" and I: "I \<subseteq> L" "card I = ncpu st" "finite I"
    "\<And>t. t \<in> I \<Longrightarrow> t_state (thr st t) = READY \<and> \<not> t_exit (thr st t)"
    using R finite_subset by (auto simp: run_ok_def)
  have "card ?C \<le> card ({..<ncpu st} - {cpu})" by (rule card_image_le) simp
  also have "\<dots> < card I" using cpu I(2) by simp
  finally obtain d where d: "d \<in> I" "d \<notin> ?C" using card_mono [of ?C I] by (metis finite_Diff finite_imageI finite_lessThan leD subsetI)
  have "d \<noteq> NULL" using d I sched_okD(4) [OF ok] by (auto simp: fields_ok_def)
  then have "\<not> is_current ?s d" using d(2) by (auto simp: is_current_def save_ok(2,3) [OF ok cpu])
  moreover have "steady {} st ?s" by (simp add: schedule_save_def steady_def Let_def perf_kinds)
  ultimately show ?thesis using d(1) I by (auto simp: runnable_def steady_def)
qed


text \<open>C7: In every state of a run (\<open>run_ok\<close>), a scheduler interrupt on any processor returns, and a thread
  runs on that processor afterwards: the scheduler never finds all ready lists empty.\<close>

theorem schedule_finds_thread:
  assumes R: "run_ok I (L, st)" and cpu: "cpu < ncpu st"
  shows "\<exists>st'. threads_schedule cpu kmode st = Some st' \<and> current st' cpu \<noteq> NULL \<and>
    (\<forall>c. c \<noteq> cpu \<longrightarrow> current st' c = current st c)"
proof -
  have fin: "finite L" and ok: "sched_ok L {} st" using R by (auto simp: run_ok_def)
  show ?thesis using schedule_ok [OF fin ok cpu, of kmode] idle_runnable [OF R cpu, of kmode] by blast
qed

text \<open>Repeated interrupts on one processor, with the mode of the interrupted thread.\<close>

fun schedules :: "nat \<Rightarrow> bool list \<Rightarrow> 'a kernel_scheme \<Rightarrow> 'a kernel_scheme option" where
  "schedules cpu [] st = Some st"
| "schedules cpu (k # ks) st = (case threads_schedule cpu k st of None \<Rightarrow> None | Some st \<Rightarrow> schedules cpu ks st)"

text \<open>No ready thread has a priority above \<open>i\<close>, not even the running one, and no thread must exit.\<close>

definition top_level :: "nat \<Rightarrow> addr set \<Rightarrow> nat \<Rightarrow> 'a kernel_scheme \<Rightarrow> bool" where
  "top_level i L cpu st \<longleftrightarrow> (\<forall>p < i. ready st p = []) \<and> (\<forall>t \<in> L. \<not> t_exit (thr st t)) \<and>
     (current st cpu \<noteq> NULL \<and> t_state (thr st (current st cpu)) = READY \<longrightarrow> i \<le> t_priority (thr st (current st cpu)))"

lemma save_ready:
  "ready (schedule_save cpu kmode st) p = ready st p @
     (if current st cpu \<noteq> NULL \<and> t_state (thr st (current st cpu)) = READY \<and> t_priority (thr st (current st cpu)) = p
      then [current st cpu] else [])"
  by (simp add: schedule_save_def Let_def perf_kinds LIST_ADD_def)

lemma select_highest:
  assumes "\<And>p. j \<le> p \<Longrightarrow> p < i \<Longrightarrow> ready st p = []" and "i < nprio" and "ready st i = t # ts"
    and "\<not> t_exit (thr st t) \<or> t_supervisor (thr st t)" and "j \<le> i"
  shows "schedule_select j st = Some (t, set_ready i (LIST_REMOVE (ready st i) t) st)"
  using assms
proof (induction "i - j" arbitrary: j)
  case 0
  then show ?case by (subst schedule_select.simps) (simp add: Let_def)
next
  case (Suc n)
  then have "ready st j = []" "j < nprio" by auto
  then have "schedule_select j st = schedule_select (j + 1) st" by (subst schedule_select.simps) simp
  then show ?case using Suc by simp
qed

lemma schedule_picks:
  assumes "\<And>p. p < i \<Longrightarrow> ready (schedule_save cpu kmode st) p = []" and "i < nprio"
    and r: "ready (schedule_save cpu kmode st) i = t # ts" and "\<not> t_exit (thr st t)"
  shows "threads_schedule cpu kmode st =
    Some (threads_cpuTimeCalc (current st cpu) t (schedule_switch cpu t (set_ready i ts (schedule_save cpu kmode st))))"
proof -
  have "t_exit (thr (schedule_save cpu kmode st) t) = t_exit (thr st t)" by (simp add: schedule_save_def Let_def perf_kinds)
  then have "schedule_select 0 (schedule_save cpu kmode st) =
      Some (t, set_ready i (LIST_REMOVE (t # ts) t) (schedule_save cpu kmode st))"
    using select_highest [of 0 i "schedule_save cpu kmode st" t ts] assms by simp
  then show ?thesis by (simp add: threads_schedule_def Let_def LIST_REMOVE_def)
qed

lemma schedule_takes:
  assumes ok: "sched_ok L {} st" and cpu: "cpu < ncpu st" and i: "i < nprio" and top: "top_level i L cpu st" and r: "ready st i = t # ts"
    and s: "threads_schedule cpu kmode st = Some st'"
  shows "current st' cpu = t \<and> ready st' = (ready (schedule_save cpu kmode st))(i := tl (ready (schedule_save cpu kmode st) i)) \<and>
    top_level i L cpu st'"
proof -
  let ?s = "schedule_save cpu kmode st"
  have f: "t_exit (thr ?s x) = t_exit (thr st x)" "t_priority (thr ?s x) = t_priority (thr st x)" for x
    by (simp_all add: schedule_save_def Let_def perf_kinds)
  have tm: "t \<in> L" "t_priority (thr st t) = i" using ready_mem [OF sched_okD(1) [OF ok], of t i] r by auto
  obtain us where rs: "ready ?s i = t # us" using save_ready [of cpu kmode st i] r by simp
  have lo: "ready ?s p = []" if "p < i" for p using that top save_ready [of cpu kmode st p] by (auto simp: top_level_def)
  have st': "st' = threads_cpuTimeCalc (current st cpu) t (schedule_switch cpu t (set_ready i us ?s))"
    using schedule_picks [OF lo i rs] s tm top by (auto simp: top_level_def)
  have "t \<noteq> NULL" using tm sched_okD(4) [OF ok] by (metis fields_ok_def)
  then have "current st' cpu = t" "ready st' = (ready ?s)(i := us)"
    "t_exit (thr st' x) = t_exit (thr st x)" "t_priority (thr st' x) = t_priority (thr st x)" for x
    by (simp_all add: st' threads_cpuTimeCalc_def schedule_switch_def threads_checkSignal_def Let_def case_prod_beta perf_kinds f set_ready_def)
  then show ?thesis using lo tm top rs by (simp add: top_level_def)
qed

lemma round_robin_steps:
  assumes "finite L" and "sched_ok L {} st" and "cpu < ncpu st" and "i < nprio" and "top_level i L cpu st"
    and "ready st i = pre @ t # post" and "length ks = Suc (length pre)"
  shows "\<exists>st'. schedules cpu ks st = Some st' \<and> current st' cpu = t"
  using assms
proof (induction pre arbitrary: st ks post)
  case Nil
  then obtain k where ks: "ks = [k]" by (cases ks) auto
  obtain st' where s: "threads_schedule cpu k st = Some st'" using schedule_ok [OF Nil(1-3)] by blast
  show ?case using schedule_takes [OF Nil(2-5) _ s] Nil(6) s ks by simp
next
  case (Cons a pre)
  then obtain k ks' where ks: "ks = k # ks'" by (cases ks) auto
  obtain st' where s: "threads_schedule cpu k st = Some st'" "sched_ok L {} st'" "ncpu st' = ncpu st"
    using schedule_ok [OF Cons.prems(1-3)] by blast
  have r: "ready st i = a # pre @ t # post" using Cons.prems(6) by simp
  note T = schedule_takes [OF Cons.prems(2-5) r s(1)]
  obtain post' where "ready st' i = pre @ t # post'" using T r save_ready [of cpu k st i] by auto
  then show ?case using Cons.IH [of st' post' ks'] Cons.prems s ks T by simp
qed

text \<open>C8: Round robin within a priority. When no ready thread has a higher priority and no thread must
  exit, the thread that has \<open>n\<close> threads before it in the ready list of its priority runs after \<open>n + 1\<close>
  scheduler interrupts of the processor: no thread of the highest priority waits forever.\<close>

theorem round_robin:
  assumes R: "run_ok I (L, st)" and "cpu < ncpu st" and "i < nprio"
    and "\<forall>p < i. ready st p = []" and "\<forall>t \<in> L. \<not> t_exit (thr st t)"
    and "t_state (thr st (current st cpu)) = READY \<longrightarrow> i \<le> t_priority (thr st (current st cpu))"
    and "ready st i = pre @ t # post" and "length ks = length pre + 1"
  shows "\<exists>st'. schedules cpu ks st = Some st' \<and> current st' cpu = t"
  by (rule round_robin_steps [of L st cpu i pre t post]) (use assms in \<open>auto simp: top_level_def run_ok_def\<close>)


lemma zero_stays:
  assumes "sleeping st = t # ts" and "t_wakeup (thr st t) = 0"
  shows "sleeping (upd_thr t (\<lambda>r. r\<lparr>t_retval := - ETIME\<rparr>) (proc_threadDequeue t st)) = t # ts"
    and "t_wakeup (thr (upd_thr t (\<lambda>r. r\<lparr>t_retval := - ETIME\<rparr>) (proc_threadDequeue t st)) t) = 0"
  using assms by (simp_all add: proc_threadDequeue_def Let_def perf_kinds split: option.splits)

text \<open>A thread in the sleep tree with the wake-up time 0 stops the processor: the loop of the timer
  interrupt takes it as due, and \<open>_proc_threadDequeue\<close> does not take a thread with the time 0 out of the
  tree. The interrupt never returns. A call of \<open>proc_threadSleep\<close> whose time wraps around to 0
  makes such a thread.\<close>

theorem timeintr_wakeup_zero_hangs:
  fixes st :: "'a kernel_scheme"
  assumes "sleeping st = t # ts" and "t_wakeup (thr st t) = 0"
  shows "threads_timeintr 0 st = None"
proof -
  have "sleeping st = t # ts \<and> t_wakeup (thr st t) = 0 \<longrightarrow> False" if "timeintr_loop now st = Some p" for now p and st :: "'a kernel_scheme"
    using that
    by (rule timeintr_loop.raw_induct [where P = "\<lambda>now st p. sleeping st = t # ts \<and> t_wakeup (thr st t) = 0 \<longrightarrow> False", rotated])
      (auto, metis zero_stays)
  then have "timeintr_loop now st = None" if "sleeping st = t # ts" "t_wakeup (thr st t) = 0" for now and st :: "'a kernel_scheme"
    using that by (cases "timeintr_loop now st") auto
  then show ?thesis using assms by (simp add: threads_timeintr_def proc_gettimeRaw_def Let_def)
qed

text \<open>A wake-up of an empty queue is not lost. It returns 0 and leaves the mark in the queue; the next
  thread that waits on the queue, with any timeout, does not block: the call returns \<open>EOK\<close> at once,
  takes the mark away and changes nothing else. A second wait would block.\<close>

theorem wakeup_pending_not_lost:
  assumes "queues st q = Queue [] \<or> queues st q = WakeupPending"
  shows "\<exists>s. proc_threadWakeup q st = (s, 0) \<and> queues s q = WakeupPending \<and>
    proc_threadWaitEx cpu q timeout i s = Inl (st\<lparr>queues := (queues st)(q := Queue [])\<rparr>, EOK)"
  using assms by (auto simp: proc_threadWakeup_def threadWakeup_def proc_threadWaitEx_def proc_threadEnqueue_def set_queue_def)

text \<open>A broadcast returns, wakes all the threads of the queue and no other, returns their number, and leaves
  the queue without threads; it leaves the mark of a pending wake-up exactly when no thread waited.\<close>

theorem broadcast_wakes_all:
  assumes "run_ok I (L, st)"
  shows "\<exists>st'. proc_threadBroadcast q st = Some (st', int (length (waiting (queues st q)))) \<and> waiting (queues st' q) = [] \<and>
    (waiting (queues st q) = [] \<longleftrightarrow> queues st' q = WakeupPending) \<and>
    (\<forall>x. t_state (thr st' x) = (if x \<in> set (waiting (queues st q)) then READY else t_state (thr st x)))"
proof -
  have "sched_ok L {} st" using assms by (simp add: run_ok_def)
  from broadcast_ok [OF this, of q 0] show ?thesis by (auto simp: proc_threadBroadcast_def)
qed

text \<open>C37: A thread that could not be created leaves no trace: the error is \<open>-EINVAL\<close> for a priority out of
  range, \<open>-ENOMEM\<close> when memory or identifiers ran out, or the error of the thread-local data; no
  list, queue, process or other thread has changed. On success the new thread is the last one in the ready
  list of its priority.\<close>

theorem threadCreate_error:
  assumes c: "proc_threadCreate nil t kstack process tls p stack st = Some (Returned (st', e))"
  shows "if e = EOK then p < nprio \<and> ready st' = (ready st)(p := ready st p @ [t]) \<and> t_state (thr st' t) = READY \<and>
       t_priority (thr st' t) = p
     else (e = - EINVAL \<and> p \<ge> nprio \<or> e = - ENOMEM \<or> tls = Some e) \<and> ready st' = ready st \<and> queues st' = queues st \<and>
       sleeping st' = sleeping st \<and> current st' = current st \<and> ghosts st' = ghosts st \<and> procs st' = procs st \<and>
       (\<forall>x. x \<noteq> t \<longrightarrow> thr st' x = thr st x)"
proof (cases "p \<ge> nprio \<or> t = NULL \<or> kstack = NULL")
  case True
  then show ?thesis using c by (auto simp: proc_threadCreate_def split: if_splits)
next
  case False
  let ?s = "upd_thr t (\<lambda>_. new_thread process p (stack = NULL) (hal_timer st (reads st))) (snd (proc_gettimeRaw st))"
  obtain s i where a: "thread_alloc t ?s = Some (Returned (s, i))"
    using c False by (auto simp: proc_threadCreate_def Let_def case_prod_beta split: option.splits asserted.splits)
  from thread_alloc_frame [OF a] obtain h cn where s: "s = ?s\<lparr>tids := h, idcounter := cn\<rparr>" by auto
  have "proc_threadCreate nil t kstack process tls p stack st =
      (if i < 0 then Some (Returned (s, - ENOMEM))
       else (case tls of
          Some err \<Rightarrow> if err \<noteq> EOK then map_option (\<lambda>h. Returned (s\<lparr>tids := h\<rparr>, err)) (lib_idtreeRemove nil t (tids s))
            else Some (Returned (threadCreate_insert process t p s, EOK))
        | None \<Rightarrow> Some (Returned (threadCreate_insert process t p s, EOK))))"
    using False a by (simp add: proc_threadCreate_def Let_def case_prod_beta cong: if_cong option.case_cong)
  moreover have "ready (threadCreate_insert process t p s) = (ready st)(p := ready st p @ [t])"
    "t_state (thr (threadCreate_insert process t p s) t) = READY" "t_priority (thr (threadCreate_insert process t p s) t) = p"
    by (simp_all add: threadCreate_insert_def s Let_def perf_kinds set_ready_def LIST_ADD_def new_thread_def)
  moreover have "procs s = procs st" by (simp add: s upd_thr_def proc_gettimeRaw_def Let_def)
  ultimately show ?thesis using c False
    by (cases "lib_idtreeRemove nil t (tids s)") (auto simp: s split: if_splits option.splits)
qed

lemma pack_fields_bound: "pack_fields fs < 2 ^ sum_list (map snd fs)"
proof (induction fs)
  case (Cons f fs)
  obtain v w where f: "f = (v, w)" by (cases f)
  have "2 ^ w * (pack_fields fs + 1) \<le> 2 ^ w * 2 ^ sum_list (map snd fs)" using Cons by (intro mult_le_mono2) simp
  moreover have "v mod 2 ^ w < 2 ^ w" by simp
  ultimately have "v mod 2 ^ w + 2 ^ w * pack_fields fs < 2 ^ w * 2 ^ sum_list (map snd fs)"
    unfolding add_mult_distrib2 by linarith
  then show ?case by (simp add: f power_add)
qed simp

text \<open>An event of the thread monitoring is read back as it was written, up to the width of its fields:
  12 bits for the time since the last event, 2 for the kind and 18 for the thread.\<close>

theorem perf_event_roundtrip:
  "unpack_fields [12, 2, 18] (unpack_bytes (perf_event_bytes delta ty tid)) =
     [unat delta mod 2 ^ 12, perf_ev_code ty, tid mod 2 ^ 18] \<and> length (perf_event_bytes delta ty tid) = 4"
proof -
  have "unpack_bytes (pack_bytes k n) = n mod 256 ^ k" for k n
    by (induction k arbitrary: n) (simp_all add: mod_mult2_eq)
  moreover have "length (pack_bytes k n) = k" for k n by (induction k arbitrary: n) auto
  moreover have "unpack_fields (map snd fs) (pack_fields fs) = map (\<lambda>(v, w). v mod 2 ^ w) fs" for fs
    by (induction fs) (auto simp: div_add1_eq)
  from this [of "[(unat delta, 12), (perf_ev_code ty, 2), (tid, 18)]"]
  have "unpack_fields [12, 2, 18] (pack_fields [(unat delta, 12), (perf_ev_code ty, 2), (tid, 18)]) =
      [unat delta mod 2 ^ 12, perf_ev_code ty, tid mod 2 ^ 18]" by (cases ty) simp_all
  moreover have "pack_fields [(unat delta, 12), (perf_ev_code ty, 2), (tid, 18)] < 256 ^ 4"
    using pack_fields_bound [of "[(unat delta, 12), (perf_ev_code ty, 2), (tid, 18)]"] by simp
  ultimately show ?thesis by (simp only: perf_event_bytes_def mod_less)
qed

section \<open>Witnesses\<close>

declare schedule_select.simps [code] timeintr_loop.simps [code] threadBroadcast.simps [code]

text \<open>One processor; the clock advances by a millisecond between two readings.\<close>

definition demo_start :: kernel where
  "demo_start = \<lparr>thr = \<lambda>_. new_thread NULL 7 True 0,
     procs = \<lambda>_. \<lparr>p_threads = [], p_ghosts = [], p_refs = 0, p_pmapp = NULL, p_sigpend = 0, p_sighandler = NULL, p_pid = 0\<rparr>,
     ready = \<lambda>_. [], current = \<lambda>_. NULL, ncpu = 1, sleeping = [], queues = \<lambda>_. Queue [], ghosts = [], owner = \<lambda>_. NULL,
     tids = idheap0, idcounter = 0, utcoffs = 0, hal_timer = \<lambda>n. 1000 * word_of_nat (n + 1), hal_cpuPushSignal = \<lambda>_ _. True,
     reads = 0, prev = 0, timer_wakeup = 0, perfGather = False, perfLastTimestamp = 0,
     perfBuffer = cbuffer_init [] 0\<rparr>"


fun returned_ok :: "('s \<times> int) asserted option \<Rightarrow> bool" where
  "returned_ok (Some (Returned (st, e))) = (e = EOK)"
| "returned_ok r = False"

lemma map_eq_returned:
  "map_option (map_asserted snd) r = Some (Returned (e :: int)) \<longleftrightarrow> (\<exists>st. r = Some (Returned (st, e)))"
  by (induction r rule: returned_ok.induct) auto




text \<open>
  A state in the middle of a run: 256 is the idle thread; 300 runs; 400 and 700 are ready; 500 and 600 wait
  on a queue, 500 with a timeout.
\<close>

definition demo :: kernel where
  "demo = demo_start\<lparr>thr := (\<lambda>_. new_thread NULL 4 True 0)(256 := new_thread NULL 7 True 0,
       500 := (new_thread NULL 3 True 0)\<lparr>t_state := SLEEP, t_wait := Some (Qobj 9), t_wakeup := 5000\<rparr>,
       600 := (new_thread NULL 4 True 0)\<lparr>t_state := SLEEP, t_wait := Some (Qobj 9)\<rparr>),
     ready := (\<lambda>_. [])(4 := [400, 700], 7 := [256]), current := (\<lambda>_. NULL)(0 := 300), sleeping := [500],
     queues := (\<lambda>_. Queue [])(Qobj 9 := Queue [500, 600]), reads := 9\<rparr>"

lemma demo_run_ok: "run_ok {256} ({256, 300, 400, 500, 600, 700}, demo)"
proof -
  let ?L = "{256, 300, 400, 500, 600, 700}"
  have c: "is_current demo t \<longleftrightarrow> t = 300" for t by (simp add: is_current_def demo_def demo_start_def)
  have "ready_ok ?L {} demo" by (rule ready_okI) (auto simp: c, auto simp: demo_def new_thread_def split: if_splits)
  moreover have "queues_ok ?L demo" by (rule queues_okI) (auto simp: demo_def demo_start_def new_thread_def split: if_splits)
  moreover have "sleep_ok ?L demo" by (rule sleep_okI) (auto simp: demo_def demo_start_def new_thread_def split: if_splits)
  moreover have "fields_ok ?L demo" by (simp add: fields_ok_def thread_ok_def demo_def new_thread_def nprio_def)
  moreover have "ghosts_ok ?L demo" "cpus_ok ?L demo" "ncpu demo = 1"
    by (simp_all add: ghosts_ok_def cpus_ok_def demo_def demo_start_def new_thread_def)
  ultimately show ?thesis by (simp add: run_ok_def sched_ok_def demo_def new_thread_def)
qed

lemma demo_eval:
  "ncpu demo = 1 \<and> list_all (\<lambda>p. ready demo p = []) [0..<4] \<and> ready demo 4 = [400, 700] \<and> current demo 0 = 300 \<and>
   list_all (\<lambda>t. \<not> t_exit (thr demo t)) [256, 300, 400, 500, 600, 700] \<and> t_priority (thr demo 300) = 4 \<and>
   sleeping demo = [500] \<and> t_wakeup (thr demo 500) = 5000 \<and> hal_timer demo (reads demo) = 10000 \<and>
   queues demo (Qobj 9) = Queue [500, 600] \<and> queues demo (Qobj 8) = Queue []"
  by code_simp



theorem schedule_finds_thread_witness:
  "\<exists>st'. threads_schedule 0 False demo = Some st' \<and> current st' 0 \<noteq> NULL"
  using schedule_finds_thread [OF demo_run_ok, of 0 False] demo_eval by auto

theorem round_robin_witness: "\<exists>st'. schedules 0 [True, False] demo = Some st' \<and> current st' 0 = 700"
  by (rule round_robin [OF demo_run_ok, of 0 4 "[400]" 700 "[]"]) (use demo_eval in \<open>auto simp: nprio_def less_Suc_eq numeral_eq_Suc\<close>)


theorem timeintr_wakeup_zero_hangs_witness:
  "threads_timeintr 0 (the (proc_threadSleep 0 (- hal_timer demo (reads demo)) demo)) = None"
proof -
  let ?s = "the (proc_threadSleep 0 (- hal_timer demo (reads demo)) demo)"
  have "sleeping ?s = [300, 500] \<and> t_wakeup (thr ?s 300) = 0"
    by (simp add: proc_threadSleep_def hal_cpuReschedule_def threads_schedule_def schedule_save_def schedule_select.simps
      demo_def demo_start_def new_thread_def nprio_def Let_def case_prod_beta perf_kinds
      threads_cpuTimeCalc_def schedule_switch_def threads_sleepcmp_def ordered_insert_def)
  then show ?thesis using timeintr_wakeup_zero_hangs [of ?s 300 "[500]"] by simp
qed

theorem wakeup_pending_not_lost_witness:
  "\<exists>s. proc_threadWakeup (Qobj 8) demo = (s, 0) \<and> (\<exists>st. proc_threadWaitEx 0 (Qobj 8) 100 True s = Inl (st, EOK))"
  using wakeup_pending_not_lost [of demo "Qobj 8" 0 100 True] demo_eval by auto

theorem broadcast_wakes_all_witness:
  "\<exists>st'. proc_threadBroadcast (Qobj 9) demo = Some (st', 2) \<and> t_state (thr st' 500) = READY \<and> t_state (thr st' 600) = READY"
  using broadcast_wakes_all [OF demo_run_ok, of "Qobj 9"] demo_eval by fastforce

theorem threadCreate_error_witness:
  "\<exists>st'. proc_threadCreate 1 900 901 NULL (Some (- ENOMEM)) 4 NULL demo = Some (Returned (st', - ENOMEM)) \<and>
     ready st' = ready demo \<and> thr st' 300 = thr demo 300"
proof -
  have "map_option (map_asserted snd) (proc_threadCreate 1 900 901 NULL (Some (- ENOMEM)) 4 NULL demo) = Some (Returned (- ENOMEM))"
    by code_simp
  then obtain st' where c: "proc_threadCreate 1 900 901 NULL (Some (- ENOMEM)) 4 NULL demo = Some (Returned (st', - ENOMEM))"
    unfolding map_eq_returned by blast
  show ?thesis using c threadCreate_error [OF c] by simp
qed

end
