(* ===== verification/Proc_Lock.thy ===== *)
theory Proc_Lock
  imports Proc_Sched_Steps
begin

text \<open>
  The kernel locks of \<^verbatim>\<open>proc/threads.c\<close>: owner, queue of waiting threads, priority inheritance, and
  what uses them, the destruction of threads and \<open>proc_join\<close>. A lock is named by its address; its
  queue is \<open>Qlock\<close>. \<open>started\<close> is the answer of \<open>hal_started\<close>.

  A call that blocks is in two parts. The first one ends with the result when the call returns at
  once, or with the state after another thread was chosen. The second one, named \<open>_resume\<close>, is what the
  thread does when it runs again; the value the wait returned is its argument.
  The spinlock of the lock is held from the test of the owner to the moment the thread is in the
  queue, so the first part is one step with respect to the other operations on the lock.
\<close>

section \<open>Model\<close>

definition set_owner :: "addr \<Rightarrow> addr \<Rightarrow> 'a kernel_scheme \<Rightarrow> 'a kernel_scheme" where
  "set_owner l t st = st\<lparr>owner := (owner st)(l := t)\<rparr>"

definition lockTry :: "addr \<Rightarrow> addr \<Rightarrow> 'a kernel_scheme \<Rightarrow> 'a kernel_scheme \<times> int" where
  "lockTry cur l st =
     (if owner st l \<noteq> NULL then (st, - EBUSY)
      else
        (let st = upd_thr cur (\<lambda>r. r\<lparr>t_locks := LIST_ADD (t_locks r) l\<rparr>) st
         in (set_owner l cur st, EOK)))"

definition proc_lockTry :: "bool \<Rightarrow> nat \<Rightarrow> addr \<Rightarrow> 'a kernel_scheme \<Rightarrow> 'a kernel_scheme \<times> int" where
  "proc_lockTry started cpu l st = (if \<not> started then (st, - EINVAL) else lockTry (current st cpu) l st)"

text \<open>
  The outcome of a call that may block: it returned, or the thread is blocked and another one was
  chosen, or a null pointer was used. \<open>None\<close> stands for a call that does not end.
\<close>

datatype 's outcome = Return 's int | Block 's | Fault

definition wait_outcome :: "('s \<times> int) + 's option \<Rightarrow> 's outcome option" where
  "wait_outcome w = (case w of Inl (st, err) \<Rightarrow> Some (Return st err) | Inr r \<Rightarrow> map_option Block r)"

text \<open>The loop of \<open>_proc_lockSet\<close> after a wait that returned \<open>err\<close>: the result of the call, or \<open>None\<close> for another round.\<close>

definition lockSet_check :: "nat \<Rightarrow> addr \<Rightarrow> int \<Rightarrow> 'a kernel_scheme \<Rightarrow> 'a kernel_scheme outcome option" where
  "lockSet_check cpu l err st =
     (let cur = current st cpu
      in if err = - EINTR \<and> owner st l \<noteq> cur then
           Some (if owner st l = NULL then Fault
                 else Return (threadSetPriority (owner st l) (threadGetPriority st (owner st l)) st) (- EINTR))
         else if owner st l \<noteq> cur then None
         else Some (Return st EOK))"

partial_function (option) lockSet_loop :: "nat \<Rightarrow> addr \<Rightarrow> bool \<Rightarrow> 'a kernel_scheme \<Rightarrow> 'a kernel_scheme outcome option" where
  "lockSet_loop cpu l interruptible st =
     (case wait_outcome (proc_threadWaitEx cpu (Qlock l) 0 interruptible st) of
        None \<Rightarrow> None
      | Some (Return st err) \<Rightarrow>
          (case lockSet_check cpu l err st of
             Some r \<Rightarrow> Some r
           | None \<Rightarrow> lockSet_loop cpu l interruptible st)
      | Some r \<Rightarrow> Some r)"

definition lockSet_resume :: "nat \<Rightarrow> addr \<Rightarrow> bool \<Rightarrow> int \<Rightarrow> 'a kernel_scheme \<Rightarrow> 'a kernel_scheme outcome option" where
  "lockSet_resume cpu l interruptible err st =
     (case lockSet_check cpu l err st of
        Some r \<Rightarrow> Some r
      | None \<Rightarrow> lockSet_loop cpu l interruptible st)"

definition lock_inherit :: "addr \<Rightarrow> addr \<Rightarrow> 'a kernel_scheme \<Rightarrow> 'a kernel_scheme" where
  "lock_inherit cur own st =
     (if t_priority (thr st cur) < t_priority (thr st own) then threadSetPriority own (t_priority (thr st cur)) st else st)"

definition lockSet :: "nat \<Rightarrow> addr \<Rightarrow> bool \<Rightarrow> 'a kernel_scheme \<Rightarrow> 'a kernel_scheme outcome option" where
  "lockSet cpu l interruptible st =
     (let cur = current st cpu;
          (st, err) = lockTry cur l st
      in if err < 0 then lockSet_loop cpu l interruptible (lock_inherit cur (owner st l) st)
         else Some (Return st EOK))"

definition proc_lockSet :: "bool \<Rightarrow> nat \<Rightarrow> addr \<Rightarrow> 'a kernel_scheme \<Rightarrow> 'a kernel_scheme outcome option" where
  "proc_lockSet started cpu l st = (if \<not> started then Some (Return st (- EINVAL)) else lockSet cpu l False st)"

definition proc_lockSetInterruptible :: "bool \<Rightarrow> nat \<Rightarrow> addr \<Rightarrow> 'a kernel_scheme \<Rightarrow> 'a kernel_scheme outcome option" where
  "proc_lockSetInterruptible started cpu l st = (if \<not> started then Some (Return st (- EINVAL)) else lockSet cpu l True st)"

text \<open>The lock goes to the first thread of the queue, with the priority the queue demands.\<close>

definition lock_give :: "addr \<Rightarrow> addr \<Rightarrow> 'a kernel_scheme \<Rightarrow> 'a kernel_scheme" where
  "lock_give l t st =
     (let st = set_owner l t st;
          p = lockGetPriority st l;
          st = (if p < t_priority (thr st t) then threadSetPriority t p st else st);
          st = proc_threadDequeue t st
      in upd_thr t (\<lambda>r. r\<lparr>t_locks := LIST_ADD (t_locks r) l\<rparr>) st)"

definition lockUnlock :: "addr \<Rightarrow> 'a kernel_scheme \<Rightarrow> 'a kernel_scheme \<times> int" where
  "lockUnlock l st =
     (let own = owner st l;
          st = upd_thr own (\<lambda>r. r\<lparr>t_locks := LIST_REMOVE (t_locks r) l\<rparr>) st;
          (st, ret) = (case waiting (queues st (Qlock l)) of
                         t # ts \<Rightarrow> (lock_give l t st, 1)
                       | [] \<Rightarrow> (set_owner l NULL st, 0))
      in (threadSetPriority own (threadGetPriority st own) st, ret))"

definition proc_lockUnlock :: "nat \<Rightarrow> addr \<Rightarrow> 'a kernel_scheme \<Rightarrow> 'a kernel_scheme option" where
  "proc_lockUnlock cpu l st =
     (let (st, ret) = lockUnlock l st in if ret > 0 then hal_cpuReschedule cpu st else Some st)"

definition lockClear :: "addr \<Rightarrow> 'a kernel_scheme \<Rightarrow> 'a kernel_scheme \<times> int" where
  "lockClear l st = (if owner st l = NULL then (st, - EPERM) else lockUnlock l st)"

text \<open>When the lock was handed over the caller yields; it returns \<open>EOK\<close> when it runs again.\<close>

definition proc_lockClear :: "bool \<Rightarrow> nat \<Rightarrow> addr \<Rightarrow> 'a kernel_scheme \<Rightarrow> 'a kernel_scheme outcome option" where
  "proc_lockClear started cpu l st =
     (if \<not> started then Some (Return st (- EINVAL))
      else
        (let (st, err) = lockClear l st
         in if err > 0 then map_option Block (hal_cpuReschedule cpu st) else Some (Return st err)))"

text \<open>
  \<open>proc_lockWait\<close>: the lock is released and the thread waits on \<open>q\<close>; in \<open>lockWait_resume\<close> it takes the
  lock again unless the wait was interrupted, and the call returns the value of the wait.
\<close>

definition lockWait_resume :: "nat \<Rightarrow> addr \<Rightarrow> int \<Rightarrow> 'a kernel_scheme \<Rightarrow> 'a kernel_scheme outcome option" where
  "lockWait_resume cpu l err st =
     (if err \<noteq> - EINTR then
        (case lockSet cpu l False st of
           None \<Rightarrow> None
         | Some (Return st e) \<Rightarrow> Some (Return st err)
         | Some r \<Rightarrow> Some r)
      else Some (Return st err))"

definition proc_lockWait :: "bool \<Rightarrow> nat \<Rightarrow> qaddr \<Rightarrow> addr \<Rightarrow> time \<Rightarrow> 'a kernel_scheme \<Rightarrow> 'a kernel_scheme outcome option" where
  "proc_lockWait started cpu q l timeout st =
     (if \<not> started then Some (Return st (- EINVAL))
      else
        (let (st, err) = lockClear l st
         in if err \<ge> 0 then
              (case wait_outcome (proc_threadWaitEx cpu q timeout True st) of
                 None \<Rightarrow> None
               | Some (Return st err) \<Rightarrow> lockWait_resume cpu l err st
               | Some r \<Rightarrow> Some r)
            else Some (Return st err)))"

definition proc_lockDone :: "addr \<Rightarrow> 'a kernel_scheme \<Rightarrow> 'a kernel_scheme \<times> int" where
  "proc_lockDone l st = (if owner st l \<noteq> NULL then (fst (lockUnlock l st), EOK) else (st, EOK))"

definition proc_lockInit :: "addr \<Rightarrow> 'a kernel_scheme \<Rightarrow> 'a kernel_scheme \<times> int" where
  "proc_lockInit l st = (set_queue (Qlock l) (Queue []) (set_owner l NULL st), EOK)"

text \<open>
  \<open>proc_lockSet2\<close> holds one of the two locks and tries the other one; when that fails it releases the first
  and waits for the second, and the two change places. A round that does not block, from the test of the
  loop on; \<open>Inl\<close> is a call that ended or blocked, \<open>Inr\<close> the state for the next round.
\<close>

definition lockSet2_round :: "nat \<Rightarrow> addr \<Rightarrow> addr \<Rightarrow> 'a kernel_scheme \<Rightarrow> ('a kernel_scheme outcome option) + 'a kernel_scheme" where
  "lockSet2_round cpu l1 l2 st =
     (let (st, err) = proc_lockTry True cpu l2 st
      in if err < 0 then
           (case proc_lockClear True cpu l1 st of
              Some (Return st _) \<Rightarrow>
                (case proc_lockSet True cpu l2 st of
                   Some (Return st err) \<Rightarrow> if err < 0 then Inl (Some (Return st err)) else Inr st
                 | r \<Rightarrow> Inl r)
            | r \<Rightarrow> Inl r)
         else Inl (Some (Return st EOK)))"

partial_function (option) lockSet2_loop :: "nat \<Rightarrow> addr \<Rightarrow> addr \<Rightarrow> 'a kernel_scheme \<Rightarrow> 'a kernel_scheme outcome option" where
  "lockSet2_loop cpu l1 l2 st =
     (case lockSet2_round cpu l1 l2 st of Inl r \<Rightarrow> r | Inr st \<Rightarrow> lockSet2_loop cpu l2 l1 st)"

definition proc_lockSet2 :: "bool \<Rightarrow> nat \<Rightarrow> addr \<Rightarrow> addr \<Rightarrow> 'a kernel_scheme \<Rightarrow> 'a kernel_scheme outcome option" where
  "proc_lockSet2 started cpu l1 l2 st =
     (case proc_lockSet started cpu l1 st of
        Some (Return st err) \<Rightarrow> if err < 0 then Some (Return st err) else lockSet2_loop cpu l1 l2 st
      | r \<Rightarrow> r)"

section \<open>Destroying and joining threads\<close>

text \<open>One round of the loop of \<open>thread_destroy\<close> that releases the locks of the ghost.\<close>

definition destroy_unlock :: "nat \<Rightarrow> addr \<Rightarrow> 'a kernel_scheme \<Rightarrow> 'a kernel_scheme option option" where
  "destroy_unlock cpu t st = (case t_locks (thr st t) of [] \<Rightarrow> None | l # ls \<Rightarrow> Some (proc_lockUnlock cpu l st))"

text \<open>The rest: the thread joins the ghosts of its process, whose reapers wake; the reference goes with \<open>proc_put\<close>.\<close>

definition destroy_finish :: "addr \<Rightarrow> 'a kernel_scheme \<Rightarrow> 'a kernel_scheme option" where
  "destroy_finish t st =
     (let process = t_process (thr st t)
      in if process \<noteq> NULL then
           (let st = upd_proc process (\<lambda>p. p\<lparr>p_threads := LIST_REMOVE (p_threads p) t, p_ghosts := LIST_ADD (p_ghosts p) t\<rparr>) st
            in map_option (\<lambda>(st, n). upd_proc process (\<lambda>p. p\<lparr>p_refs := p_refs p - 1\<rparr>) st) (threadBroadcast (Qproc process) 0 st))
         else Some st)"

text \<open>\<open>threads_put\<close>: the second component says that the thread is to be destroyed.\<close>

definition threads_put :: "addr \<Rightarrow> addr \<Rightarrow> 'a kernel_scheme \<Rightarrow> ('a kernel_scheme \<times> bool) option" where
  "threads_put nil t st =
     (let refs = t_refs (thr st t) - 1;
          st = upd_thr t (\<lambda>r. r\<lparr>t_refs := refs\<rparr>) st
      in if refs \<le> 0 then map_option (\<lambda>h. (perf_end t (st\<lparr>tids := h\<rparr>), True)) (lib_idtreeRemove nil t (tids st))
         else Some (st, False))"

text \<open>
  \<open>proc_join\<close>. The search of the ghosts ends at the ghost it looks for, or, once around the list, at the first one.
  \<open>join_finish\<close> takes the ghost the search ended at.
\<close>

definition join_finish :: "addr \<Rightarrow> addr \<Rightarrow> int \<Rightarrow> 'a kernel_scheme \<Rightarrow> 'a kernel_scheme \<times> int" where
  "join_finish process ghost err st =
     (let id = (if ghost \<noteq> NULL then proc_getTid st ghost else 0);
          st = (if ghost \<noteq> NULL then upd_proc process (\<lambda>p. p\<lparr>p_ghosts := LIST_REMOVE (p_ghosts p) ghost\<rparr>) st else st)
      in (st, if err < 0 then err else id))"

definition join_search :: "addr \<Rightarrow> int \<Rightarrow> 'a kernel_scheme \<Rightarrow> addr option" where
  "join_search process tid st = find (\<lambda>g. proc_getTid st g = tid) (p_ghosts (procs st process))"

text \<open>The loop of \<open>proc_join\<close>, and how it goes on after a wait that returned \<open>err\<close>.\<close>

definition join_ghost :: "addr \<Rightarrow> int \<Rightarrow> 'a kernel_scheme \<Rightarrow> addr option" where
  "join_ghost process tid st =
     (if tid \<ge> 0 then join_search process tid st
      else (case p_ghosts (procs st process) of [] \<Rightarrow> None | g # gs \<Rightarrow> Some g))"

definition join_check :: "addr \<Rightarrow> int \<Rightarrow> int \<Rightarrow> 'a kernel_scheme \<Rightarrow> 'a kernel_scheme outcome option" where
  "join_check process tid err st =
     (if err = - ETIME \<or> err = - EINTR then
        (let (st, r) = join_finish process (if tid \<ge> 0 then first_or_null (p_ghosts (procs st process)) else NULL) err st
         in Some (Return st r))
      else None)"

partial_function (option) join_loop :: "nat \<Rightarrow> addr \<Rightarrow> int \<Rightarrow> time \<Rightarrow> 'a kernel_scheme \<Rightarrow> 'a kernel_scheme outcome option" where
  "join_loop cpu process tid timeout st =
     (case join_ghost process tid st of
        Some ghost \<Rightarrow> (let (st, r) = join_finish process ghost EOK st in Some (Return st r))
      | None \<Rightarrow>
          (case wait_outcome (proc_threadWait cpu (Qproc process) timeout st) of
             None \<Rightarrow> None
           | Some (Return st err) \<Rightarrow>
               (case join_check process tid err st of
                  Some r \<Rightarrow> Some r
                | None \<Rightarrow> join_loop cpu process tid timeout st)
           | Some r \<Rightarrow> Some r))"

definition join_resume :: "nat \<Rightarrow> addr \<Rightarrow> int \<Rightarrow> time \<Rightarrow> int \<Rightarrow> 'a kernel_scheme \<Rightarrow> 'a kernel_scheme outcome option" where
  "join_resume cpu process tid timeout err st =
     (case join_check process tid err st of Some r \<Rightarrow> Some r | None \<Rightarrow> join_loop cpu process tid timeout st)"

definition proc_join :: "nat \<Rightarrow> int \<Rightarrow> time \<Rightarrow> 'a kernel_scheme \<Rightarrow> 'a kernel_scheme outcome option" where
  "proc_join cpu tid timeout st =
     (if proc_getTid st (current st cpu) = tid then Some (Return st (- EDEADLK))
      else join_loop cpu (t_process (thr st (current st cpu))) tid timeout st)"

section \<open>The invariant of the locks\<close>

text \<open>
  A lock is in the list of its owner and in no other; a free lock has no waiting threads. The mark of
  a pending wake-up never is in the queue of a lock, so the queue is a list of threads.
\<close>

definition lock_ok :: "addr set \<Rightarrow> 'a kernel_scheme \<Rightarrow> bool" where
  "lock_ok L st \<longleftrightarrow> (\<forall>t \<in> L. distinct (t_locks (thr st t)) \<and> (\<forall>l. l \<in> set (t_locks (thr st t)) \<longleftrightarrow> owner st l = t)) \<and>
     (\<forall>l. owner st l \<noteq> NULL \<longrightarrow> owner st l \<in> L) \<and>
     (\<forall>l. queues st (Qlock l) \<noteq> WakeupPending \<and> (owner st l = NULL \<longrightarrow> waiting (queues st (Qlock l)) = []))"

text \<open>The operations of the scheduler leave owners and lists of locks alone, and add no thread to the queue of a lock.\<close>

definition shrinks :: "waitq \<Rightarrow> waitq \<Rightarrow> bool" where
  "shrinks w w' \<longleftrightarrow> w \<noteq> WakeupPending \<longrightarrow> w' \<noteq> WakeupPending \<and> set (waiting w') \<subseteq> set (waiting w)"

lemma shrinks_refl [simp]: "shrinks w w"
  by (simp add: shrinks_def)

lemma shrinks_trans: "shrinks a b \<Longrightarrow> shrinks b c \<Longrightarrow> shrinks a c"
  unfolding shrinks_def by blast

definition lock_frame :: "addr set \<Rightarrow> 'a kernel_scheme \<Rightarrow> 'a kernel_scheme \<Rightarrow> bool" where
  "lock_frame L st st' \<longleftrightarrow> owner st' = owner st \<and> (\<forall>t \<in> L. t_locks (thr st' t) = t_locks (thr st t)) \<and>
     (\<forall>l. shrinks (queues st (Qlock l)) (queues st' (Qlock l)))"

lemma frame_lock_ok:
  assumes ok: "lock_ok L st" and f: "lock_frame L st st'"
  shows "lock_ok L st'"
proof -
  have "queues st' (Qlock l) \<noteq> WakeupPending \<and> (owner st l = NULL \<longrightarrow> waiting (queues st' (Qlock l)) = [])" for l
  proof -
    have "shrinks (queues st (Qlock l)) (queues st' (Qlock l))" using f by (simp add: lock_frame_def)
    moreover have "queues st (Qlock l) \<noteq> WakeupPending" "owner st l = NULL \<longrightarrow> waiting (queues st (Qlock l)) = []"
      using ok by (simp_all add: lock_ok_def)
    ultimately show ?thesis by (auto simp: shrinks_def)
  qed
  then show ?thesis using ok f by (simp add: lock_ok_def lock_frame_def)
qed

lemma frame_refl: "lock_frame L st st"
  by (simp add: lock_frame_def)

lemma frame_trans:
  assumes "lock_frame L a b" and "lock_frame L b c"
  shows "lock_frame L a c"
  using assms unfolding lock_frame_def by (simp, blast intro: shrinks_trans)

lemma frame_same:
  assumes "owner st' = owner st" and "\<And>t. t \<in> L \<Longrightarrow> t_locks (thr st' t) = t_locks (thr st t)"
    and "\<And>l. shrinks (queues st (Qlock l)) (queues st' (Qlock l))"
  shows "lock_frame L st st'"
  using assms by (simp add: lock_frame_def)

lemma frame_dequeue: "lock_frame L st (proc_threadDequeue t st)"
  by (rule frame_same)
    (auto simp: proc_threadDequeue_def Let_def perf_kinds shrinks_def LIST_REMOVE_def split: option.split dest: notin_set_remove1 set_remove1_subset [THEN subsetD])

lemma frame_wakeup: "q \<notin> range Qlock \<Longrightarrow> lock_frame L st (fst (threadWakeup q st))"
  using frame_dequeue [of L st]
  by (auto simp: threadWakeup_def split: waitq.split list.split intro!: frame_same)

lemma upd_proc_owner [simp]: "owner (upd_proc p g st) = owner st"
  by (simp add: upd_proc_def)

lemma frame_upd: "(\<And>r. t_locks (f r) = t_locks r) \<Longrightarrow> lock_frame L st (upd_thr t f st)"
  by (rule frame_same) auto

lemma frame_ghost:
  "lock_frame L st (fst (threadWakeup Qreaper (upd_thr t (\<lambda>r. r\<lparr>t_state := GHOST\<rparr>) (set_ready i ts st)\<lparr>ghosts := gs\<rparr>)))"
  by (rule frame_trans [OF _ frame_wakeup]) (auto intro: frame_same)

lemma frame_select: "schedule_select i st = Some (t, st') \<Longrightarrow> lock_frame L st st'"
  by (erule schedule_select.raw_induct [where P = "\<lambda>i st p. lock_frame L st (snd p)" and y = "(t, st')", unfolded prod.sel, rotated])
    (auto simp: Let_def split: list.splits if_splits intro: frame_same, (rule frame_trans [OF frame_ghost], blast)+)

lemma frame_save: "lock_frame L st (schedule_save cpu k st)"
  by (rule frame_same) (auto simp: schedule_save_def Let_def perf_kinds)

lemma frame_switch: "lock_frame L st (schedule_switch cpu sel st)"
  by (rule frame_same) (auto simp: schedule_switch_def threads_checkSignal_def Let_def perf_kinds)

lemma frame_cpuTime: "lock_frame L st (threads_cpuTimeCalc a b st)"
  by (rule frame_same) (auto simp: threads_cpuTimeCalc_def Let_def case_prod_beta)

lemma frame_schedule:
  assumes "threads_schedule cpu k st = Some st'"
  shows "lock_frame L st st'"
proof -
  obtain sel s where s: "schedule_select 0 (schedule_save cpu k st) = Some (sel, s)"
    "st' = threads_cpuTimeCalc (current st cpu) sel (schedule_switch cpu sel s)"
    using assms by (auto simp: threads_schedule_def Let_def split: option.splits)
  show ?thesis unfolding s(2)
    by (rule frame_trans [OF frame_save frame_trans [OF frame_select [OF s(1)] frame_trans [OF frame_switch frame_cpuTime]]])
qed

lemma frame_reschedule: "hal_cpuReschedule cpu st = Some st' \<Longrightarrow> lock_frame L st st'"
  unfolding hal_cpuReschedule_def by (rule frame_trans [OF frame_upd frame_schedule]) auto

lemma frame_due: "lock_frame L st (upd_thr t (\<lambda>r. r\<lparr>t_retval := e\<rparr>) (proc_threadDequeue t st))"
  by (rule frame_trans [OF frame_dequeue frame_upd]) simp

lemma frame_timeintr_loop: "timeintr_loop now st = Some (t, st') \<Longrightarrow> lock_frame L st st'"
  by (erule timeintr_loop.raw_induct [where P = "\<lambda>now st p. lock_frame L st (snd p)" and y = "(t, st')", unfolded prod.sel, rotated])
    (auto simp: frame_refl split: list.splits if_splits, rule frame_trans [OF frame_due], blast)

lemma frame_timeintr:
  assumes "threads_timeintr cpu st = Some (st', r)"
  shows "lock_frame L st st'"
proof (cases "cpu = 0")
  case True
  obtain t s where s: "timeintr_loop (hal_timer st (reads st)) (snd (proc_gettimeRaw st)) = Some (t, s)"
    "st' = threads_updateWakeup (hal_timer st (reads st)) t s"
    using assms True by (auto simp: threads_timeintr_def Let_def case_prod_beta split: option.splits)
  have "lock_frame L st (snd (proc_gettimeRaw st))" "lock_frame L s st'" by (rule frame_same; simp add: s(2))+
  then show ?thesis using frame_trans frame_timeintr_loop [OF s(1)] by blast
qed (use assms in \<open>simp add: threads_timeintr_def frame_refl\<close>)

lemma frame_broadcast: "q \<notin> range Qlock \<Longrightarrow> threadBroadcast q n st = Some (st', r) \<Longrightarrow> lock_frame L st st'"
  by (erule threadBroadcast.raw_induct [where P = "\<lambda>x n st p. x = q \<longrightarrow> lock_frame L st (fst p)" and y = "(st', r)", unfolded prod.sel, rotated, rule_format])
    (auto simp: Let_def case_prod_beta split: waitq.splits list.splits intro: frame_wakeup, metis frame_wakeup frame_trans)

lemma frame_enqueue: "q \<notin> range Qlock \<Longrightarrow> lock_frame L st (proc_threadEnqueue cpu q us i st)"
  by (rule frame_same) (auto simp: proc_threadEnqueue_def Let_def case_prod_beta perf_kinds)

lemma frame_setPriority: "lock_frame L st (threadSetPriority t p st)"
  by (rule frame_same) (auto simp: threadSetPriority_def Let_def)

lemma frame_threadPriority: "lock_frame L st (fst (proc_threadPriority cpu p st))"
  by (rule frame_same) (auto simp: proc_threadPriority_def Let_def)

lemma frame_exit: "lock_frame L st (proc_threadExit t st)"
proof -
  have "lock_frame L st (upd_thr t (\<lambda>r. r\<lparr>t_exit := True\<rparr>) st)" by (rule frame_upd) simp
  then show ?thesis using frame_trans [OF _ frame_due, where b = "upd_thr t (\<lambda>r. r\<lparr>t_exit := True\<rparr>) st"]
    by (simp add: proc_threadExit_def thread_interrupt_def Let_def)
qed

lemma frame_exits: "lock_frame L st (proc_threadsDestroy ts st)"
  unfolding proc_threadsDestroy_def
  by (induction ts arbitrary: st) (auto simp: frame_refl intro: frame_trans [OF frame_exit])

lemma frame_waitEx:
  assumes q: "q \<notin> range Qlock"
  shows "proc_threadWaitEx cpu q us i st = Inl (st', e) \<Longrightarrow> lock_frame L st st'"
    and "proc_threadWaitEx cpu q us i st = Inr (Some st') \<Longrightarrow> lock_frame L st st'"
  using frame_enqueue [OF q] frame_trans [OF frame_enqueue [OF q] frame_reschedule]
  by (auto simp: proc_threadWaitEx_def Let_def split: if_splits)

lemma frame_sleep:
  assumes "proc_threadSleep cpu us st = Some st'"
  shows "lock_frame L st st'"
proof -
  obtain s where "hal_cpuReschedule cpu s = Some st'" and "lock_frame L st s"
    using assms unfolding proc_threadSleep_def Let_def case_prod_beta perf_kinds
    by (force intro: frame_same split: if_splits)
  then show ?thesis using frame_trans frame_reschedule by blast
qed

lemma frame_end:
  assumes "proc_threadEnd cpu st = Some st'"
  shows "lock_frame L st st'"
proof -
  let ?s = "upd_thr (current st cpu) (\<lambda>r. r\<lparr>t_state := GHOST\<rparr>) (st\<lparr>current := (current st)(cpu := NULL)\<rparr>)\<lparr>ghosts := LIST_ADD (ghosts st) (current st cpu)\<rparr>"
  have "threads_schedule cpu True (fst (threadWakeup Qreaper ?s)) = Some st'"
    using assms by (simp add: proc_threadEnd_def Let_def)
  moreover have "lock_frame L st ?s" by (rule frame_same) auto
  ultimately show ?thesis using frame_trans [OF _ frame_trans [OF frame_wakeup frame_schedule]] by fastforce
qed

text \<open>What creating a thread does to the locks: nothing, but that the new thread has none.\<close>

lemma create_locks:
  assumes c: "proc_threadCreate nil t kstack process tls p stack st = Some (Returned (st', e))"
  shows "owner st' = owner st \<and> queues st' = queues st \<and> (\<forall>x. x \<noteq> t \<longrightarrow> t_locks (thr st' x) = t_locks (thr st x)) \<and>
    (if e = EOK then t \<noteq> NULL \<and> t_locks (thr st' t) = [] \<and> ready st' = (ready st)(p := ready st p @ [t]) else ready st' = ready st) \<and>
    (thr st' = thr st \<or> t_locks (thr st' t) = [])"
proof (cases "p \<ge> nprio \<or> t = NULL \<or> kstack = NULL")
  case True
  then show ?thesis using c by (auto simp: proc_threadCreate_def split: if_splits)
next
  case False
  let ?s = "upd_thr t (\<lambda>_. new_thread process p (stack = NULL) (hal_timer st (reads st))) (snd (proc_gettimeRaw st))"
  obtain s i where a: "thread_alloc t ?s = Some (Returned (s, i))"
    using c False by (auto simp: proc_threadCreate_def Let_def case_prod_beta split: option.splits asserted.splits)
  from thread_alloc_frame [OF a] obtain h cn where s: "s = ?s\<lparr>tids := h, idcounter := cn\<rparr>" by auto
  have f: "owner u = owner st" "queues u = queues st" "\<And>x. x \<noteq> t \<Longrightarrow> t_locks (thr u x) = t_locks (thr st x)" "t_locks (thr u t) = []"
    if "u = s\<lparr>tids := h'\<rparr> \<or> u = s \<or> u = threadCreate_insert process t p s" for u h'
    using that by (auto simp: s threadCreate_insert_def new_thread_def Let_def perf_kinds perf_begin_def perf_stamp_def perf_write_def case_prod_beta)
  have r: "ready (threadCreate_insert process t p s) = (ready st)(p := ready st p @ [t])"
    by (simp add: threadCreate_insert_def s Let_def perf_kinds set_ready_def LIST_ADD_def)
  have "\<exists>h'. if e = EOK then st' = threadCreate_insert process t p s else st' = s\<lparr>tids := h'\<rparr> \<or> st' = s"
    using c False a by (auto simp: proc_threadCreate_def Let_def case_prod_beta split: if_splits option.splits)
  then obtain h' where e: "if e = EOK then st' = threadCreate_insert process t p s else st' = s\<lparr>tids := h'\<rparr> \<or> st' = s" by blast
  then have "st' = s\<lparr>tids := h'\<rparr> \<or> st' = s \<or> st' = threadCreate_insert process t p s" by (auto split: if_splits)
  note F = f [OF this]
  have "if e = EOK then ready st' = (ready st)(p := ready st p @ [t]) else ready st' = ready st"
    using e r by (auto simp: s split: if_splits)
  then show ?thesis using F False by simp
qed

lemma create_lock_ok:
  assumes ok: "lock_ok L st" and t: "t \<notin> L" "t \<noteq> NULL"
    and c: "proc_threadCreate nil t kstack process tls p stack st = Some (Returned (st', e))"
  shows "lock_ok (if e = EOK then insert t L else L) st'"
proof -
  note F = create_locks [OF c]
  have "x \<noteq> t" if "x \<in> L" for x using that t(1) by auto
  then have "lock_frame L st st'" using F by (intro frame_same) simp_all
  then have k: "lock_ok L st'" by (rule frame_lock_ok [OF ok])
  then have "owner st' l \<noteq> t" for l using t by (auto simp: lock_ok_def)
  then show ?thesis using k F by (simp add: lock_ok_def)
qed

lemma sched_step_lock_ok:
  assumes "sched_step I (- range Qlock) s s'" and "lock_ok (fst s) (snd s)" and "NULL \<notin> fst s"
  shows "lock_ok (fst s') (snd s')"
  using assms
proof (induction rule: sched_step.induct)
  case (create t L nil kstack process tls p stack st st' e)
  show ?case
  proof (cases "t = NULL")
    case True
    then show ?thesis using create by (auto simp: proc_threadCreate_def split: if_splits)
  next
    case False
    then show ?thesis using create_lock_ok [OF _ create.hyps(1) False create.hyps(2)] create.prems by simp
  qed
next
  case (interrupt cpu st kmode st' L)
  show ?case using frame_lock_ok [OF _ frame_schedule [OF interrupt.hyps(2)]] interrupt.prems(1) by simp
next
  case (timer cpu st st' r L)
  show ?case using frame_lock_ok [OF _ frame_timeintr [OF timer.hyps]] timer.prems(1) by simp
next
  case (wait_now cpu st us q i st' e L)
  show ?case using frame_lock_ok [OF _ frame_waitEx(1) [OF _ wait_now.hyps(3)]] wait_now by simp
next
  case (wait_block cpu st us q i st' L)
  show ?case using frame_lock_ok [OF _ frame_waitEx(2) [OF _ wait_block.hyps(3)]] wait_block by simp
next
  case (sleep cpu st us st' L)
  show ?case using frame_lock_ok [OF _ frame_sleep [OF sleep.hyps(3)]] sleep.prems(1) by simp
next
  case (wakeup q L st)
  then show ?case using frame_lock_ok frame_wakeup [of q L st] by (simp add: proc_threadWakeup_def)
next
  case (broadcast q st st' n L)
  then show ?case using frame_lock_ok frame_broadcast [of q 0 st st' n L] by (simp add: proc_threadBroadcast_def)
next
  case (priority cpu st L p)
  show ?case using frame_lock_ok [OF _ frame_threadPriority] priority.prems(1) by simp
next
  case (inherit t L p st)
  show ?case using frame_lock_ok [OF _ frame_setPriority] inherit.prems(1) by simp
next
  case (exit t L st)
  show ?case using frame_lock_ok [OF _ frame_exit [of L st t]] exit.prems(1) by (simp add: proc_threadDestroy_def)
next
  case (kill ts L st)
  show ?case using frame_lock_ok [OF _ frame_exits] kill.prems(1) by simp
next
  case (finish cpu st st' L)
  show ?case using frame_lock_ok [OF _ frame_end [OF finish.hyps(2)]] finish.prems(1) by simp
next
  case (reap st L)
  have "lock_frame L st (fst (reap_take st))" by (rule frame_same) (simp_all add: reap_take_def Let_def)
  then show ?case using frame_lock_ok reap.prems(1) by simp
qed

end
