(* ===== verification/Proc_Refs.thy ===== *)
theory Proc_Refs
  imports Kernel_Prelude "HOL-Library.Word"
begin

text \<open>
  The reference-counting discipline of the kernel objects that processes share. A registered object is
  reached through a tree, which owns one reference; every other reference is held by a running call.
  A run interleaves the sections of different calls: registering a new object, getting a reference through
  the tree, dropping one, giving up an object that could not be registered, and taking the object out of the tree, which passes the tree's reference to the caller.
  The count is a 32-bit word, so a run keeps the number of references held at once below \<open>max_held\<close>.
\<close>

definition max_held :: nat where
  "max_held = 2 ^ 31 - 2"

text \<open>
  A state of a run: the state of the kernel, how many references to an object running calls hold, and the
  objects that were given up because their count reached zero (the result of the decrement is an \<open>int\<close>).
\<close>

type_synonym 's refstate = "'s \<times> (addr \<Rightarrow> nat) \<times> addr set"

type_synonym 's refop = "addr \<Rightarrow> 's \<Rightarrow> 's \<Rightarrow> bool"

inductive ref_step :: "('s \<Rightarrow> addr \<Rightarrow> 32 word) \<Rightarrow> 's refop \<Rightarrow> 's refop \<Rightarrow> 's refop \<Rightarrow> 's refop \<Rightarrow> 's refop \<Rightarrow> ('s \<Rightarrow> 's \<Rightarrow> bool) \<Rightarrow>
    's refstate \<Rightarrow> 's refstate \<Rightarrow> bool"
  for refs enlist get put unlist discard other where
  create: "enlist r s s' \<Longrightarrow> held r = 0 \<Longrightarrow>
    ref_step refs enlist get put unlist discard other (s, held, dead) (s', held(r := 1), dead - {r})"
| get: "get r s s' \<Longrightarrow> held r < max_held \<Longrightarrow>
    ref_step refs enlist get put unlist discard other (s, held, dead) (s', held(r := held r + 1), dead)"
| put: "put r s s' \<Longrightarrow> held r > 0 \<Longrightarrow>
    ref_step refs enlist get put unlist discard other (s, held, dead)
      (s', held(r := held r - 1), if sint (refs s' r) \<le> 0 then insert r dead else dead)"
| unlist: "unlist r s s' \<Longrightarrow> held r < max_held \<Longrightarrow>
    ref_step refs enlist get put unlist discard other (s, held, dead) (s', held(r := held r + 1), dead)"
| discard: "discard r s s' \<Longrightarrow> held r = 0 \<Longrightarrow> ref_step refs enlist get put unlist discard other (s, held, dead) (s', held, dead)"
| other: "other s s' \<Longrightarrow> ref_step refs enlist get put unlist discard other (s, held, dead) (s', held, dead)"

inductive ref_run :: "('s \<Rightarrow> addr \<Rightarrow> 32 word) \<Rightarrow> 's refop \<Rightarrow> 's refop \<Rightarrow> 's refop \<Rightarrow> 's refop \<Rightarrow> 's refop \<Rightarrow> ('s \<Rightarrow> 's \<Rightarrow> bool) \<Rightarrow> 's \<Rightarrow>
    's refstate \<Rightarrow> bool"
  for refs enlist get put unlist discard other s0 where
  start: "ref_run refs enlist get put unlist discard other s0 (s0, \<lambda>_. 0, {})"
| step: "ref_run refs enlist get put unlist discard other s0 x \<Longrightarrow> ref_step refs enlist get put unlist discard other x y \<Longrightarrow>
    ref_run refs enlist get put unlist discard other s0 y"

text \<open>A count that fits is positive exactly when it is not zero.\<close>

lemma sint_of_nat_small: "n < 2 ^ 31 \<Longrightarrow> sint (of_nat n :: 32 word) = int n"
  using signed_take_bit_int_eq_self [of 31 "int n"] by (simp add: sint_uint unsigned_of_nat take_bit_nat_eq_self_iff of_nat_take_bit [symmetric] take_bit_nat_eq_self)

text \<open>What the tree, the count and the other operations of a kind of objects promise.\<close>

locale refcounted =
  fixes refs :: "'s \<Rightarrow> addr \<Rightarrow> 32 word"
    and listed :: "'s \<Rightarrow> addr \<Rightarrow> bool"
    and good :: "'s \<Rightarrow> bool"
    and enlist get put unlist discard :: "'s refop"
    and other :: "'s \<Rightarrow> 's \<Rightarrow> bool"
  assumes enlist_law: "good s \<Longrightarrow> enlist r s s' \<Longrightarrow>
      good s' \<and> \<not> listed s r \<and> listed s' = (listed s)(r := True) \<and> refs s' = (refs s)(r := 2)"
    and get_law: "good s \<Longrightarrow> get r s s' \<Longrightarrow>
      good s' \<and> listed s r \<and> listed s' = listed s \<and> refs s' = (refs s)(r := refs s r + 1)"
    and put_law: "good s \<Longrightarrow> put r s s' \<Longrightarrow> good s' \<and> listed s' = listed s \<and> refs s' = (refs s)(r := refs s r - 1)"
    and unlist_law: "good s \<Longrightarrow> unlist r s s' \<Longrightarrow>
      good s' \<and> listed s r \<and> listed s' = (listed s)(r := False) \<and> refs s' = refs s"
    and discard_law: "good s \<Longrightarrow> discard r s s' \<Longrightarrow> good s' \<and> \<not> listed s r \<and> listed s' = listed s \<and> (\<forall>q. q \<noteq> r \<longrightarrow> refs s' q = refs s q)"
    and other_law: "good s \<Longrightarrow> other s s' \<Longrightarrow> good s' \<and> listed s' = listed s \<and> refs s' = refs s"
begin

definition counted :: "'s refstate \<Rightarrow> bool" where
  "counted x \<longleftrightarrow> (case x of (s, held, dead) \<Rightarrow>
     good s \<and> (\<forall>r. held r \<le> max_held \<and>
       (listed s r \<or> held r > 0 \<longrightarrow> refs s r = of_nat (of_bool (listed s r) + held r) \<and> r \<notin> dead)))"

lemma put_count:
  assumes "counted (s, held, dead)" and "held r > 0" and "put r s s'"
  defines "n \<equiv> of_bool (listed s r) + (held r - 1)"
  shows "good s'" and "listed s' = listed s" and "refs s' = (refs s)(r := of_nat n)" and "sint (of_nat n :: 32 word) \<le> 0 \<longleftrightarrow> \<not> listed s r \<and> held r = 1"
proof -
  have c: "good s" "held r \<le> max_held" "refs s r = of_nat (of_bool (listed s r) + held r)" using assms(1,2) by (auto simp: counted_def)
  show "good s'" "listed s' = listed s" using put_law [OF c(1) assms(3)] by auto
  have n: "of_bool (listed s r) + held r = Suc n" "n < 2 ^ 31" using assms(2) c(2) by (auto simp: n_def max_held_def)
  then show "refs s' = (refs s)(r := of_nat n)" using put_law [OF c(1) assms(3)] c(3) by simp
  have "n = 0 \<longleftrightarrow> \<not> listed s r \<and> held r = 1" using assms(2) by (auto simp: n_def)
  then show "sint (of_nat n :: 32 word) \<le> 0 \<longleftrightarrow> \<not> listed s r \<and> held r = 1" using sint_of_nat_small [OF n(2)] by simp
qed

lemma counted_put:
  assumes "counted (s, held, dead)" and "held r > 0" and "put r s s'"
  shows "counted (s', held(r := held r - 1), if sint (refs s' r) \<le> 0 then insert r dead else dead)"
proof -
  note p = put_count [OF assms]
  have z: "sint (refs s' r) \<le> 0 \<longleftrightarrow> \<not> listed s r \<and> held r = 1" using p(3,4) by simp
  have "held q \<le> max_held" "listed s q \<or> held q > 0 \<Longrightarrow> refs s q = of_nat (of_bool (listed s q) + held q) \<and> q \<notin> dead" for q
    using assms(1) by (auto simp: counted_def)
  note q = this
  have "(held(r := held r - 1)) q \<le> max_held" for q using q(1) [of q] by auto
  moreover have "refs s' q = of_nat (of_bool (listed s' q) + (held(r := held r - 1)) q) \<and> q \<notin> (if sint (refs s' r) \<le> 0 then insert r dead else dead)"
    if "listed s' q \<or> (held(r := held r - 1)) q > 0" for q
  proof (cases "q = r")
    case True
    then show ?thesis using that z p(2,3) q(2) [of r] assms(2) by auto
  next
    case False
    then show ?thesis using that p(2,3) q(2) [of q] by auto
  qed
  ultimately show ?thesis using p(1) by (simp add: counted_def)
qed

lemma counted_step:
  assumes "counted x" and "ref_step refs enlist get put unlist discard other x y"
  shows "counted y"
  using assms(2,1)
proof cases
  case (create r s s' held dead)
  then show ?thesis using assms(1) enlist_law [of s r s'] by (auto simp: counted_def max_held_def)
next
  case (get r s s' held dead)
  then show ?thesis using assms(1) get_law [of s r s'] by (auto simp: counted_def algebra_simps)
next
  case (put r s s' held dead)
  then show ?thesis using assms(1) counted_put by blast
next
  case (unlist r s s' held dead)
  then show ?thesis using assms(1) unlist_law [of s r s'] by (auto simp: counted_def)
next
  case (discard r s s' held dead)
  then have l: "good s'" "\<not> listed s r" "listed s' = listed s" "\<And>q. q \<noteq> r \<Longrightarrow> refs s' q = refs s q"
    using assms(1) discard_law [of s r s'] by (auto simp: counted_def)
  have "listed s' q \<or> held q > 0 \<Longrightarrow> q \<noteq> r" for q using l(2,3) discard(4) by auto
  then show ?thesis using assms(1) discard(1,2) l by (auto simp: counted_def)
next
  case (other s s' held dead)
  then show ?thesis using assms(1) other_law [of s s'] by (auto simp: counted_def)
qed

lemma counted_run:
  assumes "ref_run refs enlist get put unlist discard other s0 x" and "good s0" and "\<And>r. \<not> listed s0 r"
  shows "counted x"
  using assms(1)
proof induction
  case start
  then show ?case using assms by (simp add: counted_def)
next
  case (step x y)
  then show ?case using counted_step by blast
qed

text \<open>The count of a reachable object is the number of its references, and such an object was never given up.\<close>

lemma run_counted:
  assumes "ref_run refs enlist get put unlist discard other s0 (s, held, dead)" and "good s0" and "\<And>r. \<not> listed s0 r" and "listed s r \<or> held r > 0"
  shows "refs s r = of_nat (of_bool (listed s r) + held r) \<and> r \<notin> dead"
  using counted_run [OF assms(1-3)] assms(4) by (auto simp: counted_def)

text \<open>Dropping a reference returns zero exactly when it was the last one.\<close>

lemma run_put_last:
  assumes "ref_run refs enlist get put unlist discard other s0 (s, held, dead)" and "good s0" and "\<And>r. \<not> listed s0 r" and "held r > 0" and "put r s s'"
  shows "sint (refs s' r) \<le> 0 \<longleftrightarrow> \<not> listed s r \<and> held r = 1"
  using put_count(3,4) [OF counted_run [OF assms(1-3)] assms(4,5)] by simp

end

end
