(* ===== verification/Proc_Resource.thy ===== *)
theory Proc_Resource
  imports Proc_Refs Proc_Lock "HOL-Library.Monad_Syntax"
begin

text \<open>
  The resources of a process: \<^verbatim>\<open>proc/resource.c\<close>, and the kinds of resources, mutexes
  (\<^verbatim>\<open>proc/mutex.c\<close>), condition variables (\<^verbatim>\<open>proc/cond.c\<close>) and user interrupt handlers
  (\<^verbatim>\<open>proc/userintr.c\<close>). A resource is the first member of the object it belongs to, so both
  have the same address; the lock of a mutex and the queue of a condition variable are named by that
  address too.

  The sections under the lock of a process are single steps. \<open>nil\<close> is the sentinel of the tree removal;
  the block \<open>vm_kmalloc\<close> returned, or the null pointer, is an argument, and what is given back with
  \<open>vm_kfree\<close> is recorded. A call that blocks ends in \<open>Block\<close>, and the definition named \<open>_resume\<close> is what it does
  when its thread runs again. \<open>None\<close> is a call that does not end, or one whose identifier tree found its chosen
  identifier taken. The build is the default one, in which \<open>LIB_ASSERT\<close> is empty.
\<close>

section \<open>Model\<close>

datatype rtype = rtLock | rtCond | rtInth

text \<open>\<open>r_cond\<close> is the field \<open>cond\<close> of a user interrupt handler.\<close>

record resource =
  r_refs :: "32 word"
  r_type :: rtype
  r_cond :: addr

text \<open>The trees of resources by process, what was freed, the installed interrupt handlers and \<open>userintr_common.active\<close>.\<close>

record objects = kernel +
  rsrc :: "addr \<Rightarrow> resource"
  rtree :: "addr \<Rightarrow> idheap"
  kfreed :: "addr list"
  handlers :: "addr list"
  active :: addr

definition RESOURCE_ID_MIN :: int where
  "RESOURCE_ID_MIN = 1"

definition upd_rsrc :: "addr \<Rightarrow> (resource \<Rightarrow> resource) \<Rightarrow> 'a objects_scheme \<Rightarrow> 'a objects_scheme" where
  "upd_rsrc r f st = st\<lparr>rsrc := (rsrc st)(r := f (rsrc st r))\<rparr>"

definition set_rtree :: "addr \<Rightarrow> idheap \<Rightarrow> 'a objects_scheme \<Rightarrow> 'a objects_scheme" where
  "set_rtree p h st = st\<lparr>rtree := (rtree st)(p := h)\<rparr>"

definition kfree :: "addr \<Rightarrow> 'a objects_scheme \<Rightarrow> 'a objects_scheme" where
  "kfree b st = st\<lparr>kfreed := b # kfreed st\<rparr>"

fun unless_panic :: "'a asserted option \<Rightarrow> 'a option" where
  "unless_panic (Some (Returned x)) = Some x"
| "unless_panic _ = None"

definition resource_alloc :: "addr \<Rightarrow> addr \<Rightarrow> 'a objects_scheme \<Rightarrow> ('a objects_scheme \<times> int) option" where
  "resource_alloc p r st = do {
     let st = upd_rsrc r (\<lambda>x. x\<lparr>r_refs := 2\<rparr>) st;
     (h, i) \<leftarrow> unless_panic (lib_idtreeAlloc r RESOURCE_ID_MIN (rtree st p));
     Some (set_rtree p h st, i)
   }"

definition resource_get :: "addr \<Rightarrow> int \<Rightarrow> 'a objects_scheme \<Rightarrow> ('a objects_scheme \<times> addr) option" where
  "resource_get p i st = do {
     r \<leftarrow> lib_idtreeFind (rtree st p) i;
     Some (if r \<noteq> NULL then upd_rsrc r (\<lambda>x. x\<lparr>r_refs := r_refs x + 1\<rparr>) st else st, r)
   }"

definition resource_put :: "addr \<Rightarrow> 'a objects_scheme \<Rightarrow> 'a objects_scheme \<times> int" where
  "resource_put r st = (let st = upd_rsrc r (\<lambda>x. x\<lparr>r_refs := r_refs x - 1\<rparr>) st in (st, sint (r_refs (rsrc st r))))"

definition resource_remove :: "addr \<Rightarrow> addr \<Rightarrow> int \<Rightarrow> 'a objects_scheme \<Rightarrow> ('a objects_scheme \<times> addr) option" where
  "resource_remove nil p i st = do {
     r \<leftarrow> lib_idtreeFind (rtree st p) i;
     if r \<noteq> NULL then do {
       h \<leftarrow> lib_idtreeRemove nil r (rtree st p);
       Some (set_rtree p h st, r)
     } else Some (st, r)
   }"

definition resource_init :: "addr \<Rightarrow> 'a objects_scheme \<Rightarrow> 'a objects_scheme" where
  "resource_init p st = set_rtree p (lib_idtreeInit (rtree st p)) st"

text \<open>The process of the thread that runs on a processor.\<close>

definition my_process :: "nat \<Rightarrow> 'a kernel_scheme \<Rightarrow> addr" where
  "my_process cpu st = t_process (thr st (current st cpu))"

text \<open>What a call does after a part that may block.\<close>

definition afterwards :: "'s outcome option \<Rightarrow> ('s \<Rightarrow> int \<Rightarrow> 's outcome option) \<Rightarrow> 's outcome option" where
  "afterwards r k = (case r of Some (Return st e) \<Rightarrow> k st e | _ \<Rightarrow> r)"

section \<open>Mutexes\<close>

definition mutex_get :: "nat \<Rightarrow> int \<Rightarrow> 'a objects_scheme \<Rightarrow> ('a objects_scheme \<times> addr) option" where
  "mutex_get cpu h st = do {
     (st, r) \<leftarrow> resource_get (my_process cpu st) h st;
     Some (st, if r \<noteq> NULL \<and> r_type (rsrc st r) = rtLock then r else NULL)
   }"

definition mutex_put :: "addr \<Rightarrow> 'a objects_scheme \<Rightarrow> 'a objects_scheme" where
  "mutex_put m st =
     (let (st, rem) = resource_put m st
      in if rem \<le> 0 then kfree m (fst (proc_lockDone m st)) else st)"

definition proc_mutexCreate :: "nat \<Rightarrow> addr \<Rightarrow> 'a objects_scheme \<Rightarrow> ('a objects_scheme \<times> int) option" where
  "proc_mutexCreate cpu m st =
     (if m = NULL then Some (st, - ENOMEM)
      else do {
        let st = upd_rsrc m (\<lambda>x. x\<lparr>r_type := rtLock\<rparr>) st;
        (st, i) \<leftarrow> resource_alloc (my_process cpu st) m st;
        if i < 0 then Some (kfree m st, - ENOMEM)
        else Some (fst (resource_put m (fst (proc_lockInit m st))), i)
      })"

definition proc_mutexLock :: "bool \<Rightarrow> nat \<Rightarrow> int \<Rightarrow> 'a objects_scheme \<Rightarrow> 'a objects_scheme outcome option" where
  "proc_mutexLock started cpu h st = do {
     (st, m) \<leftarrow> mutex_get cpu h st;
     if m = NULL then Some (Return st (- EINVAL))
     else afterwards (proc_lockSetInterruptible started cpu m st) (\<lambda>st err. Some (Return (mutex_put m st) err))
   }"

definition mutexLock_resume :: "nat \<Rightarrow> addr \<Rightarrow> int \<Rightarrow> 'a objects_scheme \<Rightarrow> 'a objects_scheme outcome option" where
  "mutexLock_resume cpu m err st =
     afterwards (lockSet_resume cpu m True err st) (\<lambda>st err. Some (Return (mutex_put m st) err))"

definition proc_mutexTry :: "bool \<Rightarrow> nat \<Rightarrow> int \<Rightarrow> 'a objects_scheme \<Rightarrow> ('a objects_scheme \<times> int) option" where
  "proc_mutexTry started cpu h st = do {
     (st, m) \<leftarrow> mutex_get cpu h st;
     if m = NULL then Some (st, - EINVAL)
     else (let (st, err) = proc_lockTry started cpu m st in Some (mutex_put m st, err))
   }"

definition proc_mutexUnlock :: "bool \<Rightarrow> nat \<Rightarrow> int \<Rightarrow> 'a objects_scheme \<Rightarrow> 'a objects_scheme outcome option" where
  "proc_mutexUnlock started cpu h st = do {
     (st, m) \<leftarrow> mutex_get cpu h st;
     if m = NULL then Some (Return st (- EINVAL))
     else afterwards (proc_lockClear started cpu m st) (\<lambda>st err. Some (Return (mutex_put m st) err))
   }"

definition mutexUnlock_resume :: "addr \<Rightarrow> 'a objects_scheme \<Rightarrow> 'a objects_scheme outcome option" where
  "mutexUnlock_resume m st = Some (Return (mutex_put m st) EOK)"

section \<open>Condition variables\<close>

text \<open>Waking threads and yielding to them; when no thread was woken the call goes on at once.\<close>

definition wakeup_yield :: "nat \<Rightarrow> qaddr \<Rightarrow> 'a kernel_scheme \<Rightarrow> 'a kernel_scheme outcome option" where
  "wakeup_yield cpu q st =
     map_option (if snd (threadWakeup q st) \<noteq> 0 then Block else (\<lambda>st. Return st EOK)) (proc_threadWakeupYield cpu q st)"

definition broadcast_yield :: "nat \<Rightarrow> qaddr \<Rightarrow> 'a kernel_scheme \<Rightarrow> 'a kernel_scheme outcome option" where
  "broadcast_yield cpu q st = do {
     (st', r) \<leftarrow> threadBroadcast q 0 st;
     map_option (if r \<noteq> 0 then Block else (\<lambda>st. Return st EOK)) (proc_threadBroadcastYield cpu q st)
   }"

definition cond_get :: "nat \<Rightarrow> int \<Rightarrow> 'a objects_scheme \<Rightarrow> ('a objects_scheme \<times> addr) option" where
  "cond_get cpu c st = do {
     (st, r) \<leftarrow> resource_get (my_process cpu st) c st;
     Some (st, if r \<noteq> NULL \<and> r_type (rsrc st r) = rtCond then r else NULL)
   }"

definition cond_put :: "nat \<Rightarrow> addr \<Rightarrow> 'a objects_scheme \<Rightarrow> 'a objects_scheme outcome option" where
  "cond_put cpu c st =
     (let (st, rem) = resource_put c st
      in if rem \<le> 0 then afterwards (broadcast_yield cpu (Qobj c) st) (\<lambda>st e. Some (Return (kfree c st) e))
         else Some (Return st EOK))"

definition cond_put_resume :: "addr \<Rightarrow> 'a objects_scheme \<Rightarrow> 'a objects_scheme outcome" where
  "cond_put_resume c st = Return (kfree c st) EOK"

definition proc_condCreate :: "nat \<Rightarrow> addr \<Rightarrow> 'a objects_scheme \<Rightarrow> ('a objects_scheme \<times> int) option" where
  "proc_condCreate cpu c st =
     (if c = NULL then Some (st, - ENOMEM)
      else do {
        let st = upd_rsrc c (\<lambda>x. x\<lparr>r_type := rtCond\<rparr>) st;
        (st, i) \<leftarrow> resource_alloc (my_process cpu st) c st;
        if i < 0 then Some (kfree c st, - ENOMEM)
        else Some (fst (resource_put c (set_queue (Qobj c) (Queue []) st)), i)
      })"

text \<open>The end of \<open>proc_condWait\<close>: both references are dropped and the result of the wait is returned.\<close>

definition condWait_finish :: "nat \<Rightarrow> addr \<Rightarrow> addr \<Rightarrow> int \<Rightarrow> 'a objects_scheme \<Rightarrow> 'a objects_scheme outcome option" where
  "condWait_finish cpu c m err st = afterwards (cond_put cpu c (mutex_put m st)) (\<lambda>st e. Some (Return st err))"

definition proc_condWait :: "bool \<Rightarrow> nat \<Rightarrow> int \<Rightarrow> int \<Rightarrow> time \<Rightarrow> 'a objects_scheme \<Rightarrow> 'a objects_scheme outcome option" where
  "proc_condWait started cpu c m timeout st = do {
     (st, cond) \<leftarrow> cond_get cpu c st;
     if cond = NULL then Some (Return st (- EINVAL))
     else do {
       (st, mutex) \<leftarrow> mutex_get cpu m st;
       if mutex = NULL then afterwards (cond_put cpu cond st) (\<lambda>st e. Some (Return st (- EINVAL)))
       else afterwards (proc_lockWait started cpu (Qobj cond) mutex timeout st) (\<lambda>st err. condWait_finish cpu cond mutex err st)
     }
   }"

definition condWait_resume :: "nat \<Rightarrow> addr \<Rightarrow> addr \<Rightarrow> int \<Rightarrow> 'a objects_scheme \<Rightarrow> 'a objects_scheme outcome option" where
  "condWait_resume cpu c m err st = afterwards (lockWait_resume cpu m err st) (\<lambda>st err. condWait_finish cpu c m err st)"

definition proc_condSignal :: "nat \<Rightarrow> int \<Rightarrow> 'a objects_scheme \<Rightarrow> 'a objects_scheme outcome option" where
  "proc_condSignal cpu c st = do {
     (st, cond) \<leftarrow> cond_get cpu c st;
     if cond = NULL then Some (Return st (- EINVAL))
     else afterwards (wakeup_yield cpu (Qobj cond) st) (\<lambda>st e. cond_put cpu cond st)
   }"

definition proc_condBroadcast :: "nat \<Rightarrow> int \<Rightarrow> 'a objects_scheme \<Rightarrow> 'a objects_scheme outcome option" where
  "proc_condBroadcast cpu c st = do {
     (st, cond) \<leftarrow> cond_get cpu c st;
     if cond = NULL then Some (Return st (- EINVAL))
     else afterwards (broadcast_yield cpu (Qobj cond) st) (\<lambda>st e. cond_put cpu cond st)
   }"

section \<open>User interrupt handlers\<close>

definition userintr_put :: "nat \<Rightarrow> addr \<Rightarrow> 'a objects_scheme \<Rightarrow> 'a objects_scheme outcome option" where
  "userintr_put cpu ui st =
     (let (st, rem) = resource_put ui st
      in if rem \<le> 0 then
           (let st = st\<lparr>handlers := remove1 ui (handlers st)\<rparr>
            in afterwards (if r_cond (rsrc st ui) \<noteq> NULL then cond_put cpu (r_cond (rsrc st ui)) st else Some (Return st EOK))
                 (\<lambda>st e. Some (Return (kfree ui st) e)))
         else Some (Return st EOK))"

text \<open>\<open>f\<close> is the user's function \<open>ui->f\<close> as it changes the state; the result says whether to reschedule.\<close>

definition userintr_dispatch :: "('a objects_scheme \<Rightarrow> 'a objects_scheme \<times> int) \<Rightarrow> addr \<Rightarrow> 'a objects_scheme \<Rightarrow> ('a objects_scheme \<times> int) option" where
  "userintr_dispatch f ui st =
     (let (st, ret) = f (st\<lparr>active := ui\<rparr>);
          st = st\<lparr>active := NULL\<rparr>
      in if ret \<ge> 0 \<and> r_cond (rsrc st ui) \<noteq> NULL
         then map_option (\<lambda>(st, n). (st, 1)) (proc_threadBroadcast (Qobj (r_cond (rsrc st ui))) st)
         else Some (st, 0))"

text \<open>\<open>res\<close> is the result of \<open>hal_interruptsSetHandler\<close>, which installs the handler when it is \<open>EOK\<close>.\<close>

definition userintr_setHandler :: "nat \<Rightarrow> addr \<Rightarrow> int \<Rightarrow> 32 word \<Rightarrow> 'a objects_scheme \<Rightarrow> 'a objects_scheme outcome option" where
  "userintr_setHandler cpu ui res c st = do {
     (st, cond) \<leftarrow> (if c > 0 then cond_get cpu (sint c) st else Some (st, NULL));
     let drop = (\<lambda>st e. if cond \<noteq> NULL then afterwards (cond_put cpu cond st) (\<lambda>st _. Some (Return st e)) else Some (Return st e));
     if c > 0 \<and> cond = NULL then Some (Return st (- EINVAL))
     else if ui = NULL then drop st (- ENOMEM)
     else do {
       let st = upd_rsrc ui (\<lambda>x. x\<lparr>r_type := rtInth, r_cond := cond\<rparr>) st;
       if res \<noteq> EOK then afterwards (drop st res) (\<lambda>st e. Some (Return (kfree ui st) e))
       else do {
         let st = st\<lparr>handlers := ui # handlers st\<rparr>;
         (st, i) \<leftarrow> resource_alloc (my_process cpu st) ui st;
         if i < 0 then
           (let st = st\<lparr>handlers := remove1 ui (handlers st)\<rparr>
            in afterwards (drop st (- ENOMEM)) (\<lambda>st e. Some (Return (kfree ui st) e)))
         else Some (Return (fst (resource_put ui st)) i)
       }
     }
   }"

definition userintr_active :: "'a objects_scheme \<Rightarrow> addr" where
  "userintr_active st = active st"

definition userintr_init :: "'a objects_scheme \<Rightarrow> 'a objects_scheme" where
  "userintr_init st = st\<lparr>active := NULL\<rparr>"

section \<open>Destroying and copying resources\<close>

definition proc_resourcePut :: "nat \<Rightarrow> addr \<Rightarrow> 'a objects_scheme \<Rightarrow> 'a objects_scheme outcome option" where
  "proc_resourcePut cpu r st =
     (case r_type (rsrc st r) of
        rtLock \<Rightarrow> Some (Return (mutex_put r st) EOK)
      | rtCond \<Rightarrow> cond_put cpu r st
      | rtInth \<Rightarrow> userintr_put cpu r st)"

definition proc_resourceDestroy :: "addr \<Rightarrow> nat \<Rightarrow> addr \<Rightarrow> int \<Rightarrow> 'a objects_scheme \<Rightarrow> 'a objects_scheme outcome option" where
  "proc_resourceDestroy nil cpu p i st = do {
     (st, r) \<leftarrow> resource_remove nil p i st;
     if r = NULL then Some (Return st (- EINVAL))
     else afterwards (proc_resourcePut cpu r st) (\<lambda>st e. Some (Return st EOK))
   }"

partial_function (option) proc_resourcesDestroy ::
    "addr \<Rightarrow> nat \<Rightarrow> addr \<Rightarrow> 'a objects_scheme \<Rightarrow> 'a objects_scheme outcome option" where
  "proc_resourcesDestroy nil cpu p st =
     (case lib_idtreeMinimum (rtree st p) (rb_root (rtree st p)) of
        None \<Rightarrow> None
      | Some r \<Rightarrow>
          if r = NULL then Some (Return st EOK)
          else
            (case lib_idtreeRemove nil r (rtree st p) of
               None \<Rightarrow> None
             | Some h \<Rightarrow>
                 (case proc_resourcePut cpu r (set_rtree p h st) of
                    Some (Return st e) \<Rightarrow> proc_resourcesDestroy nil cpu p st
                  | x \<Rightarrow> x)))"

text \<open>
  One resource of the source process in \<open>proc_resourcesCopy\<close>: a new resource of the same kind is created in
  the process of the caller and put under the same identifier. \<open>b\<close> is the block for it, \<open>rid\<close> the identifier
  in the source and \<open>err\<close> the result so far, which a handler leaves alone.
\<close>

definition resourceCopy_one :: "addr \<Rightarrow> nat \<Rightarrow> addr \<Rightarrow> addr \<Rightarrow> int \<Rightarrow> int \<Rightarrow> 'a objects_scheme \<Rightarrow> ('a objects_scheme \<times> int) option" where
  "resourceCopy_one nil cpu b r rid err st =
     (if r_type (rsrc st r) = rtInth then Some (st, err)
      else do {
        (st, err) \<leftarrow> (if r_type (rsrc st r) = rtLock then proc_mutexCreate cpu b st else proc_condCreate cpu b st);
        if err > 0 \<and> err \<noteq> rid then do {
          let p = my_process cpu st;
          (st, newr) \<leftarrow> resource_remove nil p err st;
          if newr = NULL then Some (st, - EINVAL)
          else do {
            let h = rtree st p;
            (h, err) \<leftarrow> lib_idtreeInsert newr (h\<lparr>idn := (idn h)(newr := rid)\<rparr>);
            Some (set_rtree p h st, err)
          }
        } else Some (st, err)
      })"

text \<open>The loop over the nodes of the tree of the source process; \<open>blk\<close> gives the blocks of the rounds.\<close>

partial_function (option) resourcesCopy_loop ::
    "addr \<Rightarrow> nat \<Rightarrow> addr \<Rightarrow> addr \<Rightarrow> (nat \<Rightarrow> addr) \<Rightarrow> int \<Rightarrow> 'a objects_scheme \<Rightarrow> ('a objects_scheme \<times> int) option" where
  "resourcesCopy_loop nil cpu source n blk err st =
     (if n = NULL then Some (st, err)
      else
        (case resourceCopy_one nil cpu (blk 0) n (idn (rtree st source) n) err st of
           None \<Rightarrow> None
         | Some (st, err) \<Rightarrow>
             if err < 0 then Some (st, err)
             else
               (case lib_idtreeNext (rtree st source) n of
                  None \<Rightarrow> None
                | Some n \<Rightarrow> resourcesCopy_loop nil cpu source n (blk \<circ> Suc) err st)))"

definition proc_resourcesCopy :: "addr \<Rightarrow> nat \<Rightarrow> addr \<Rightarrow> (nat \<Rightarrow> addr) \<Rightarrow> 'a objects_scheme \<Rightarrow> ('a objects_scheme \<times> int) option" where
  "proc_resourcesCopy nil cpu source blk st = do {
     n \<leftarrow> lib_idtreeMinimum (rtree st source) (rb_root (rtree st source));
     (st, err) \<leftarrow> resourcesCopy_loop nil cpu source n blk EOK st;
     Some (st, if err \<ge> 0 then EOK else err)
   }"

end
