(* ===== verification/Proc_Resource_Spec.thy ===== *)
theory Proc_Resource_Spec
  imports Proc_Resource Proc_Sched_Spec
begin

text \<open>
  The contract of the resources of \<^verbatim>\<open>proc/resource.c\<close>: their trees and counts keep the discipline of
  \<^verbatim>\<open>Proc_Refs\<close>, so that an object is freed once, with the last reference, and a handle names the resource it was
  given for until it is destroyed.
\<close>

section \<open>Objects and the scheduler\<close>

text \<open>The operations of the scheduler leave the fields of the objects alone: they keep \<open>kernel.more\<close>.\<close>

lemma more_objects:
  fixes a b :: "'a objects_scheme"
  assumes "kernel.more a = kernel.more b"
  shows "rsrc a = rsrc b" and "rtree a = rtree b" and "kfreed a = kfreed b" and "handlers a = handlers b" and "active a = active b"
  using assms by (cases a; cases b; simp)+

lemma more_basic [simp]:
  "kernel.more (upd_thr t f st) = kernel.more st" "kernel.more (set_queue q w st) = kernel.more st"
  "kernel.more (set_ready p ts st) = kernel.more st" "kernel.more (set_owner l t st) = kernel.more st"
  "kernel.more (perf_waking t st) = kernel.more st" "kernel.more (perf_event t e st) = kernel.more st"
  by (auto simp: upd_thr_def set_queue_def set_ready_def set_owner_def perf_kinds perf_event_def perf_write_def Let_def proc_gettimeRaw_def)

lemma more_priority [simp]: "kernel.more (threadSetPriority t p st) = kernel.more st"
  by (simp add: threadSetPriority_def Let_def)

lemma more_dequeue [simp]: "kernel.more (proc_threadDequeue t st) = kernel.more st"
  by (auto simp: proc_threadDequeue_def Let_def split: option.split)

lemma more_lock [simp]:
  "kernel.more (fst (lockUnlock l st)) = kernel.more st" "kernel.more (fst (proc_lockDone l st)) = kernel.more st"
  "kernel.more (fst (proc_lockInit l st)) = kernel.more st"
  by (auto simp: lockUnlock_def proc_lockDone_def proc_lockInit_def lock_give_def Let_def split: list.split)

section \<open>Resources and the trees\<close>

text \<open>The resources registered with a process: the nodes its tree finds under their own identifiers.\<close>

definition rnodes :: "'a objects_scheme \<Rightarrow> addr \<Rightarrow> addr set" where
  "rnodes st p = {r. r \<noteq> NULL \<and> lib_idtreeFind (rtree st p) (idn (rtree st p) r) = Some r}"

definition registered :: "'a objects_scheme \<Rightarrow> addr \<Rightarrow> bool" where
  "registered st r \<longleftrightarrow> (\<exists>p. r \<in> rnodes st p)"

definition trees_ok :: "addr \<Rightarrow> 'a objects_scheme \<Rightarrow> bool" where
  "trees_ok nil st \<longleftrightarrow> nil \<noteq> NULL \<and> \<not> registered st nil \<and> (\<forall>p. \<exists>xs. id_nodes (rtree st p) xs) \<and>
     (\<forall>p q. p \<noteq> q \<longrightarrow> rnodes st p \<inter> rnodes st q = {})"

definition alloc_step :: "addr \<Rightarrow> addr \<Rightarrow> 'a objects_scheme \<Rightarrow> 'a objects_scheme \<Rightarrow> bool" where
  "alloc_step nil r st st' \<longleftrightarrow> r \<noteq> NULL \<and> r \<noteq> nil \<and> \<not> registered st r \<and> (\<exists>p i. resource_alloc p r st = Some (st', i) \<and> i \<ge> 0)"

definition fail_step :: "addr \<Rightarrow> addr \<Rightarrow> 'a objects_scheme \<Rightarrow> 'a objects_scheme \<Rightarrow> bool" where
  "fail_step nil r st st' \<longleftrightarrow> r \<noteq> NULL \<and> r \<noteq> nil \<and> \<not> registered st r \<and> \<not> registered st' r \<and> (\<exists>p i. resource_alloc p r st = Some (st', i) \<and> i < 0)"

definition get_step :: "addr \<Rightarrow> 'a objects_scheme \<Rightarrow> 'a objects_scheme \<Rightarrow> bool" where
  "get_step r st st' \<longleftrightarrow> r \<noteq> NULL \<and> (\<exists>p i. resource_get p i st = Some (st', r))"

definition put_step :: "addr \<Rightarrow> 'a objects_scheme \<Rightarrow> 'a objects_scheme \<Rightarrow> bool" where
  "put_step r st st' \<longleftrightarrow> st' = fst (resource_put r st)"

definition remove_step :: "addr \<Rightarrow> addr \<Rightarrow> 'a objects_scheme \<Rightarrow> 'a objects_scheme \<Rightarrow> bool" where
  "remove_step nil r st st' \<longleftrightarrow> r \<noteq> NULL \<and> (\<exists>p i. resource_remove nil p i st = Some (st', r))"

definition refs_of :: "'a objects_scheme \<Rightarrow> addr \<Rightarrow> 32 word" where
  "refs_of st r = r_refs (rsrc st r)"

definition quiet_step :: "'a objects_scheme \<Rightarrow> 'a objects_scheme \<Rightarrow> bool" where
  "quiet_step st st' \<longleftrightarrow> rtree st' = rtree st \<and> refs_of st' = refs_of st"

lemma rnodes_set:
  assumes "id_nodes (rtree st p) xs"
  shows "rnodes st p = set xs"
proof -
  have "NULL \<notin> set xs" using assms rb_nodes_distinct by (auto simp: id_nodes_def)
  then have "r \<in> set xs \<longleftrightarrow> r \<noteq> NULL \<and> node_of_id (rtree st p) xs (idn (rtree st p) r) = r" for r
    using node_of_id_iff [OF assms, of "idn (rtree st p) r" r] by (metis image_eqI)
  then show ?thesis by (auto simp: rnodes_def idtreeFind_nodes [OF assms])
qed

lemma rtree_rnodes:
  assumes "rtree st' = rtree st"
  shows "rnodes st' = rnodes st" and "registered st' = registered st" and "trees_ok nil st' = trees_ok nil st"
  using assms by (auto simp: fun_eq_iff rnodes_def registered_def trees_ok_def)

lemma trees_okE:
  assumes "trees_ok nil st"
  obtains xs where "id_nodes (rtree st p) xs" "rnodes st p = set xs" "nil \<notin> set xs"
  using assms rnodes_set unfolding trees_ok_def registered_def by metis

lemma rnodes_apart: "trees_ok nil st \<Longrightarrow> x \<in> rnodes st p \<Longrightarrow> x \<in> rnodes st q \<Longrightarrow> p = q"
  unfolding trees_ok_def by blast

lemma rnodes_upd [simp]:
  "rnodes (upd_rsrc r f st) = rnodes st" "registered (upd_rsrc r f st) = registered st" "trees_ok nil (upd_rsrc r f st) = trees_ok nil st"
  by (auto simp: fun_eq_iff rnodes_def registered_def trees_ok_def upd_rsrc_def)

lemma refs_of_upd [simp]: "refs_of (upd_rsrc r f st) = (refs_of st)(r := r_refs (f (rsrc st r)))"
  by (auto simp: fun_eq_iff refs_of_def upd_rsrc_def)

lemma refs_of_set_rtree [simp]: "refs_of (set_rtree p h st) = refs_of st"
  by (auto simp: fun_eq_iff refs_of_def set_rtree_def)

lemma rnodes_set_rtree: "rnodes (set_rtree p h st) q = (if q = p then rnodes (st\<lparr>rtree := \<lambda>_. h\<rparr>) p else rnodes st q)"
  by (simp add: rnodes_def set_rtree_def)

text \<open>Replacing the tree of one process by one with a set of nodes that the others do not have.\<close>

lemma trees_ok_replace:
  assumes T: "trees_ok nil st" and h: "id_nodes h ys" and d: "nil \<notin> set ys" "\<And>q. q \<noteq> p \<Longrightarrow> set ys \<inter> rnodes st q = {}"
  shows "trees_ok nil (set_rtree p h st)" and "rnodes (set_rtree p h st) = (rnodes st)(p := set ys)"
proof -
  have "rnodes (st\<lparr>rtree := \<lambda>_. h\<rparr>) p = set ys" using rnodes_set [of "st\<lparr>rtree := \<lambda>_. h\<rparr>" p ys] h by simp
  then show r: "rnodes (set_rtree p h st) = (rnodes st)(p := set ys)" by (auto simp: fun_eq_iff rnodes_set_rtree)
  have "\<exists>xs. id_nodes (rtree (set_rtree p h st) q) xs" for q using T h by (auto simp: trees_ok_def set_rtree_def)
  moreover have "\<not> registered (set_rtree p h st) nil" using T d(1) r by (auto simp: trees_ok_def registered_def)
  moreover have "rnodes (set_rtree p h st) a \<inter> rnodes (set_rtree p h st) b = {}" if "a \<noteq> b" for a b
    using T d(2) [of a] d(2) [of b] that r by (auto simp: trees_ok_def)
  ultimately show "trees_ok nil (set_rtree p h st)" using T by (simp add: trees_ok_def)
qed

section \<open>The operations\<close>

lemma resource_get_find:
  assumes "trees_ok nil st" and "resource_get p i st = Some (st', r)"
  shows "r \<noteq> NULL \<Longrightarrow> r \<in> rnodes st p \<and> idn (rtree st p) r = i \<and> st' = upd_rsrc r (\<lambda>x. x\<lparr>r_refs := r_refs x + 1\<rparr>) st"
    and "r = NULL \<Longrightarrow> i \<notin> idn (rtree st p) ` rnodes st p \<and> st' = st"
proof -
  obtain xs where xs: "id_nodes (rtree st p) xs" "rnodes st p = set xs" using trees_okE [OF assms(1)] by metis
  have "NULL \<notin> set xs" using xs(1) rb_nodes_distinct by (auto simp: id_nodes_def)
  moreover have r: "node_of_id (rtree st p) xs i = r" "st' = (if r \<noteq> NULL then upd_rsrc r (\<lambda>x. x\<lparr>r_refs := r_refs x + 1\<rparr>) st else st)"
    using assms(2) by (auto simp: resource_get_def idtreeFind_nodes [OF xs(1)])
  ultimately show "r \<noteq> NULL \<Longrightarrow> r \<in> rnodes st p \<and> idn (rtree st p) r = i \<and> st' = upd_rsrc r (\<lambda>x. x\<lparr>r_refs := r_refs x + 1\<rparr>) st"
    "r = NULL \<Longrightarrow> i \<notin> idn (rtree st p) ` rnodes st p \<and> st' = st"
    using node_of_id_iff [OF xs(1), of i r] xs(2) by (auto split: if_splits)
qed

lemma resource_remove_tree:
  assumes T: "trees_ok nil st" and r: "resource_remove nil p i st = Some (st', r)" "r \<noteq> NULL"
  shows "trees_ok nil st'" and "r \<in> rnodes st p" and "rnodes st' = (rnodes st)(p := rnodes st p - {r})" and "refs_of st' = refs_of st"
    and "rsrc st' = rsrc st" and "idn (rtree st p) r = i" and "idn (rtree st' p) = idn (rtree st p)"
proof -
  obtain xs where xs: "id_nodes (rtree st p) xs" "rnodes st p = set xs" "nil \<notin> set xs" using trees_okE [OF T] by metis
  have f: "node_of_id (rtree st p) xs i = r" using r by (auto simp: resource_remove_def idtreeFind_nodes [OF xs(1)] split: if_splits option.splits bind_splits)
  then show "r \<in> rnodes st p" "idn (rtree st p) r = i" using r(2) node_of_id_iff [OF xs(1), of i r] xs(2) by (auto split: if_splits)
  have "r \<in> set xs" using xs(2) \<open>r \<in> rnodes st p\<close> by simp
  moreover have "nil \<noteq> NULL" using T by (simp add: trees_ok_def)
  ultimately obtain h where h: "lib_idtreeRemove nil r (rtree st p) = Some h" "id_nodes h (remove1 r xs)" "idn h = idn (rtree st p)"
    using idtree_remove_nodes [OF xs(1) _ _ xs(3)] by metis
  then have st': "st' = set_rtree p h st" using r f by (auto simp: resource_remove_def idtreeFind_nodes [OF xs(1)])
  have "distinct xs" using xs(1) rb_nodes_distinct by (auto simp: id_nodes_def)
  then have s: "set (remove1 r xs) = rnodes st p - {r}" using xs(2) by simp
  have d: "set (remove1 r xs) \<inter> rnodes st q = {}" if "q \<noteq> p" for q using rnodes_apart [OF T] that s by blast
  have n: "nil \<notin> set (remove1 r xs)" using xs(3) by (meson notin_set_remove1)
  show "trees_ok nil st'" "rnodes st' = (rnodes st)(p := rnodes st p - {r})" "refs_of st' = refs_of st" "rsrc st' = rsrc st"
    "idn (rtree st' p) = idn (rtree st p)" using trees_ok_replace [OF T h(2) n d] by (simp_all add: st' s, simp_all add: set_rtree_def h(3))
qed

lemma resource_alloc_tree:
  assumes T: "trees_ok nil st" and r: "resource_alloc p r st = Some (st', i)" "r \<noteq> NULL" "r \<noteq> nil" "\<not> registered st r"
  shows "refs_of st' = (refs_of st)(r := 2)"
    and "i < 0 \<and> trees_ok nil st' \<and> rnodes st' = rnodes st \<or>
      trees_ok nil st' \<and> rnodes st' = (rnodes st)(p := insert r (rnodes st p)) \<and> idn (rtree st' p) r = i"
proof -
  obtain xs where xs: "id_nodes (rtree st p) xs" "rnodes st p = set xs" "nil \<notin> set xs" using trees_okE [OF T] by metis
  let ?u = "upd_rsrc r (\<lambda>x. x\<lparr>r_refs := 2\<rparr>) st"
  obtain h where a: "lib_idtreeAlloc r RESOURCE_ID_MIN (rtree st p) = Some (Returned (h, i))" and st': "st' = set_rtree p h ?u"
    using r(1) by (auto simp: resource_alloc_def upd_rsrc_def bind_eq_Some_conv elim!: unless_panic.elims)
  show "refs_of st' = (refs_of st)(r := 2)" by (simp add: st')
  have n: "r \<notin> set xs" using r(4) xs(2) by (auto simp: registered_def)
  have T': "trees_ok nil ?u" using T by simp
  have d: "set xs \<inter> rnodes ?u q = {}" "insert r (set xs) \<inter> rnodes ?u q = {}" if "q \<noteq> p" for q
    using rnodes_apart [OF T] that xs(2) r(4) by (auto simp: registered_def)
  from idtree_alloc_nodes [OF xs(1) r(2) n a] consider "i = -1" "id_nodes h xs" |
    ys where "id_nodes h ys" "set ys = insert r (set xs)" "idn h = (idn (rtree st p))(r := i)" by blast
  then show "i < 0 \<and> trees_ok nil st' \<and> rnodes st' = rnodes st \<or>
      trees_ok nil st' \<and> rnodes st' = (rnodes st)(p := insert r (rnodes st p)) \<and> idn (rtree st' p) r = i"
  proof cases
    case 1
    then show ?thesis using trees_ok_replace [OF T' 1(2) xs(3) d(1)] st' xs(2) by (auto simp: fun_eq_iff)
  next
    case 2
    have "nil \<notin> set ys" using 2(2) xs(3) r(3) by simp
    then show ?thesis using trees_ok_replace [OF T' 2(1)] d(2) st' xs(2) 2 by (simp add: set_rtree_def)
  qed
qed

lemma registered_upd: "rnodes st' = (rnodes st)(p := X) \<Longrightarrow> registered st' r \<longleftrightarrow> r \<in> X \<or> (\<exists>q. q \<noteq> p \<and> r \<in> rnodes st q)"
  by (auto simp: registered_def)

section \<open>The discipline\<close>

interpretation resources: refcounted refs_of registered "trees_ok nil" "alloc_step nil" get_step put_step "remove_step nil" "fail_step nil" quiet_step
  for nil
proof unfold_locales
  fix st st' :: "'a objects_scheme" and r
  assume T: "trees_ok nil st"
  show "trees_ok nil st' \<and> \<not> registered st r \<and> registered st' = (registered st)(r := True) \<and> refs_of st' = (refs_of st)(r := 2)"
    if step: "alloc_step nil r st st'"
  proof -
    obtain p i where a: "resource_alloc p r st = Some (st', i)" "i \<ge> 0" "r \<noteq> NULL" "r \<noteq> nil" "\<not> registered st r"
      using step by (auto simp: alloc_step_def)
    note t = resource_alloc_tree [OF T a(1,3-5)]
    have "rnodes st' = (rnodes st)(p := insert r (rnodes st p))" using t(2) a(2) by simp
    then have "registered st' = (registered st)(r := True)" by (auto simp: fun_eq_iff registered_def)
    then show ?thesis using t a by auto
  qed
  show "trees_ok nil st' \<and> registered st r \<and> registered st' = registered st \<and> refs_of st' = (refs_of st)(r := refs_of st r + 1)"
    if step: "get_step r st st'"
  proof -
    obtain p i where a: "resource_get p i st = Some (st', r)" "r \<noteq> NULL" using step by (auto simp: get_step_def)
    then have "r \<in> rnodes st p" "st' = upd_rsrc r (\<lambda>x. x\<lparr>r_refs := r_refs x + 1\<rparr>) st" using resource_get_find(1) [OF T a(1)] by auto
    then show ?thesis using T by (auto simp: registered_def refs_of_def)
  qed
  show "trees_ok nil st' \<and> registered st' = registered st \<and> refs_of st' = (refs_of st)(r := refs_of st r - 1)" if "put_step r st st'"
    using that T by (auto simp: put_step_def resource_put_def Let_def refs_of_def)
  show "trees_ok nil st' \<and> registered st r \<and> registered st' = (registered st)(r := False) \<and> refs_of st' = refs_of st" if step: "remove_step nil r st st'"
  proof -
    obtain p i where a: "resource_remove nil p i st = Some (st', r)" "r \<noteq> NULL" using step by (auto simp: remove_step_def)
    note t = resource_remove_tree [OF T a]
    have "rnodes st' q = rnodes st q - {r}" for q using rnodes_apart [OF T t(2), of q] t(3) by (cases "q = p") auto
    then have "registered st' = (registered st)(r := False)" by (auto simp: fun_eq_iff registered_def)
    then show ?thesis using t by (auto simp: registered_def)
  qed
  show "trees_ok nil st' \<and> \<not> registered st r \<and> registered st' = registered st \<and> (\<forall>q. q \<noteq> r \<longrightarrow> refs_of st' q = refs_of st q)" if step: "fail_step nil r st st'"
  proof -
    obtain p i where a: "resource_alloc p r st = Some (st', i)" "r \<noteq> NULL" "r \<noteq> nil" "\<not> registered st r" "\<not> registered st' r"
      using step by (auto simp: fail_step_def)
    note t = resource_alloc_tree [OF T a(1-4)]
    have "r \<notin> rnodes st' p" using a(5) by (simp add: registered_def)
    then have "rnodes st' = rnodes st" "trees_ok nil st'" using t(2) by auto
    then show ?thesis using t(1) a(4) by (auto simp: fun_eq_iff registered_def)
  qed
  show "trees_ok nil st' \<and> registered st' = registered st \<and> refs_of st' = refs_of st" if "quiet_step st st'"
    using that T by (auto simp: fun_eq_iff quiet_step_def trees_ok_def registered_def rnodes_def)
qed

text \<open>The runs of resource operations of all processes from a state with empty trees.\<close>

definition resource_run :: "addr \<Rightarrow> 'a objects_scheme \<Rightarrow> 'a objects_scheme refstate \<Rightarrow> bool" where
  "resource_run nil st0 x \<longleftrightarrow> trees_ok nil st0 \<and> (\<forall>r. \<not> registered st0 r) \<and>
     ref_run refs_of (alloc_step nil) get_step put_step (remove_step nil) (fail_step nil) quiet_step st0 x"

lemmas resource_runD = resource_run_def [THEN iffD1]

section \<open>Properties\<close>


text \<open>\<open>mutex_put\<close> by a call that uses a mutex frees it exactly when the mutex is in no tree and no other call uses it.
\<close>

theorem mutex_put_frees_last:
  assumes "resource_run nil st0 (st, held, dead)" and "held m > 0"
  shows "kfreed (mutex_put m st) = (if \<not> registered st m \<and> held m = 1 then m # kfreed st else kfreed st)"
proof -
  let ?u = "fst (resource_put m st)"
  have "sint (refs_of ?u m) \<le> 0 \<longleftrightarrow> \<not> registered st m \<and> held m = 1"
    using resources.run_put_last [of nil st0 st held dead m ?u] resource_runD [OF assms(1)] assms(2) by (auto simp: put_step_def)
  moreover have "kfreed (mutex_put m st) = (if sint (refs_of ?u m) \<le> 0 then m # kfreed st else kfreed st)"
    using more_objects(3) [OF more_lock(2) [of m ?u]]
    by (simp add: mutex_put_def resource_put_def Let_def refs_of_def kfree_def upd_rsrc_def)
  ultimately show ?thesis by simp
qed

text \<open>C30: A handle that \<open>mutex_get\<close> accepts names a mutex of the calling process: a resource of kind \<open>rtLock\<close> that the
  tree of the process holds under this identifier, with one reference more for the caller.
\<close>

theorem mutex_handle_typed:
  assumes "trees_ok nil st" and "mutex_get cpu h st = Some (st', m)" and "m \<noteq> NULL"
  shows "r_type (rsrc st' m) = rtLock \<and> m \<in> rnodes st (my_process cpu st) \<and> idn (rtree st (my_process cpu st)) m = h \<and>
    refs_of st' = (refs_of st)(m := refs_of st m + 1)"
proof -
  obtain r where r: "resource_get (my_process cpu st) h st = Some (st', r)" "m = (if r \<noteq> NULL \<and> r_type (rsrc st' r) = rtLock then r else NULL)"
    using assms(2) by (auto simp: mutex_get_def bind_eq_Some_conv)
  then have "r = m" "r_type (rsrc st' m) = rtLock" using assms(3) by (auto split: if_splits)
  then show ?thesis using resource_get_find(1) [OF assms(1) r(1)] assms(3) by (auto simp: refs_of_def)
qed

text \<open>\<open>mutex_get\<close> on the handle of a resource of another kind returns no mutex but keeps the reference it took: the
  caller has nothing to drop, so the count never returns to the number of users and the resource is never freed.
\<close>

theorem mutex_wrong_kind_leaks:
  assumes "trees_ok nil st" and "r \<in> rnodes st (my_process cpu st)" and "r_type (rsrc st r) \<noteq> rtLock"
  shows "\<exists>st'. mutex_get cpu (idn (rtree st (my_process cpu st)) r) st = Some (st', NULL) \<and> refs_of st' r = refs_of st r + 1"
proof -
  have "lib_idtreeFind (rtree st (my_process cpu st)) (idn (rtree st (my_process cpu st)) r) = Some r" "r \<noteq> NULL"
    using assms(2) by (auto simp: rnodes_def)
  then show ?thesis using assms(3) by (simp add: mutex_get_def resource_get_def refs_of_def upd_rsrc_def)
qed

lemma mutexCreate_tree:
  assumes T: "trees_ok nil st" and m: "m \<noteq> NULL" "m \<noteq> nil" "\<not> registered st m" and c: "proc_mutexCreate cpu m st = Some (st', i)" and i: "i > 0"
  shows "trees_ok nil st'" and "rnodes st' = (rnodes st)(my_process cpu st := insert m (rnodes st (my_process cpu st)))"
    and "idn (rtree st' (my_process cpu st)) m = i" and "refs_of st' = (refs_of st)(m := 1)" and "r_type (rsrc st' m) = rtLock"
    and "owner st' m = NULL" and "my_process cpu st' = my_process cpu st"
proof -
  let ?s = "upd_rsrc m (\<lambda>x. x\<lparr>r_type := rtLock\<rparr>) st" and ?p = "my_process cpu st"
  obtain u where a: "resource_alloc ?p m ?s = Some (u, i)" and st': "st' = fst (resource_put m (fst (proc_lockInit m u)))"
    using c i m(1) by (auto simp: proc_mutexCreate_def bind_eq_Some_conv my_process_def upd_rsrc_def split: if_splits)
  have s: "trees_ok nil ?s" "\<not> registered ?s m" using T m(3) by simp_all
  have t: "refs_of u = (refs_of st)(m := 2)" "trees_ok nil u" "rnodes u = (rnodes st)(?p := insert m (rnodes st ?p))" "idn (rtree u ?p) m = i"
    using resource_alloc_tree [OF s(1) a m(1,2) s(2)] i by auto
  note o = more_objects [OF more_lock(3) [of m u]]
  have e: "rtree st' = rtree u" by (simp add: st' resource_put_def Let_def upd_rsrc_def o)
  show "trees_ok nil st'" "rnodes st' = (rnodes st)(?p := insert m (rnodes st ?p))" "idn (rtree st' ?p) m = i"
    using t(2-4) rtree_rnodes [OF e] e by simp_all
  have "refs_of (fst (proc_lockInit m u)) = refs_of u" by (simp add: fun_eq_iff refs_of_def o(1))
  then show "refs_of st' = (refs_of st)(m := 1)" using t(1) by (auto simp: st' resource_put_def Let_def refs_of_def fun_eq_iff dest: fun_cong [of _ _ m])
  have a': "rsrc u = (rsrc st)(m := (rsrc st m)\<lparr>r_type := rtLock, r_refs := 2\<rparr>)" "thr u = thr st" "current u = current st"
    using a by (auto simp: resource_alloc_def bind_eq_Some_conv upd_rsrc_def set_rtree_def)
  show "r_type (rsrc st' m) = rtLock" "my_process cpu st' = ?p" "owner st' m = NULL"
    by (simp_all add: st' resource_put_def Let_def upd_rsrc_def o my_process_def a') (simp_all add: proc_lockInit_def set_owner_def a')
qed

lemma resource_remove_returns:
  assumes T: "trees_ok nil st" and m: "m \<in> rnodes st p" and i: "idn (rtree st p) m = i"
  obtains u where "resource_remove nil p i st = Some (u, m)" and "kfreed u = kfreed st"
proof -
  obtain xs where xs: "id_nodes (rtree st p) xs" "rnodes st p = set xs" "nil \<notin> set xs" using trees_okE [OF T] .
  have mx: "m \<in> set xs" and nil: "nil \<noteq> NULL" using m T xs(2) by (simp_all add: trees_ok_def)
  obtain h where "lib_idtreeRemove nil m (rtree st p) = Some h" using idtree_remove_nodes [OF xs(1) mx nil xs(3)] .
  moreover have "lib_idtreeFind (rtree st p) i = Some m" "m \<noteq> NULL" using m i by (auto simp: rnodes_def)
  ultimately have "resource_remove nil p i st = Some (set_rtree p h st, m)" by (simp add: resource_remove_def)
  then show thesis using that by (simp add: set_rtree_def)
qed

lemma resource_get_none:
  assumes T: "trees_ok nil st" and i: "i \<notin> idn (rtree st p) ` rnodes st p"
  shows "resource_get p i st = Some (st, NULL)"
proof -
  obtain xs where xs: "id_nodes (rtree st p) xs" "rnodes st p = set xs" using trees_okE [OF T] .
  then show ?thesis using node_of_id_iff [OF xs(1), of i NULL] i by (simp add: resource_get_def idtreeFind_nodes [OF xs(1)])
qed

lemma mutex_put_last:
  assumes "refs_of st m = 1"
  shows "rtree (mutex_put m st) = rtree st" and "kfreed (mutex_put m st) = m # kfreed st"
proof -
  let ?x = "fst (resource_put m st)"
  have "snd (resource_put m st) = 0" using assms by (simp add: resource_put_def Let_def upd_rsrc_def refs_of_def)
  then have "mutex_put m st = kfree m (fst (proc_lockDone m ?x))" by (simp add: mutex_put_def case_prod_beta)
  moreover have "rtree ?x = rtree st" "kfreed ?x = kfreed st" by (simp_all add: resource_put_def Let_def upd_rsrc_def)
  ultimately show "rtree (mutex_put m st) = rtree st" "kfreed (mutex_put m st) = m # kfreed st"
    using more_objects(2,3) [OF more_lock(2) [of m ?x]] by (simp_all add: kfree_def)
qed

text \<open>C29: The identifier that \<open>proc_mutexCreate\<close> returned is a handle of the new mutex, which is free and has one
  reference, that of the tree; once the handle is destroyed it names nothing.
\<close>

theorem mutex_create_destroy:
  assumes "trees_ok nil st" and "m \<noteq> NULL" "m \<noteq> nil" "\<not> registered st m" and "proc_mutexCreate cpu m st = Some (st', i)" and "i > 0"
  shows "refs_of st' m = 1 \<and> owner st' m = NULL \<and> (\<exists>st''. mutex_get cpu i st' = Some (st'', m)) \<and>
    (\<exists>st''. proc_resourceDestroy nil cpu (my_process cpu st) i st' = Some (Return st'' EOK) \<and> kfreed st'' = m # kfreed st' \<and>
       resource_get (my_process cpu st) i st'' = Some (st'', NULL))"
proof -
  let ?p = "my_process cpu st"
  note t = mutexCreate_tree [OF assms]
  have m: "m \<in> rnodes st' ?p" using t(2) by simp
  then have f: "lib_idtreeFind (rtree st' ?p) i = Some m" using t(3) by (simp add: rnodes_def)
  have g: "\<exists>st''. mutex_get cpu i st' = Some (st'', m)"
    using f assms(2) t(5,7) by (simp add: mutex_get_def resource_get_def upd_rsrc_def)
  obtain u where u: "resource_remove nil ?p i st' = Some (u, m)" "kfreed u = kfreed st'" using resource_remove_returns [OF t(1) m t(3)] .
  note v = resource_remove_tree [OF t(1) u(1) assms(2)]
  have ux: "x \<in> rnodes st' ?p" "x \<noteq> m" if "x \<in> rnodes u ?p" for x using that v(3) by auto
  have n: "i \<notin> idn (rtree u ?p) ` rnodes u ?p"
  proof
    assume "i \<in> idn (rtree u ?p) ` rnodes u ?p"
    then obtain x where x: "x \<in> rnodes u ?p" "i = idn (rtree st' ?p) x" unfolding v(7) by (rule imageE)
    then show False using f ux [OF x(1)] by (simp add: rnodes_def)
  qed
  let ?w = "mutex_put m u"
  have "refs_of u m = 1" using v(4) t(4) by simp
  note w = mutex_put_last [OF this]
  have "trees_ok nil ?w" "i \<notin> idn (rtree ?w ?p) ` rnodes ?w ?p"
    using v(1) n by (simp_all only: rtree_rnodes [OF w(1)] w(1) not_False_eq_True)
  note e = resource_get_none [OF this]
  have d: "proc_resourceDestroy nil cpu ?p i st' = Some (Return ?w EOK)"
    using u(1) v(5) t(5) assms(2) by (simp add: proc_resourceDestroy_def proc_resourcePut_def afterwards_def)
  have "refs_of st' m = 1" using t(4) by simp
  then show ?thesis using g t(6) w(2) u(2) d e by simp
qed

section \<open>Concrete resources\<close>

definition demo_objects :: objects where
  "demo_objects = kernel.extend (demo\<lparr>thr := (thr demo)(300 := (thr demo 300)\<lparr>t_process := 40\<rparr>)\<rparr>)
     (objects.fields (\<lambda>_. \<lparr>r_refs = 0, r_type = rtCond, r_cond = NULL\<rparr>) (\<lambda>_. idheap0) [] [] NULL)"

lemma demo_objects_ok: "trees_ok 90 demo_objects" "\<not> registered demo_objects r"
proof -
  have "id_nodes idheap0 []" by (simp add: id_nodes_def idheap0_def rb_nodes_def rep_def rb_tree_def)
  then have "id_nodes (rtree demo_objects p) []" for p by (simp add: demo_objects_def kernel.defs objects.defs)
  note n = this
  then have "rnodes demo_objects p = {}" for p using rnodes_set by fastforce
  then show "trees_ok 90 demo_objects" "\<not> registered demo_objects r" using n by (auto simp: trees_ok_def registered_def)
qed

lemma demo_alloc: "\<exists>h. lib_idtreeAlloc 5 1 idheap0 = Some (Returned (h, 1))"
proof -
  have "(case lib_idtreeAlloc 5 1 idheap0 of Some (Returned (h, i)) \<Rightarrow> i = 1 | _ \<Rightarrow> False)" by code_simp
  then show ?thesis by (auto split: option.splits asserted.splits)
qed

lemma demo_resource:
  obtains st where "resource_alloc 40 5 demo_objects = Some (st, 1)" and "trees_ok 90 st" and "5 \<in> rnodes st 40" and "idn (rtree st 40) 5 = 1"
    and "my_process 0 st = 40" and "r_type (rsrc st 5) = rtCond" and "kfreed st = []" and "registered st 5"
proof -
  obtain h where h: "lib_idtreeAlloc 5 1 idheap0 = Some (Returned (h, 1))" using demo_alloc ..
  have r: "rtree demo_objects = (\<lambda>_. idheap0)" by (simp add: demo_objects_def kernel.defs objects.defs)
  let ?st = "set_rtree 40 h (upd_rsrc 5 (\<lambda>x. x\<lparr>r_refs := 2\<rparr>) demo_objects)"
  have a: "resource_alloc 40 5 demo_objects = Some (?st, 1)" by (simp add: resource_alloc_def upd_rsrc_def RESOURCE_ID_MIN_def r h)
  have t: "trees_ok 90 ?st" "5 \<in> rnodes ?st 40" "idn (rtree ?st 40) 5 = 1"
    using resource_alloc_tree [OF demo_objects_ok(1) a _ _ demo_objects_ok(2)] by simp_all
  moreover have "my_process 0 ?st = 40" "r_type (rsrc ?st 5) = rtCond" "kfreed ?st = []"
    by (simp_all add: my_process_def set_rtree_def upd_rsrc_def demo_objects_def kernel.defs objects.defs demo_def)
  ultimately show thesis using that a unfolding registered_def by blast
qed

lemma demo_resource_run:
  assumes "resource_alloc 40 5 demo_objects = Some (st, 1)"
  shows "resource_run 90 demo_objects (st, (\<lambda>_. 0)(5 := 1), {})"
proof -
  have "alloc_step 90 5 demo_objects st" unfolding alloc_step_def using assms demo_objects_ok(2) by fastforce
  with ref_step.create [of "alloc_step 90" 5 demo_objects st "\<lambda>_. 0" refs_of get_step put_step "remove_step 90" "fail_step 90" quiet_step "{}"]
  show ?thesis using demo_objects_ok by (auto simp: resource_run_def intro!: ref_run.step [OF ref_run.start])
qed


theorem mutex_put_frees_last_witness:
  "\<exists>st held dead. resource_run 90 demo_objects (st, held, dead) \<and> held 5 = 1 \<and> kfreed (mutex_put 5 st) = []"
proof -
  obtain st where st: "resource_alloc 40 5 demo_objects = Some (st, 1)" "registered st 5" "kfreed st = []" using demo_resource by metis
  note r = demo_resource_run [OF st(1)]
  have "kfreed (mutex_put 5 st) = []" using mutex_put_frees_last [OF r, of 5] st(2,3) by simp
  then show ?thesis using r by (intro exI [of _ st] exI [of _ "(\<lambda>_. 0)(5 := 1)"] exI [of _ "{}"]) simp
qed

lemma demo_mutex:
  obtains st where "proc_mutexCreate 0 5 demo_objects = Some (st, 1)"
proof -
  obtain h where h: "lib_idtreeAlloc 5 1 idheap0 = Some (Returned (h, 1))" using demo_alloc ..
  have "rtree demo_objects = (\<lambda>_. idheap0)" by (simp add: demo_objects_def kernel.defs objects.defs)
  then show thesis using that h by (simp add: proc_mutexCreate_def resource_alloc_def upd_rsrc_def RESOURCE_ID_MIN_def)
qed

theorem mutex_create_destroy_witness:
  "\<exists>st'. proc_mutexCreate 0 5 demo_objects = Some (st', 1) \<and> refs_of st' 5 = 1 \<and> (\<exists>st''. mutex_get 0 1 st' = Some (st'', 5))"
proof -
  obtain st where st: "proc_mutexCreate 0 5 demo_objects = Some (st, 1)" using demo_mutex .
  then show ?thesis using mutex_create_destroy [OF demo_objects_ok(1) _ _ demo_objects_ok(2) st] by simp
qed

theorem mutex_handle_typed_witness:
  "\<exists>(st :: objects) st'. mutex_get 0 1 st = Some (st', 5) \<and> r_type (rsrc st' 5) = rtLock \<and> refs_of st' 5 = 2"
proof -
  obtain st where st: "proc_mutexCreate 0 5 demo_objects = Some (st, 1)" using demo_mutex .
  have d: "trees_ok 90 st" "5 \<in> rnodes st (my_process 0 st)" "idn (rtree st (my_process 0 st)) 5 = 1" "refs_of st 5 = 1" "r_type (rsrc st 5) = rtLock"
    using mutexCreate_tree [OF demo_objects_ok(1) _ _ demo_objects_ok(2) st] by simp_all
  then obtain st' where g: "mutex_get 0 1 st = Some (st', 5)" by (auto simp: mutex_get_def resource_get_def rnodes_def upd_rsrc_def)
  then show ?thesis using mutex_handle_typed [OF d(1) g] d(4) g by (intro exI [of _ st] exI [of _ st']) simp
qed

theorem mutex_wrong_kind_leaks_witness:
  "\<exists>(st :: objects) st'. r_type (rsrc st 5) = rtCond \<and> mutex_get 0 1 st = Some (st', NULL) \<and> refs_of st' 5 = refs_of st 5 + 1"
proof -
  obtain st :: objects where st: "trees_ok 90 st" "5 \<in> rnodes st 40" "idn (rtree st 40) 5 = 1" "my_process 0 st = 40" "r_type (rsrc st 5) = rtCond"
    by (rule demo_resource) blast
  then show ?thesis using mutex_wrong_kind_leaks [of 90 st 5 0] by - (rule exI [of _ st], auto)
qed

end
