(* ===== verification/Proc_Port.thy ===== *)
theory Proc_Port
  imports Proc_Resource
begin

text \<open>
  The message ports of \<^verbatim>\<open>proc/ports.c\<close>: the tree of ports, the reference counts of the ports, the ports of
  a process and the identifiers of the messages under way. A section under \<open>port_common.port_lock\<close>, the lock of a
  port or that of a process is a single step; \<open>port_put\<close> has two of them, the second for a port that nothing refers to.
  \<open>None\<close> is a call that does not end or uses a null pointer.
\<close>

section \<open>Model\<close>

text \<open>\<open>refs\<close> and \<open>closed\<close> are \<open>int\<close>s of the source; the queue \<open>threads\<close> of a port is the queue \<open>Qobj\<close> of its address and its lock has its address.\<close>

record port =
  po_refs :: "32 word"
  po_closed :: bool
  po_owner :: addr
  po_rid :: idheap
  po_kmessages :: "addr list"
  po_current :: addr

text \<open>A port is in the list of its owner's ports or, with the null pointer for \<open>next\<close>, in no list.\<close>

record portsys = objects +
  ports :: "addr \<Rightarrow> port"
  ptree :: idheap
  pports :: "addr \<Rightarrow> addr list"

definition upd_port :: "addr \<Rightarrow> (port \<Rightarrow> port) \<Rightarrow> 'a portsys_scheme \<Rightarrow> 'a portsys_scheme" where
  "upd_port p f st = st\<lparr>ports := (ports st)(p := f (ports st p))\<rparr>"

definition proc_portRidAlloc :: "addr \<Rightarrow> addr \<Rightarrow> 'a portsys_scheme \<Rightarrow> ('a portsys_scheme \<times> int) option" where
  "proc_portRidAlloc p kmsg st = do {
     (h, i) \<leftarrow> unless_panic (lib_idtreeAlloc kmsg 0 (po_rid (ports st p)));
     Some (upd_port p (\<lambda>x. x\<lparr>po_rid := h\<rparr>) st, i)
   }"

definition proc_portRidGet :: "addr \<Rightarrow> addr \<Rightarrow> int \<Rightarrow> 'a portsys_scheme \<Rightarrow> ('a portsys_scheme \<times> addr) option" where
  "proc_portRidGet nil p rid st = do {
     kmsg \<leftarrow> lib_idtreeFind (po_rid (ports st p)) rid;
     if kmsg \<noteq> NULL then do {
       h \<leftarrow> lib_idtreeRemove nil kmsg (po_rid (ports st p));
       Some (upd_port p (\<lambda>x. x\<lparr>po_rid := h\<rparr>) st, kmsg)
     } else Some (st, kmsg)
   }"

definition proc_portGet :: "32 word \<Rightarrow> 'a portsys_scheme \<Rightarrow> ('a portsys_scheme \<times> addr) option" where
  "proc_portGet i st =
     (if uint i > MAX_ID then Some (st, NULL)
      else do {
        port \<leftarrow> lib_idtreeFind (ptree st) (sint i);
        Some (if port \<noteq> NULL then upd_port port (\<lambda>x. x\<lparr>po_refs := po_refs x + 1\<rparr>) st else st, port)
      })"

text \<open>The first section of \<open>port_put\<close>; the flag says whether the port is left to be freed.\<close>

definition port_release :: "addr \<Rightarrow> addr \<Rightarrow> bool \<Rightarrow> 'a portsys_scheme \<Rightarrow> ('a portsys_scheme \<times> bool) option" where
  "port_release nil p destroy st = do {
     let st = upd_port p (\<lambda>x. x\<lparr>po_refs := po_refs x - 1\<rparr>) st;
     let st = (if destroy then upd_port p (\<lambda>x. x\<lparr>po_closed := True\<rparr>) st else st);
     if po_refs (ports st p) \<noteq> 0 then
       (if destroy then do { (st, n) \<leftarrow> proc_threadBroadcast (Qobj p) st; Some (st, False) } else Some (st, False))
     else do {
       h \<leftarrow> lib_idtreeRemove nil p (ptree st);
       Some (st\<lparr>ptree := h\<rparr>, True)
     }
   }"

text \<open>The second one, under the lock of the owner, and the end: the port leaves the list of its owner and is freed.\<close>

definition port_dispose :: "addr \<Rightarrow> 'a portsys_scheme \<Rightarrow> 'a portsys_scheme option" where
  "port_dispose p st =
     (let own = po_owner (ports st p)
      in if own = NULL then None
         else
           (let st = (if p \<in> set (pports st own) then st\<lparr>pports := (pports st)(own := LIST_REMOVE (pports st own) p)\<rparr> else st)
            in Some (kfree p (fst (proc_lockDone p st)))))"

definition port_put :: "addr \<Rightarrow> addr \<Rightarrow> bool \<Rightarrow> 'a portsys_scheme \<Rightarrow> 'a portsys_scheme option" where
  "port_put nil p destroy st = do {
     (st, gone) \<leftarrow> port_release nil p destroy st;
     if gone then port_dispose p st else Some st
   }"

text \<open>
  The caller's process is \<open>proc\<close>, the null pointer before the first thread runs; \<open>port\<close> is the block from
  \<open>vm_kmalloc\<close>. The identifier is returned with the result.
\<close>

definition proc_portCreate :: "addr \<Rightarrow> addr \<Rightarrow> 'a portsys_scheme \<Rightarrow> ('a portsys_scheme \<times> int \<times> 32 word) option" where
  "proc_portCreate proc port st =
     (if port = NULL then Some (st, - ENOMEM, 0)
      else do {
        (h, i) \<leftarrow> unless_panic (lib_idtreeAlloc port 0 (ptree st));
        let st = st\<lparr>ptree := h\<rparr>;
        if i < 0 then Some (kfree port st, - ENOMEM, 0)
        else do {
          let st = upd_port port (\<lambda>x. x\<lparr>po_kmessages := [], po_rid := lib_idtreeInit (po_rid x), po_current := NULL,
                     po_refs := 1, po_closed := False, po_owner := proc\<rparr>) st;
          let st = set_queue (Qobj port) (Queue []) (fst (proc_lockInit port st));
          let st = (if proc \<noteq> NULL then st\<lparr>pports := (pports st)(proc := LIST_ADD (pports st proc) port)\<rparr> else st);
          Some (st, EOK, word_of_int (idn (ptree st) port))
        }
      })"

definition proc_portDestroy :: "addr \<Rightarrow> addr \<Rightarrow> 32 word \<Rightarrow> 'a portsys_scheme \<Rightarrow> 'a portsys_scheme option" where
  "proc_portDestroy nil proc i st = do {
     (st, p) \<leftarrow> proc_portGet i st;
     if p = NULL then Some st
     else if po_closed (ports st p) \<or> (proc \<noteq> NULL \<and> po_owner (ports st p) \<noteq> proc) then port_put nil p False st
     else do {
       st \<leftarrow> port_put nil p False st;
       port_put nil p True st
     }
   }"

partial_function (option) proc_portsDestroy :: "addr \<Rightarrow> addr \<Rightarrow> 'a portsys_scheme \<Rightarrow> 'a portsys_scheme option" where
  "proc_portsDestroy nil proc st =
     (case pports st proc of
        [] \<Rightarrow> Some st
      | p # ps \<Rightarrow>
          (case port_put nil p True (st\<lparr>pports := (pports st)(proc := LIST_REMOVE (p # ps) p)\<rparr>) of
             None \<Rightarrow> None
           | Some st \<Rightarrow> proc_portsDestroy nil proc st))"

text \<open>The lock of the common data, which the single steps stand for, is left out.\<close>

definition port_init :: "'a portsys_scheme \<Rightarrow> 'a portsys_scheme" where
  "port_init st = st\<lparr>ptree := lib_idtreeInit (ptree st)\<rparr>"

end
