(* ===== verification/Proc_Port_Spec.thy ===== *)
theory Proc_Port_Spec
  imports Proc_Port Proc_Resource_Spec
begin

text \<open>
  What the ports promise: dropping the last reference of a port takes it out of the tree and of its owner's list and
  frees it; the identifier given to a message fetches that message once. And where they fail: an owner that destroys
  a port and ends drops its reference twice.
\<close>

section \<open>The scheduler and the ports\<close>

lemma more_portsys:
  fixes a b :: "'a portsys_scheme"
  assumes "kernel.more a = kernel.more b"
  shows "kfreed a = kfreed b" and "ports a = ports b" and "ptree a = ptree b" and "pports a = pports b"
  using assms by (cases a; cases b; simp)+

lemma broadcast_empty: "queues st q = Queue [] \<Longrightarrow> proc_threadBroadcast q st = Some (st\<lparr>queues := (queues st)(q := WakeupPending)\<rparr>, 0)"
  by (simp add: proc_threadBroadcast_def threadBroadcast.simps threadWakeup_def set_queue_def Let_def)

section \<open>Properties\<close>


text \<open>What \<open>proc_portRidAlloc\<close> leaves in the tree of the identifiers.\<close>

lemma ridAlloc_nodes:
  assumes "id_nodes (po_rid (ports st p)) xs" and "kmsg \<noteq> NULL" "kmsg \<notin> set xs" and "nil \<noteq> NULL" "nil \<noteq> kmsg" "nil \<notin> set xs"
    and "proc_portRidAlloc p kmsg st = Some (st', rid)" and "rid \<ge> 0"
  obtains h h' ys where "st' = upd_port p (\<lambda>x. x\<lparr>po_rid := h\<rparr>) st" and "id_nodes h ys" "kmsg \<in> set ys" "idn h kmsg = rid"
    and "lib_idtreeFind h rid = Some kmsg"
    and "lib_idtreeRemove nil kmsg h = Some h'" "id_nodes h' (remove1 kmsg ys)" "idn h' = idn h" "kmsg \<notin> set (remove1 kmsg ys)"
proof -
  obtain h where a: "lib_idtreeAlloc kmsg 0 (po_rid (ports st p)) = Some (Returned (h, rid))" and st': "st' = upd_port p (\<lambda>x. x\<lparr>po_rid := h\<rparr>) st"
    using assms(7) by (auto simp: proc_portRidAlloc_def bind_eq_Some_conv elim!: unless_panic.elims)
  obtain ys where ys: "id_nodes h ys" "set ys = insert kmsg (set xs)" "idn h = (idn (po_rid (ports st p)))(kmsg := rid)"
    using idtree_alloc_nodes [OF assms(1,2,3) a] assms(8) by auto
  have k: "kmsg \<in> set ys" "idn h kmsg = rid" "nil \<notin> set ys" using ys assms(5,6) by auto
  then have f: "lib_idtreeFind h rid = Some kmsg" using idtreeFind_nodes [OF ys(1)] node_of_id_iff [OF ys(1), of rid kmsg] by auto
  obtain h' where h': "lib_idtreeRemove nil kmsg h = Some h'" "id_nodes h' (remove1 kmsg ys)" "idn h' = idn h" "kmsg \<notin> set (remove1 kmsg ys)"
    using idtree_remove_nodes [OF ys(1) k(1) assms(4) k(3)] .
  show thesis by (rule that [OF st' ys(1) k(1,2) f h'])
qed

text \<open>C21: The identifier that \<open>proc_portRidAlloc\<close> gave to a message fetches that message, and only once: the second
  \<open>proc_portRidGet\<close> finds nothing, so a message cannot be answered twice.\<close>

theorem rid_roundtrip:
  assumes "id_nodes (po_rid (ports st p)) xs" and "kmsg \<noteq> NULL" "kmsg \<notin> set xs" and "nil \<noteq> NULL" "nil \<noteq> kmsg" "nil \<notin> set xs"
    and "proc_portRidAlloc p kmsg st = Some (st', rid)" and "rid \<ge> 0"
  shows "\<exists>st''. proc_portRidGet nil p rid st' = Some (st'', kmsg) \<and> proc_portRidGet nil p rid st'' = Some (st'', NULL)"
proof -
  obtain h h' ys where st': "st' = upd_port p (\<lambda>x. x\<lparr>po_rid := h\<rparr>) st" and ys: "id_nodes h ys" "kmsg \<in> set ys" "idn h kmsg = rid"
    and f: "lib_idtreeFind h rid = Some kmsg"
    and h': "lib_idtreeRemove nil kmsg h = Some h'" "id_nodes h' (remove1 kmsg ys)" "idn h' = idn h" "kmsg \<notin> set (remove1 kmsg ys)"
    using ridAlloc_nodes [OF assms] .
  have "rid \<notin> idn h' ` set (remove1 kmsg ys)"
  proof
    assume "rid \<in> idn h' ` set (remove1 kmsg ys)"
    then obtain x where x: "x \<in> set (remove1 kmsg ys)" "idn h x = rid" using h'(3) by auto
    then have "x \<in> set ys" "x \<noteq> kmsg" using h'(4) set_remove1_subset [of kmsg ys] by auto
    moreover have "inj_on (idn h) (set ys)" using ys(1) by (simp add: id_nodes_def inj_on_strict_sorted)
    ultimately show False using x(2) ys(2,3) by (auto dest: inj_onD)
  qed
  then have "lib_idtreeFind h' rid = Some NULL" using idtreeFind_nodes [OF h'(2)] node_of_id_iff [OF h'(2), of rid NULL] by auto
  then show ?thesis using f h'(1) assms(2) by (simp add: proc_portRidGet_def st' upd_port_def)
qed

text \<open>C38: An owner that destroys its port while a client uses it, and then ends, drops its single reference twice: the
  port stays in the owner's list after \<open>proc_portDestroy\<close>, and \<open>proc_portsDestroy\<close> frees it although the reference of
  the client, the only one the count then stands for, was never dropped.\<close>

theorem port_owner_drops_twice:
  assumes "id_nodes (ptree st) xs" and "p \<in> set xs" and "nil \<noteq> NULL" "nil \<notin> set xs" and "proc \<noteq> NULL" and "pports st proc = [p]"
    and "po_owner (ports st p) = proc" and "\<not> po_closed (ports st p)" and "po_refs (ports st p) = 2" and "queues st (Qobj p) = Queue []"
    and "idn (ptree st) p = i" "0 \<le> i" "i \<le> MAX_ID"
  shows "\<exists>st1 st2. proc_portDestroy nil proc (word_of_int i) st = Some st1 \<and> po_refs (ports st1 p) = 1 \<and> kfreed st1 = kfreed st \<and>
    proc_portsDestroy nil proc st1 = Some st2 \<and> kfreed st2 = p # kfreed st"
proof -
  have p: "p \<noteq> NULL" using assms(1,2) rb_nodes_distinct [of "ptree st" xs] by (metis id_nodes_def)
  have w: "uint (word_of_int i :: 32 word) = i" "sint (word_of_int i :: 32 word) = i"
    using assms(12,13) signed_take_bit_int_eq_self [of 31 i] by (auto simp: MAX_ID_def uint_word_of_int take_bit_int_eq_self sint_uint signed_take_bit_take_bit)
  have f: "lib_idtreeFind (ptree st) i = Some p" using idtreeFind_nodes [OF assms(1)] node_of_id_iff [OF assms(1), of i p] assms(2,11) by auto
  obtain h where h: "lib_idtreeRemove nil p (ptree st) = Some h" using idtree_remove_nodes [OF assms(1-4)] .
  let ?s1 = "(upd_port p (\<lambda>x. x\<lparr>po_refs := 1, po_closed := True\<rparr>) st)\<lparr>queues := (queues st)(Qobj p := WakeupPending)\<rparr>"
  have d: "proc_portDestroy nil proc (word_of_int i) st = Some ?s1"
    using w f p assms(5,7-10,12,13)
    by (simp add: proc_portDestroy_def proc_portGet_def port_put_def port_release_def upd_port_def Let_def broadcast_empty MAX_ID_def)
  let ?u = "?s1\<lparr>pports := (pports st)(proc := [])\<rparr>"
  let ?v = "(upd_port p (\<lambda>x. x\<lparr>po_refs := 0, po_closed := True\<rparr>) ?u)\<lparr>ptree := h\<rparr>"
  let ?s2 = "kfree p (fst (proc_lockDone p ?v))"
  have e: "port_put nil p True ?u = Some ?s2"
    using h assms(5,7) by (simp add: port_put_def port_release_def port_dispose_def upd_port_def Let_def)
  note m = more_portsys [OF more_lock(2) [of p ?v]]
  have "proc_portsDestroy nil proc ?s1 = proc_portsDestroy nil proc ?s2"
    using e assms(6) by (subst proc_portsDestroy.simps) (simp add: upd_port_def LIST_REMOVE_def)
  also have "\<dots> = Some ?s2" using m(4) by (subst proc_portsDestroy.simps) (simp add: kfree_def upd_port_def)
  finally have "proc_portsDestroy nil proc ?s1 = Some ?s2" .
  moreover have "kfreed ?s2 = p # kfreed st" using m(1) by (simp add: kfree_def upd_port_def)
  ultimately show ?thesis using d by (intro exI [of _ ?s1] exI [of _ ?s2]) (simp add: upd_port_def)
qed

section \<open>Concrete ports\<close>

text \<open>Process 40 owns port 5, with \<open>n\<close> references; the ports 3, 5 and 8 have themselves as identifiers.\<close>

definition demo_ports :: "32 word \<Rightarrow> portsys" where
  "demo_ports n = objects.extend demo_objects
     (portsys.fields (\<lambda>_. \<lparr>po_refs = n, po_closed = False, po_owner = 40, po_rid = idheap0, po_kmessages = [], po_current = NULL\<rparr>)
       id_sample ((\<lambda>_. [])(40 := [5])))"

lemma demo_ports_simps:
  "ptree (demo_ports n) = id_sample" "pports (demo_ports n) = (\<lambda>_. [])(40 := [5])" "po_refs (ports (demo_ports n) p) = n"
  "\<not> po_closed (ports (demo_ports n) p)" "po_owner (ports (demo_ports n) p) = 40" "po_rid (ports (demo_ports n) p) = idheap0"
  "queues (demo_ports n) (Qobj 5) = Queue []" "kfreed (demo_ports n) = []" "idn id_sample 5 = 5"
  by (simp_all add: demo_ports_def demo_objects_def objects.defs kernel.defs portsys.defs demo_def demo_start_def id_sample_def)


theorem port_owner_drops_twice_witness:
  "\<exists>st1 st2. proc_portDestroy 90 40 5 (demo_ports 2) = Some st1 \<and> po_refs (ports st1 5) = 1 \<and> proc_portsDestroy 90 40 st1 = Some st2 \<and> kfreed st2 = [5]"
  using port_owner_drops_twice [of "demo_ports 2" "[3, 5, 8]" 5 90 40 5] id_sample_nodes by (auto simp: demo_ports_simps MAX_ID_def)

theorem rid_roundtrip_witness:
  "\<exists>st' st''. proc_portRidAlloc 5 7 (demo_ports 1) = Some (st', 0) \<and> proc_portRidGet 90 5 0 st' = Some (st'', 7) \<and>
     proc_portRidGet 90 5 0 st'' = Some (st'', NULL)"
proof -
  have "(case lib_idtreeAlloc 7 0 idheap0 of Some (Returned (h, i)) \<Rightarrow> i = 0 | _ \<Rightarrow> False)" by code_simp
  then obtain h where "lib_idtreeAlloc 7 0 idheap0 = Some (Returned (h, 0))" by (auto split: option.splits asserted.splits)
  then obtain st' where "proc_portRidAlloc 5 7 (demo_ports 1) = Some (st', 0)" by (simp add: proc_portRidAlloc_def demo_ports_simps)
  moreover have "id_nodes (po_rid (ports (demo_ports 1) 5)) []" by (simp add: demo_ports_simps id_nodes_def idheap0_def rb_nodes_def rep_def rb_tree_def)
  ultimately show ?thesis using rid_roundtrip [of "demo_ports 1" 5 "[]" 7 90 st' 0] by auto
qed

end
