(* ===== verification/Vm_Zone.thy ===== *)
theory Vm_Zone
  imports Vm_Page
begin

unbundle bit_operations_syntax

text \<open>
  The zone allocator of \<^verbatim>\<open>vm/zone.c\<close>: a zone is a run of pages cut into blocks of one size; the free blocks are
  chained through their first words. \<open>words\<close> is the pointer-sized word at an address. The pages come from
  \<open>vm_pageAlloc\<close>; the address at which \<open>vm_mmap\<close> put them, or the null pointer, is an argument. Sizes are natural
  numbers: the zones the kernel creates stay far below the width of \<open>size_t\<close>.
\<close>

section \<open>Model\<close>

record vm_zone_t =
  z_blocksz :: nat
  z_blocks :: nat
  z_used :: nat
  z_vaddr :: addr
  z_first :: addr
  z_pages :: "int option"

record zheap =
  zones :: "addr \<Rightarrow> vm_zone_t"
  words :: "addr \<Rightarrow> addr"
  zpool :: pages_t

definition upd_zone :: "addr \<Rightarrow> (vm_zone_t \<Rightarrow> vm_zone_t) \<Rightarrow> 'a zheap_scheme \<Rightarrow> 'a zheap_scheme" where
  "upd_zone z f h = h\<lparr>zones := (zones h)(z := f (zones h z))\<rparr>"

definition store :: "addr \<Rightarrow> addr \<Rightarrow> 'a zheap_scheme \<Rightarrow> 'a zheap_scheme" where
  "store a v h = h\<lparr>words := (words h)(a := v)\<rparr>"

text \<open>\<open>PAGE_OWNER_KERNEL | PAGE_KERNEL_HEAP\<close>\<close>

definition ZONE_FLAGS :: "8 word" where
  "ZONE_FLAGS = push_bit 1 1 OR push_bit 4 6"

text \<open>The loop that chains the blocks, and the last link.\<close>

definition zone_chain :: "addr \<Rightarrow> nat \<Rightarrow> nat \<Rightarrow> 'a zheap_scheme \<Rightarrow> 'a zheap_scheme" where
  "zone_chain va blocksz blocks h =
     store (va + (blocks - 1) * blocksz) NULL
       (fold (\<lambda>i. store (va + i * blocksz) (va + (i + 1) * blocksz)) [0..<blocks] h)"

definition vm_zoneCreate :: "addr \<Rightarrow> addr \<Rightarrow> nat \<Rightarrow> nat \<Rightarrow> 'a zheap_scheme \<Rightarrow> ('a zheap_scheme \<times> int) option" where
  "vm_zoneCreate va z blocksz blocks h =
     (if blocksz = 0 \<or> blocks = 0 then Some (h, - EINVAL)
      else if int blocksz AND NOT (int blocksz - 1) = 0 then Some (h, - EINVAL)
      else
        (case vm_pageAlloc (zpool h) (blocks * blocksz) ZONE_FLAGS of
           (s, None) \<Rightarrow> Some (upd_zone z (\<lambda>x. x\<lparr>z_pages := None\<rparr>) (h\<lparr>zpool := s\<rparr>), - ENOMEM)
         | (s, Some p) \<Rightarrow>
             if va = NULL then
               map_option (\<lambda>s. (upd_zone z (\<lambda>x. x\<lparr>z_pages := Some p, z_vaddr := NULL\<rparr>) (h\<lparr>zpool := s\<rparr>), - ENOMEM)) (vm_pageFree s p)
             else
               Some (upd_zone z (\<lambda>x. x\<lparr>z_pages := Some p, z_vaddr := va, z_first := va, z_blocks := blocks, z_blocksz := blocksz, z_used := 0\<rparr>)
                       (zone_chain va blocksz blocks (h\<lparr>zpool := s\<rparr>)), EOK)))"

text \<open>\<open>None\<close> is a use of the null pointer for the pages, or pages that are free already.\<close>

definition vm_zoneDestroy :: "addr \<Rightarrow> 'a zheap_scheme \<Rightarrow> ('a zheap_scheme \<times> int) option" where
  "vm_zoneDestroy z h =
     (if z = NULL then Some (h, - EINVAL)
      else if z_used (zones h z) \<noteq> 0 then Some (h, - EBUSY)
      else
        (case z_pages (zones h z) of
           None \<Rightarrow> None
         | Some p \<Rightarrow>
             map_option (\<lambda>s. (upd_zone z (\<lambda>x. x\<lparr>z_vaddr := NULL, z_first := NULL, z_pages := None\<rparr>) (h\<lparr>zpool := s\<rparr>), EOK))
               (vm_pageFree (zpool h) p)))"

text \<open>The block with its physical address, which is stored when the caller asks for it.\<close>

definition vm_zalloc :: "addr \<Rightarrow> 'a zheap_scheme \<Rightarrow> 'a zheap_scheme \<times> addr \<times> nat" where
  "vm_zalloc z h =
     (if z = NULL then (h, NULL, 0)
      else if z_used (zones h z) = z_blocks (zones h z) then (h, NULL, 0)
      else
        (let block = z_first (zones h z);
             h = upd_zone z (\<lambda>x. x\<lparr>z_first := words h block, z_used := z_used x + 1\<rparr>) h
         in (h, block, pg_addr (p_pages (zpool h) (the (z_pages (zones h z)))) + (block - z_vaddr (zones h z)))))"

definition vm_zfree :: "addr \<Rightarrow> addr \<Rightarrow> 'a zheap_scheme \<Rightarrow> 'a zheap_scheme" where
  "vm_zfree z block h =
     (let x = zones h z
      in if block < z_vaddr x \<or> block \<ge> z_vaddr x + z_blocksz x * z_blocks x then h
         else if int block AND NOT (int (z_blocksz x) - 1) = 0 then h
         else upd_zone z (\<lambda>x. x\<lparr>z_first := block, z_used := z_used x - 1\<rparr>) (store block (z_first x) h))"

section \<open>The free list\<close>

fun chained :: "(addr \<Rightarrow> addr) \<Rightarrow> addr \<Rightarrow> addr list \<Rightarrow> bool" where
  "chained m p [] \<longleftrightarrow> p = NULL"
| "chained m p (b # bs) \<longleftrightarrow> p = b \<and> chained m (m b) bs"

definition zone_blocks :: "vm_zone_t \<Rightarrow> addr set" where
  "zone_blocks x = (\<lambda>i. z_vaddr x + i * z_blocksz x) ` {..<z_blocks x}"

text \<open>The zone \<open>z\<close> has the free blocks \<open>fs\<close>, in the order in which they are handed out.\<close>

definition zone_free :: "'a zheap_scheme \<Rightarrow> addr \<Rightarrow> addr list \<Rightarrow> bool" where
  "zone_free h z fs \<longleftrightarrow> (let x = zones h z in
     z \<noteq> NULL \<and> z_vaddr x \<noteq> NULL \<and> z_blocksz x > 0 \<and> z_vaddr x \<ge> z_blocksz x \<and> chained (words h) (z_first x) fs \<and>
     distinct fs \<and> set fs \<subseteq> zone_blocks x \<and> length fs + z_used x = z_blocks x)"

lemma chained_store [simp]: "b \<notin> set fs \<Longrightarrow> chained (m(b := v)) p fs = chained m p fs"
  by (induction fs arbitrary: p) auto

lemma chained_NULL: "chained m p fs \<Longrightarrow> NULL \<notin> set fs \<Longrightarrow> p = NULL \<longleftrightarrow> fs = []"
  by (cases fs) auto

lemma words_store [simp]: "words (store a v h) = (words h)(a := v)" "zones (store a v h) = zones h" "zpool (store a v h) = zpool h"
  by (simp_all add: store_def)

lemma zones_upd [simp]: "zones (upd_zone z f h) = (zones h)(z := f (zones h z))" "words (upd_zone z f h) = words h" "zpool (upd_zone z f h) = zpool h"
  by (simp_all add: upd_zone_def)

lemma zone_block_bounds: "b \<in> zone_blocks x \<Longrightarrow> z_blocksz x > 0 \<Longrightarrow> z_vaddr x \<le> b \<and> b < z_vaddr x + z_blocksz x * z_blocks x"
  by (auto simp: zone_blocks_def mult.commute)

text \<open>The mask of the test in \<open>_vm_zfree\<close> only rejects addresses below the block size.\<close>

lemma mask_low:
  assumes "0 < sz" and "sz = 2 ^ k"
  shows "int b AND NOT (int sz - 1) = 0 \<longleftrightarrow> b < sz"
proof -
  have "int b AND NOT (mask k) = 0 \<longleftrightarrow> take_bit k (int b) = int b" by (auto simp: bit_eq_iff bit_simps)
  also have "\<dots> \<longleftrightarrow> b < sz" by (simp add: take_bit_int_eq_self_iff assms(2))
  finally show ?thesis by (simp add: assms(2) mask_eq_exp_minus_1)
qed

lemma zalloc_free:
  assumes "zone_free h z (b # bs)" and "vm_zalloc z h = (h', a, ph)"
  shows "a = b" and "zone_free h' z bs" and "words h' = words h" and "\<And>y. y \<noteq> z \<Longrightarrow> zones h' y = zones h y"
  using assms by (auto simp: zone_free_def vm_zalloc_def zone_blocks_def Let_def)

lemma zalloc_full:
  assumes "zone_free h z []"
  shows "vm_zalloc z h = (h, NULL, 0)"
  using assms by (simp add: zone_free_def vm_zalloc_def Let_def)

lemma zfree_free:
  assumes "zone_free h z fs" and "z_blocksz (zones h z) = 2 ^ k" and "b \<in> zone_blocks (zones h z)" and "b \<notin> set fs"
  shows "zone_free (vm_zfree z b h) z (b # fs)"
proof -
  let ?x = "zones h z"
  have "z_vaddr ?x \<le> b" "b < z_vaddr ?x + z_blocksz ?x * z_blocks ?x" using zone_block_bounds [OF assms(3)] assms(1) by (auto simp: zone_free_def Let_def)
  moreover have "\<not> b < z_blocksz ?x" using calculation(1) assms(1) by (simp add: zone_free_def Let_def)
  moreover have "card (set fs) < card (zone_blocks ?x)" using assms(1,3,4) by (intro psubset_card_mono) (auto simp: zone_free_def Let_def zone_blocks_def)
  moreover have "card (zone_blocks ?x) \<le> z_blocks ?x" unfolding zone_blocks_def by (metis card_image_le card_lessThan finite_lessThan)
  ultimately show ?thesis using assms mask_low [of "z_blocksz ?x" k b]
    by (auto simp: zone_free_def vm_zfree_def Let_def zone_blocks_def distinct_card)
qed

lemma zone_blocks_upd [simp]: "zone_blocks (x\<lparr>z_first := a, z_used := n\<rparr>) = zone_blocks x"
  by (simp add: zone_blocks_def)

lemma zone_geometry [simp]:
  "zone_blocks (zones (fst (vm_zalloc z h)) y) = zone_blocks (zones h y)" "z_blocksz (zones (fst (vm_zalloc z h)) y) = z_blocksz (zones h y)"
  "zone_blocks (zones (vm_zfree z b h) y) = zone_blocks (zones h y)" "z_blocksz (zones (vm_zfree z b h) y) = z_blocksz (zones h y)"
  by (simp_all add: vm_zalloc_def vm_zfree_def Let_def)

lemma zone_blocks_NULL: "zone_free h z fs \<Longrightarrow> NULL \<notin> zone_blocks (zones h z)"
  by (auto simp: zone_free_def zone_blocks_def Let_def)

lemma zone_free_head: "zone_free h z (b # bs) \<Longrightarrow> b \<noteq> NULL \<and> b \<in> zone_blocks (zones h z) \<and> b \<notin> set bs"
  using zone_blocks_NULL [of h z "b # bs"] unfolding zone_free_def Let_def by (metis distinct.simps(2) list.set_intros(1) subsetD)

section \<open>Creating a zone\<close>

lemma chain_loop:
  assumes "sz > 0"
  shows "words (fold (\<lambda>i. store (va + i * sz) (va + (i + 1) * sz)) [0..<n] h) a = (if \<exists>i<n. a = va + i * sz then a + sz else words h a)"
proof (induction n)
  case (Suc n)
  then show ?case using assms by (auto simp: less_Suc_eq algebra_simps)
qed simp

lemma chain_loop_frame: "zones (fold (\<lambda>i. store (f i) (g i)) is h) = zones h" "zpool (fold (\<lambda>i. store (f i) (g i)) is h) = zpool h"
  by (induction "is" arbitrary: h) simp_all

lemma chained_run:
  assumes "\<And>i. k \<le> i \<Longrightarrow> Suc i < n \<Longrightarrow> m (f i) = f (Suc i)" and "k < n" and "m (f (n - 1)) = NULL"
  shows "chained m (f k) (map f [k..<n])"
  using assms
proof (induction "n - k" arbitrary: k)
  case (Suc d)
  have e: "[k..<n] = k # [Suc k..<n]" using Suc.prems(2) by (rule upt_conv_Cons)
  show ?case
  proof (cases "Suc k < n")
    case True
    then have "chained m (f (Suc k)) (map f [Suc k..<n])" using Suc.hyps(1) [of "Suc k"] Suc.hyps(2) Suc.prems by simp
    then show ?thesis using Suc.prems(1) [of k] True e by simp
  next
    case False
    then have "n = Suc k" using Suc.prems(2) by simp
    then show ?thesis using Suc.prems(3) by simp
  qed
qed simp

definition all_blocks :: "addr \<Rightarrow> nat \<Rightarrow> nat \<Rightarrow> addr list" where
  "all_blocks va sz n = map (\<lambda>i. va + i * sz) [0..<n]"

lemma all_blocks_distinct: "sz > 0 \<Longrightarrow> distinct (all_blocks va sz n)"
  by (auto simp: all_blocks_def distinct_map inj_on_def)

lemma zone_chain_words:
  assumes "sz > 0"
  shows "words (zone_chain va sz n h) a = (if a = va + (n - 1) * sz then NULL else if \<exists>i<n. a = va + i * sz then a + sz else words h a)"
  unfolding zone_chain_def words_store fun_upd_apply chain_loop [OF assms] ..

lemma zone_chain_chained:
  assumes "sz > 0" and "n > 0"
  shows "chained (words (zone_chain va sz n h)) va (all_blocks va sz n)"
proof -
  have w: "words (zone_chain va sz n h) (va + i * sz) = (if i = n - 1 then NULL else va + Suc i * sz)" if "i < n" for i
    using assms that by (auto simp: zone_chain_words)
  have "chained (words (zone_chain va sz n h)) (va + 0 * sz) (map (\<lambda>i. va + i * sz) [0..<n])"
    by (rule chained_run [of 0 n _ "\<lambda>i. va + i * sz"]) (use w assms in auto)
  then show ?thesis by (simp add: all_blocks_def)
qed

lemma zoneCreate_free:
  assumes c: "vm_zoneCreate va z sz n h = Some (h', EOK)" and z: "z \<noteq> NULL" and va: "va \<ge> sz"
  shows "zone_free h' z (all_blocks va sz n)" and "z_blocksz (zones h' z) = sz" and "z_vaddr (zones h' z) = va" and "z_blocks (zones h' z) = n"
    and "\<And>y. y \<noteq> z \<Longrightarrow> zones h' y = zones h y" and "\<And>a. a \<notin> set (all_blocks va sz n) \<Longrightarrow> words h' a = words h a"
proof -
  obtain s p where g: "sz > 0" "n > 0" "va \<noteq> NULL" and h': "h' = upd_zone z (\<lambda>x. x\<lparr>z_pages := Some p, z_vaddr := va, z_first := va, z_blocks := n, z_blocksz := sz, z_used := 0\<rparr>)
      (zone_chain va sz n (h\<lparr>zpool := s\<rparr>))"
    using c by (auto simp: vm_zoneCreate_def split: if_splits prod.splits option.splits)
  have zn: "zones (zone_chain va sz n (h\<lparr>zpool := s\<rparr>)) = zones h" by (simp add: zone_chain_def chain_loop_frame)
  show "z_blocksz (zones h' z) = sz" "z_vaddr (zones h' z) = va" "z_blocks (zones h' z) = n" "\<And>y. y \<noteq> z \<Longrightarrow> zones h' y = zones h y"
    by (simp_all add: h' zn)
  show "zone_free h' z (all_blocks va sz n)"
    using zone_chain_chained [OF g(1,2), of va "h\<lparr>zpool := s\<rparr>"] all_blocks_distinct [OF g(1)] z va g
    by (auto simp: h' zone_free_def Let_def zone_blocks_def all_blocks_def)
  show "words h' a = words h a" if "a \<notin> set (all_blocks va sz n)" for a
    using that g by (auto simp: h' zone_chain_words all_blocks_def)
qed

section \<open>Runs\<close>

text \<open>
  A zone and the blocks that are in use. Their users write to them, and to any other memory but the free blocks; a
  block is given back by the one that has it.
\<close>

inductive zone_step :: "addr \<Rightarrow> zheap \<times> addr set \<Rightarrow> zheap \<times> addr set \<Rightarrow> bool" for z where
  zalloc: "vm_zalloc z h = (h', b, ph) \<Longrightarrow> zone_step z (h, live) (h', if b = NULL then live else insert b live)"
| zfree: "b \<in> live \<Longrightarrow> zone_step z (h, live) (vm_zfree z b h, live - {b})"
| zwrite: "a \<notin> zone_blocks (zones h z) \<or> a \<in> live \<Longrightarrow> zone_step z (h, live) (store a v h, live)"

inductive zone_reach :: "addr \<Rightarrow> zheap \<Rightarrow> zheap \<times> addr set \<Rightarrow> bool" for z h0 where
  reach_start: "zone_reach z h0 (h0, {})"
| reach_step: "zone_reach z h0 x \<Longrightarrow> zone_step z x y \<Longrightarrow> zone_reach z h0 y"

text \<open>The blocks in use and the free ones share the blocks of the zone out between them.\<close>

definition zone_inv :: "addr \<Rightarrow> vm_zone_t \<Rightarrow> zheap \<times> addr set \<Rightarrow> bool" where
  "zone_inv z x s \<longleftrightarrow> (case s of (h, live) \<Rightarrow> zone_blocks (zones h z) = zone_blocks x \<and> z_blocksz (zones h z) = z_blocksz x \<and>
     (\<exists>fs. zone_free h z fs \<and> live \<union> set fs = zone_blocks x \<and> live \<inter> set fs = {}))"

lemma zone_step_inv:
  assumes "zone_step z s t" and "zone_inv z x s" and "z_blocksz x = 2 ^ k"
  shows "zone_inv z x t"
  using assms(1)
proof cases
  case (zalloc h h' b ph live)
  obtain fs where fs: "zone_free h z fs" "live \<union> set fs = zone_blocks x" "live \<inter> set fs = {}" "zone_blocks (zones h z) = zone_blocks x" "z_blocksz (zones h z) = z_blocksz x"
    using assms(2) zalloc(1) by (auto simp: zone_inv_def)
  show ?thesis
  proof (cases fs)
    case Nil
    then have "vm_zalloc z h = (h, NULL, 0)" using zalloc_full fs(1) by simp
    then show ?thesis using zalloc assms(2) by simp
  next
    case (Cons c bs)
    then have b: "b = c" "zone_free h' z bs" using zalloc_free [OF _ zalloc(3)] fs(1) by auto
    have "zone_blocks (zones h' z) = zone_blocks x" "z_blocksz (zones h' z) = z_blocksz x"
      using zone_geometry(1,2) [of z h z] zalloc(3) fs(4,5) by simp_all
    moreover have "b \<noteq> NULL" "b \<notin> set bs" using zone_free_head fs(1) Cons b(1) by blast+
    ultimately show ?thesis using zalloc(2) fs b Cons by (auto simp: zone_inv_def)
  qed
next
  case (zfree b live h)
  obtain fs where fs: "zone_free h z fs" "live \<union> set fs = zone_blocks x" "live \<inter> set fs = {}" "zone_blocks (zones h z) = zone_blocks x" "z_blocksz (zones h z) = z_blocksz x"
    using assms(2) zfree(1) by (auto simp: zone_inv_def)
  have "zone_free (vm_zfree z b h) z (b # fs)" using zfree_free [OF fs(1)] fs zfree(3) assms(3) by auto
  moreover have "zone_blocks (zones (vm_zfree z b h) z) = zone_blocks x" "z_blocksz (zones (vm_zfree z b h) z) = z_blocksz x"
    using fs(4,5) by simp_all
  ultimately show ?thesis using zfree fs by (auto simp: zone_inv_def intro!: exI [of _ "b # fs"])
next
  case (zwrite a h live v)
  obtain fs where fs: "zone_free h z fs" "live \<union> set fs = zone_blocks x" "live \<inter> set fs = {}" "zone_blocks (zones h z) = zone_blocks x" "z_blocksz (zones h z) = z_blocksz x"
    using assms(2) zwrite(1) by (auto simp: zone_inv_def)
  then have "a \<notin> set fs" using zwrite(3) by auto
  then have "zone_free (store a v h) z fs" using fs(1) by (simp add: zone_free_def Let_def)
  then show ?thesis using zwrite(2) fs by (auto simp: zone_inv_def)
qed

lemma zone_reach_inv:
  assumes "zone_reach z h0 s" and "zone_free h0 z fs" "set fs = zone_blocks (zones h0 z)" "z_blocksz (zones h0 z) = 2 ^ k"
  shows "zone_inv z (zones h0 z) s"
  using assms(1)
proof induction
  case reach_start
  then show ?case using assms(2-4) by (auto simp: zone_inv_def)
next
  case (reach_step s t)
  then show ?case using zone_step_inv assms(4) by blast
qed

section \<open>Properties\<close>

text \<open>C16: From a zone as \<open>_vm_zoneCreate\<close> makes it, with a power of two as its block size, every block that \<open>_vm_zalloc\<close>
  returns after any allocations, releases and writes of the users is a block of the zone that nobody has, and the call
  fails only when all blocks are in use.\<close>

theorem zone_run_fresh:
  assumes "vm_zoneCreate va z (2 ^ k) n h = Some (h0, EOK)" and "z \<noteq> NULL" and "va \<ge> 2 ^ k"
    and "zone_reach z h0 (h1, live)" and "vm_zalloc z h1 = (h2, b, ph)"
  shows "if b = NULL then live = set (all_blocks va (2 ^ k) n) else b \<in> set (all_blocks va (2 ^ k) n) - live"
proof -
  note c = zoneCreate_free [OF assms(1-3)]
  have s: "set (all_blocks va (2 ^ k) n) = zone_blocks (zones h0 z)" using c by (auto simp: zone_blocks_def all_blocks_def)
  obtain fs where fs: "zone_free h1 z fs" "live \<union> set fs = zone_blocks (zones h0 z)" "live \<inter> set fs = {}"
    using zone_reach_inv [OF assms(4) c(1) s c(2)] by (auto simp: zone_inv_def)
  show ?thesis
  proof (cases fs)
    case Nil
    then have "vm_zalloc z h1 = (h1, NULL, 0)" using zalloc_full fs(1) by simp
    then show ?thesis using assms(5) fs s Nil by simp
  next
    case (Cons a bs)
    moreover have "b = a" using zalloc_free(1) [OF _ assms(5)] fs(1) Cons by blast
    moreover have "a \<noteq> NULL" using fs(1) Cons zone_free_head by blast
    ultimately show ?thesis using fs s by auto
  qed
qed

text \<open>\<open>_vm_zfree\<close> puts every address inside a block into the free list as if it were a block: its test for the
  alignment only rejects addresses below the block size, and the next \<open>_vm_zalloc\<close> returns that address.\<close>

theorem zfree_accepts_interior:
  assumes "zone_free h z fs" and "z_blocksz (zones h z) = 2 ^ k" and "b \<in> zone_blocks (zones h z)" "0 < d" "d < 2 ^ k"
    and "z_used (zones h z) > 0"
  shows "fst (snd (vm_zalloc z (vm_zfree z (b + d) h))) = b + d \<and> b + d \<notin> zone_blocks (zones h z)"
proof -
  let ?x = "zones h z"
  obtain i where i: "b = z_vaddr ?x + i * 2 ^ k" "i < z_blocks ?x" using assms(2,3) by (auto simp: zone_blocks_def)
  have "b + d < z_vaddr ?x + Suc i * 2 ^ k" using i assms(5) by simp
  also have "\<dots> \<le> z_vaddr ?x + 2 ^ k * z_blocks ?x" using i(2) by (metis Suc_leI add_left_mono mult.commute mult_le_mono1)
  finally have r: "b + d < z_vaddr ?x + 2 ^ k * z_blocks ?x" .
  have l: "z_vaddr ?x \<le> b + d" "\<not> b + d < 2 ^ k" using i assms(1,2) by (auto simp: zone_free_def Let_def)
  have u: "z_used ?x - 1 \<noteq> z_blocks ?x" "z \<noteq> NULL" using assms(1,6) by (auto simp: zone_free_def Let_def)
  have "b + d \<noteq> z_vaddr ?x + j * 2 ^ k" for j
  proof
    assume "b + d = z_vaddr ?x + j * 2 ^ k"
    then have "i * 2 ^ k + d = j * 2 ^ k" using i(1) by simp
    then have "(i * 2 ^ k + d) mod 2 ^ k = 0" by simp
    then show False using assms(4,5) by simp
  qed
  then have "b + d \<notin> zone_blocks ?x" using assms(2) by (auto simp: zone_blocks_def)
  then show ?thesis using r l u assms(2) mask_low [of "2 ^ k" k "b + d"] by (simp add: vm_zfree_def vm_zalloc_def Let_def)
qed

section \<open>A concrete zone\<close>

definition demo_zheap :: zheap where
  "demo_zheap = \<lparr>zones = (\<lambda>_. \<lparr>z_blocksz = 0, z_blocks = 0, z_used = 0, z_vaddr = NULL, z_first = NULL, z_pages = None\<rparr>), words = (\<lambda>_. NULL), zpool = demo_pool\<rparr>"

lemma demo_zone_pages: "\<exists>s. vm_pageAlloc demo_pool 4096 ZONE_FLAGS = (s, Some 0)"
proof -
  have "snd (vm_pageAlloc demo_pool 4096 ZONE_FLAGS) = Some 0" by code_simp
  then show ?thesis by (metis prod.collapse)
qed

lemma demo_zone:
  obtains h where "vm_zoneCreate 65536 800 (2 ^ 6) 64 demo_zheap = Some (h, EOK)"
  using demo_zone_pages by (auto simp: vm_zoneCreate_def demo_zheap_def)

theorem zone_run_fresh_witness:
  "\<exists>h0 h1 b ph. vm_zoneCreate 65536 800 (2 ^ 6) 64 demo_zheap = Some (h0, EOK) \<and> vm_zalloc 800 h0 = (h1, b, ph) \<and>
     (b = NULL \<or> b \<in> set (all_blocks 65536 (2 ^ 6) 64))"
proof -
  obtain h0 where h0: "vm_zoneCreate 65536 800 (2 ^ 6) 64 demo_zheap = Some (h0, EOK)" using demo_zone .
  obtain h1 b ph where "vm_zalloc 800 h0 = (h1, b, ph)" by (metis prod_cases3)
  then show ?thesis using zone_run_fresh [OF h0 _ _ reach_start] h0 by (auto split: if_splits)
qed

theorem zfree_accepts_interior_witness:
  "\<exists>h. z_vaddr (zones h 800) = 65536 \<and> fst (snd (vm_zalloc 800 (vm_zfree 800 (65536 + 8) (h :: zheap)))) = 65544"
proof -
  obtain h0 where h0: "vm_zoneCreate 65536 800 (2 ^ 6) 64 demo_zheap = Some (h0, EOK)" using demo_zone .
  obtain h1 b ph where a: "vm_zalloc 800 h0 = (h1, b, ph)" by (metis prod_cases3)
  note c = zoneCreate_free [OF h0]
  have l: "all_blocks 65536 (2 ^ 6) 64 = 65536 # map (\<lambda>i. 65536 + i * 2 ^ 6) [1..<64]" by (simp add: all_blocks_def upt_conv_Cons)
  have f: "zone_free h1 800 (map (\<lambda>i. 65536 + i * 2 ^ 6) [1..<64])" using zalloc_free(2) [OF _ a] c(1) l by simp
  have z: "z_vaddr (zones h1 800) = 65536" "z_blocksz (zones h1 800) = 2 ^ 6" "z_blocks (zones h1 800) = 64" "z_used (zones h1 800) > 0"
    using a c by (auto simp: vm_zalloc_def Let_def zone_free_def all_blocks_def split: if_splits)
  have "65536 \<in> zone_blocks (zones h1 800)" using z by (auto simp: zone_blocks_def intro!: image_eqI [of _ _ 0])
  then show ?thesis using zfree_accepts_interior [OF f z(2), of 65536 8] z(1,4) by auto
qed

end
