(* ===== verification/Vm_Kmalloc.thy ===== *)
theory Vm_Kmalloc
  imports Vm_Zone Lib_RB_Spec
begin

text \<open>
  The kernel's general allocator, \<^verbatim>\<open>vm/kmalloc.c\<close>: one list of zones with free blocks for every power of two,
  a list of full zones, and a red-black tree that finds the zone of a block. The header of a zone is itself a block of a
  zone, so one header is kept back to make the next zone of headers. The lists are the sequences of their nodes; the tree
  is the heap model of \<^verbatim>\<open>lib/rb.c\<close>, with \<open>nil\<close> the sentinel of its removal. The lock makes every call a single
  step. The arguments \<open>va\<close> are the addresses \<open>vm_mmap\<close> returns; \<open>None\<close> is a double free of pages, which stops the kernel.
\<close>

section \<open>Model\<close>

record kheap = zheap +
  ksizes :: "nat \<Rightarrow> addr list"
  kused :: "addr list"
  ktree :: rbheap
  hdrblocks :: nat
  kallocsz :: nat
  zonehdrs :: nat
  firstzone :: addr

text \<open>The number of lists, \<open>sizeof(kmalloc_common.sizes) / sizeof(vm_zone_t *)\<close>, and \<open>sizeof(vm_zone_t)\<close> on ia32.\<close>

definition nsizes :: nat where
  "nsizes = 17"

definition sizeof_zone :: nat where
  "sizeof_zone = 48"

definition kmalloc_zone_cmp :: "vm_zone_t \<Rightarrow> vm_zone_t \<Rightarrow> int" where
  "kmalloc_zone_cmp z1 z2 =
     (if z_vaddr z1 > z_vaddr z2 then 1
      else if (z_vaddr z2 \<ge> z_vaddr z1 \<and> z_vaddr z2 < z_vaddr z1 + z_blocks z1 * z_blocksz z1) \<or>
              (z_vaddr z1 \<ge> z_vaddr z2 \<and> z_vaddr z1 < z_vaddr z2 + z_blocks z2 * z_blocksz z2) then 0
      else -1)"

definition list_head :: "addr list \<Rightarrow> addr" where
  "list_head zs = (case zs of [] \<Rightarrow> NULL | z # _ \<Rightarrow> z)"

definition kmalloc_alloc :: "nat \<Rightarrow> nat \<Rightarrow> 'a kheap_scheme \<Rightarrow> 'a kheap_scheme \<times> addr" where
  "kmalloc_alloc hdridx idx h =
     (let z = list_head (ksizes h idx);
          (h, b, _) = vm_zalloc z h
      in if b \<noteq> NULL then
           (let h = h\<lparr>kallocsz := kallocsz h + 2 ^ idx\<rparr>;
                h = (if idx = hdridx then h\<lparr>hdrblocks := hdrblocks h - 1\<rparr> else h);
                h = (if z_used (zones h z) = z_blocks (zones h z)
                     then h\<lparr>ksizes := (ksizes h)(idx := LIST_REMOVE (ksizes h idx) z), kused := LIST_ADD (kused h) z\<rparr> else h)
            in (h, b))
         else (h, b))"

text \<open>The search compares with a zone on the stack that holds the one block.\<close>

definition kmalloc_find :: "'a kheap_scheme \<Rightarrow> addr \<Rightarrow> addr option" where
  "kmalloc_find h p =
     (let t = \<lparr>z_blocksz = 16, z_blocks = 1, z_used = 0, z_vaddr = p, z_first = NULL, z_pages = None\<rparr>
      in lib_rbFind (ktree h) (\<lambda>n1 n2. kmalloc_zone_cmp (zones h n1) t) NULL)"

definition kmalloc_free :: "nat \<Rightarrow> addr \<Rightarrow> 'a kheap_scheme \<Rightarrow> ('a kheap_scheme \<times> addr) option" where
  "kmalloc_free hdridx p h =
     (case kmalloc_find h p of
        None \<Rightarrow> None
      | Some z \<Rightarrow>
          if z = NULL then Some (h, NULL)
          else
            (let h = vm_zfree z p h;
                 h = h\<lparr>kallocsz := kallocsz h - z_blocksz (zones h z)\<rparr>;
                 idx = hal_cpuGetLastBit (z_blocksz (zones h z));
                 h = (if idx = hdridx then h\<lparr>hdrblocks := hdrblocks h + 1\<rparr> else h);
                 h = (if z_used (zones h z) = z_blocks (zones h z) - 1
                      then h\<lparr>kused := LIST_REMOVE (kused h) z, ksizes := (ksizes h)(idx := LIST_ADD (ksizes h idx) z)\<rparr> else h)
             in Some (h, z)))"

definition kmalloc_tree_insert :: "addr \<Rightarrow> 'a kheap_scheme \<Rightarrow> 'a kheap_scheme option" where
  "kmalloc_tree_insert z h =
     map_option (\<lambda>(t, e). h\<lparr>ktree := t\<rparr>) (lib_rbInsert no_augment (\<lambda>a b. kmalloc_zone_cmp (zones h a) (zones h b)) z (ktree h))"

definition kmalloc_addZone :: "addr \<Rightarrow> nat \<Rightarrow> nat \<Rightarrow> 'a kheap_scheme \<Rightarrow> ('a kheap_scheme \<times> int) option" where
  "kmalloc_addZone va hdridx idx h =
     (let (h, nz) = kmalloc_alloc hdridx hdridx h
      in if nz = NULL then Some (h, - ENOMEM)
         else
           (case vm_zoneCreate va nz (2 ^ idx) (max (if idx = hdridx then zonehdrs h else 1) (SIZE_PAGE div 2 ^ idx)) h of
              None \<Rightarrow> None
            | Some (h, e) \<Rightarrow>
                if e < 0 then map_option (\<lambda>(h, z). (h, - ENOMEM)) (kmalloc_free hdridx nz h)
                else
                  map_option (\<lambda>h. (if idx = hdridx then h\<lparr>hdrblocks := hdrblocks h + z_blocks (zones h nz)\<rparr> else h, EOK))
                    (kmalloc_tree_insert nz (h\<lparr>ksizes := (ksizes h)(idx := LIST_ADD (ksizes h idx) nz)\<rparr>))))"

text \<open>\<open>va1\<close> is for a zone of headers, \<open>va2\<close> for a zone of blocks.\<close>

definition vm_kmalloc :: "addr \<Rightarrow> addr \<Rightarrow> nat \<Rightarrow> 'a kheap_scheme \<Rightarrow> ('a kheap_scheme \<times> addr) option" where
  "vm_kmalloc va1 va2 sz h =
     (let sz = (if sz < 16 then 16 else sz);
          idx = size_index sz;
          hdridx = size_index sizeof_zone
      in if idx \<ge> nsizes then Some (h, NULL)
         else if hdridx \<ge> nsizes then Some (h, NULL)
         else
           (case (if hdrblocks h = 1 then kmalloc_addZone va1 hdridx hdridx h else Some (h, EOK)) of
              None \<Rightarrow> None
            | Some (h, err) \<Rightarrow>
                (case (if err = 0 \<and> list_head (ksizes h idx) = NULL then kmalloc_addZone va2 hdridx idx h else Some (h, err)) of
                   None \<Rightarrow> None
                 | Some (h, err) \<Rightarrow> Some (if err = 0 then kmalloc_alloc hdridx idx h else (h, NULL)))))"

definition kmalloc_freeAtom :: "addr \<Rightarrow> nat \<Rightarrow> addr \<Rightarrow> 'a kheap_scheme \<Rightarrow> ('a kheap_scheme \<times> addr) option" where
  "kmalloc_freeAtom nil hdridx p h =
     (case kmalloc_free hdridx p h of
        None \<Rightarrow> None
      | Some (h, z) \<Rightarrow>
          if z = NULL then Some (h, NULL)
          else
            (let idx = hal_cpuGetLastBit (z_blocksz (zones h z))
             in if z_used (zones h z) = 0 \<and> z \<noteq> firstzone h then
                  (case vm_zoneDestroy z (h\<lparr>ksizes := (ksizes h)(idx := LIST_REMOVE (ksizes h idx) z)\<rparr>) of
                     None \<Rightarrow> None
                   | Some (h, e) \<Rightarrow>
                       (case lib_rbRemove no_augment nil z (ktree h) of
                          None \<Rightarrow> None
                        | Some t \<Rightarrow>
                            (let h = h\<lparr>ktree := t\<rparr>
                             in Some (if idx = hdridx then h\<lparr>hdrblocks := hdrblocks h - z_blocks (zones h z)\<rparr> else h, z))))
                else Some (h, NULL)))"

partial_function (option) kfree_loop :: "addr \<Rightarrow> nat \<Rightarrow> addr \<Rightarrow> 'a kheap_scheme \<Rightarrow> 'a kheap_scheme option" where
  "kfree_loop nil hdridx p h =
     (if p \<noteq> NULL then
        (case kmalloc_freeAtom nil hdridx p h of
           None \<Rightarrow> None
         | Some (h, p) \<Rightarrow> kfree_loop nil hdridx p h)
      else Some h)"

definition vm_kfree :: "addr \<Rightarrow> addr \<Rightarrow> 'a kheap_scheme \<Rightarrow> 'a kheap_scheme option" where
  "vm_kfree nil p h =
     (let hdridx = size_index sizeof_zone
      in if hdridx \<ge> nsizes then Some h else kfree_loop nil hdridx p h)"

definition vm_kmallocGetStats :: "'a kheap_scheme \<Rightarrow> nat" where
  "vm_kmallocGetStats h = kallocsz h"

text \<open>The start; the messages it prints are left out.\<close>

definition kmalloc_init :: "addr \<Rightarrow> 'a kheap_scheme \<Rightarrow> ('a kheap_scheme \<times> int) option" where
  "kmalloc_init va h =
     (let hdridx = size_index sizeof_zone
      in if hdridx \<ge> nsizes then Some (h, 0)
         else
           (let h = h\<lparr>ksizes := (\<lambda>i. if i < nsizes then [] else ksizes h i), kused := [], ktree := lib_rbInit (ktree h), zonehdrs := 16\<rparr>;
                fz = firstzone h
            in case vm_zoneCreate va fz (2 ^ hdridx) (max (zonehdrs h) (SIZE_PAGE div 2 ^ hdridx)) h of
                 None \<Rightarrow> None
               | Some (h, e) \<Rightarrow>
                   map_option (\<lambda>h. (h\<lparr>kallocsz := 0, hdrblocks := z_blocks (zones h fz)\<rparr>, 0))
                     (kmalloc_tree_insert fz (h\<lparr>ksizes := (ksizes h)(hdridx := LIST_ADD (ksizes h hdridx) fz)\<rparr>))))"

end
