(* ===== verification/Vm_Kmalloc_Spec.thy ===== *)
theory Vm_Kmalloc_Spec
  imports Vm_Kmalloc
begin

text \<open>
  The contract of the kernel's allocator: the zones lie apart, the tree finds the zone of every block, the lists hold the
  zones by size and by whether they have free blocks. A block that is handed out is large enough and lies apart from all
  blocks in use.
\<close>

section \<open>Invariant\<close>

definition zone_end :: "vm_zone_t \<Rightarrow> addr" where
  "zone_end x = z_vaddr x + z_blocks x * z_blocksz x"

text \<open>
  \<open>kmalloc_ok F xs h\<close>: \<open>xs\<close> are the zones in the order of the tree, which is that of their addresses, and \<open>F\<close> gives the
  free blocks of each. The headers in use are not free blocks.
\<close>

definition zone_wf :: "'a kheap_scheme \<Rightarrow> (addr \<Rightarrow> addr list) \<Rightarrow> addr \<Rightarrow> bool" where
  "zone_wf h F z \<longleftrightarrow> zone_free h z (F z) \<and> z_blocks (zones h z) > 0 \<and> (\<exists>i<nsizes. z_blocksz (zones h z) = 2 ^ i)"

definition kmalloc_ok :: "(addr \<Rightarrow> addr list) \<Rightarrow> addr list \<Rightarrow> 'a kheap_scheme \<Rightarrow> bool" where
  "kmalloc_ok F xs h \<longleftrightarrow> rb_nodes (ktree h) xs \<and> sorted_wrt (\<lambda>a b. zone_end (zones h a) \<le> z_vaddr (zones h b)) xs \<and>
     (\<forall>z \<in> set xs. zone_wf h F z) \<and>
     (\<forall>i<nsizes. distinct (ksizes h i) \<and> set (ksizes h i) = {z \<in> set xs. z_blocksz (zones h z) = 2 ^ i \<and> F z \<noteq> []}) \<and>
     distinct (kused h) \<and> set (kused h) = {z \<in> set xs. F z = []} \<and>
     (\<forall>z \<in> set xs. set (F z) \<inter> set xs = {})"

text \<open>The blocks in use, with their sizes.\<close>

definition in_use :: "(addr \<Rightarrow> addr list) \<Rightarrow> addr list \<Rightarrow> 'a kheap_scheme \<Rightarrow> (addr \<times> nat) set" where
  "in_use F xs h = {(b, n). \<exists>z \<in> set xs. b \<in> zone_blocks (zones h z) - set (F z) \<and> n = z_blocksz (zones h z)}"

lemma kmalloc_okD:
  assumes "kmalloc_ok F xs h"
  shows "rb_nodes (ktree h) xs" and "sorted_wrt (\<lambda>a b. zone_end (zones h a) \<le> z_vaddr (zones h b)) xs"
    and "\<And>z. z \<in> set xs \<Longrightarrow> zone_wf h F z" and "\<And>i. i < nsizes \<Longrightarrow> distinct (ksizes h i)"
    and "\<And>i. i < nsizes \<Longrightarrow> set (ksizes h i) = {z \<in> set xs. z_blocksz (zones h z) = 2 ^ i \<and> F z \<noteq> []}"
    and "distinct (kused h)" and "set (kused h) = {z \<in> set xs. F z = []}" and "\<And>z b. z \<in> set xs \<Longrightarrow> b \<in> set (F z) \<Longrightarrow> b \<notin> set xs"
  using assms unfolding kmalloc_ok_def by blast+

section \<open>Zones and addresses\<close>

lemma zone_wf_bounds:
  assumes "zone_wf h F z" and "b \<in> zone_blocks (zones h z)"
  shows "z_vaddr (zones h z) \<le> b" and "b + z_blocksz (zones h z) \<le> zone_end (zones h z)"
proof -
  obtain i where i: "i < z_blocks (zones h z)" "b = z_vaddr (zones h z) + i * z_blocksz (zones h z)" using assms(2) by (auto simp: zone_blocks_def)
  have "Suc i * z_blocksz (zones h z) \<le> z_blocks (zones h z) * z_blocksz (zones h z)" using i(1) by (intro mult_le_mono1) simp
  then show "z_vaddr (zones h z) \<le> b" "b + z_blocksz (zones h z) \<le> zone_end (zones h z)" using i(2) by (auto simp: zone_end_def)
qed

lemma zone_wf_nonempty: "zone_wf h F z \<Longrightarrow> z_vaddr (zones h z) < zone_end (zones h z)"
  by (auto simp: zone_wf_def zone_free_def zone_end_def Let_def)

lemma sorted_apart:
  assumes "sorted_wrt (\<lambda>a b. e a \<le> (v b :: nat)) xs" and "x \<in> set xs" "y \<in> set xs" "x \<noteq> y"
  shows "e x \<le> v y \<or> e y \<le> v x"
  using assms by (induction xs) auto

lemma cmp_ends:
  "kmalloc_zone_cmp a b = (if z_vaddr b < z_vaddr a then 1 else if z_vaddr b < zone_end a \<or> z_vaddr a = z_vaddr b \<and> z_vaddr a < zone_end b then 0 else -1)"
  by (auto simp: kmalloc_zone_cmp_def zone_end_def)

lemma cmp_apart:
  assumes "z_vaddr a < zone_end a" "z_vaddr b < zone_end b" and "zone_end a \<le> z_vaddr b \<or> zone_end b \<le> z_vaddr a"
  shows "kmalloc_zone_cmp a b = (if z_vaddr a < z_vaddr b then -1 else 1)"
  using assms by (auto simp: cmp_ends)

lemma cut_mono:
  assumes "sorted_wrt P xs" and "\<And>a b. a \<in> set xs \<Longrightarrow> b \<in> set xs \<Longrightarrow> P a b \<Longrightarrow> c a n < 0 \<or> c b n > (0::int)"
  shows "search_cut c n xs"
  unfolding search_cut_def using assms by (induction xs) fastforce+

text \<open>The search for a block finds its zone.\<close>

lemma kmalloc_find_zone:
  assumes ok: "kmalloc_ok F xs h" and z: "z \<in> set xs" and b: "b \<in> zone_blocks (zones h z)"
  shows "kmalloc_find h b = Some z"
proof -
  define t where "t = \<lparr>z_blocksz = 16, z_blocks = 1, z_used = 0, z_vaddr = b, z_first = NULL, z_pages = None\<rparr>"
  let ?c = "\<lambda>n1 n2 :: addr. kmalloc_zone_cmp (zones h n1) t"
  note k = kmalloc_okD [OF ok]
  have w: "z_vaddr (zones h z) \<le> b" "b < zone_end (zones h z)"
    using zone_wf_bounds [OF k(3) [OF z] b] k(3) [OF z] by (auto simp: zone_wf_def zone_free_def Let_def)
  have c: "kmalloc_zone_cmp (zones h y) t = (if b < z_vaddr (zones h y) then 1 else if b < zone_end (zones h y) then 0 else -1)" if "y \<in> set xs" for y
    using zone_wf_nonempty [OF k(3) [OF that]] by (auto simp: cmp_ends t_def)
  have "?c x NULL < 0 \<or> ?c y NULL > 0" if "x \<in> set xs" "y \<in> set xs" "zone_end (zones h x) \<le> z_vaddr (zones h y)" for x y
    using zone_wf_nonempty [OF k(3) [OF that(1)]] that(3) by (auto simp: c [OF that(1)] c [OF that(2)])
  then have "search_cut ?c NULL xs" by (rule cut_mono [OF k(2)])
  from rb_nodes_find [OF k(1) this] have "kmalloc_find h b = Some (case find (\<lambda>a. ?c a NULL = 0) xs of None \<Rightarrow> NULL | Some a \<Rightarrow> a)"
    by (simp add: kmalloc_find_def Let_def t_def)
  moreover have "find (\<lambda>a. ?c a NULL = 0) xs = Some z"
  proof -
    have u: "y = z" if "y \<in> set xs" "?c y NULL = 0" for y
      using sorted_apart [OF k(2) that(1) z] that(2) w c [OF that(1)] by (cases "y = z") (auto split: if_splits)
    show ?thesis
    proof (cases "find (\<lambda>a. ?c a NULL = 0) xs")
      case None
      then show ?thesis using z w c [OF z] by (auto simp: find_None_iff)
    next
      case (Some y)
      then have "y \<in> set xs" "?c y NULL = 0" by (auto simp: find_Some_iff)
      then show ?thesis using Some u by simp
    qed
  qed
  ultimately show ?thesis by simp
qed

section \<open>Taking a block\<close>

lemma kmalloc_alloc_none:
  assumes "ksizes h i = []"
  shows "kmalloc_alloc hdr i h = (h, NULL)"
  using assms by (simp add: kmalloc_alloc_def list_head_def vm_zalloc_def)

text \<open>What an operation on one zone has to keep for the invariant.\<close>

lemma zone_free_other:
  assumes "zone_free h z fs" and "zones h' z = zones h z" and "\<And>a. a \<in> set fs \<Longrightarrow> words h' a = words h a"
  shows "zone_free h' z fs"
proof -
  have "chained (words h') p fs = chained (words h) p fs" for p using assms(3) by (induction fs arbitrary: p) auto
  then show ?thesis using assms(1,2) by (simp add: zone_free_def Let_def)
qed

text \<open>The geometry of the zones, which only creating and destroying zones change.\<close>

definition same_zones :: "'a kheap_scheme \<Rightarrow> 'a kheap_scheme \<Rightarrow> bool" where
  "same_zones h h' \<longleftrightarrow> ktree h' = ktree h \<and> zonehdrs h' = zonehdrs h \<and> (\<forall>y. z_vaddr (zones h' y) = z_vaddr (zones h y) \<and>
     z_blocks (zones h' y) = z_blocks (zones h y) \<and> z_blocksz (zones h' y) = z_blocksz (zones h y))"

lemma same_zonesD:
  assumes "same_zones h h'"
  shows "ktree h' = ktree h" and "zone_end (zones h' y) = zone_end (zones h y)" and "z_vaddr (zones h' y) = z_vaddr (zones h y)"
    and "zone_blocks (zones h' y) = zone_blocks (zones h y)" and "z_blocksz (zones h' y) = z_blocksz (zones h y)"
    and "z_blocks (zones h' y) = z_blocks (zones h y)" and "zonehdrs h' = zonehdrs h"
  using assms by (simp_all add: same_zones_def zone_end_def zone_blocks_def)

lemma same_zones_trans: "same_zones h h' \<Longrightarrow> same_zones h' h'' \<Longrightarrow> same_zones h h''"
  by (simp add: same_zones_def)

lemma kmalloc_ok_change:
  assumes ok: "kmalloc_ok F xs h" and s: "same_zones h h'" and z: "z \<in> set xs" and f: "zone_free h' z fs" "set fs \<inter> set xs = {}"
    and o: "\<And>y. y \<in> set xs \<Longrightarrow> y \<noteq> z \<Longrightarrow> zone_free h' y (F y)"
    and l: "\<And>i. i < nsizes \<Longrightarrow> distinct (ksizes h' i) \<and> set (ksizes h' i) = {y \<in> set xs. z_blocksz (zones h y) = 2 ^ i \<and> (F(z := fs)) y \<noteq> []}"
    and u: "distinct (kused h')" "set (kused h') = {y \<in> set xs. (F(z := fs)) y = []}"
  shows "kmalloc_ok (F(z := fs)) xs h'"
proof -
  note k = kmalloc_okD [OF ok] and d = same_zonesD [OF s]
  have "zone_wf h' (F(z := fs)) y" if "y \<in> set xs" for y using k(3) [OF that] o [OF that] f(1) by (cases "y = z") (simp_all add: zone_wf_def d)
  moreover have "set ((F(z := fs)) y) \<inter> set xs = {}" if "y \<in> set xs" for y using k(8) [OF that] f(2) by (cases "y = z") auto
  ultimately show ?thesis unfolding kmalloc_ok_def using k(1,2) l u by (simp add: d)
qed

lemma move_to_used:
  assumes ok: "kmalloc_ok F xs h" and i: "i < nsizes" and z: "z \<in> set xs" "z_blocksz (zones h z) = 2 ^ i" "F z \<noteq> []"
    and l: "ksizes h' = (if fs = [] then (ksizes h)(i := LIST_REMOVE (ksizes h i) z) else ksizes h)"
    and u: "kused h' = (if fs = [] then LIST_ADD (kused h) z else kused h)"
  shows "j < nsizes \<Longrightarrow> distinct (ksizes h' j) \<and> set (ksizes h' j) = {y \<in> set xs. z_blocksz (zones h y) = 2 ^ j \<and> (F(z := fs)) y \<noteq> []}"
    and "distinct (kused h')" and "set (kused h') = {y \<in> set xs. (F(z := fs)) y = []}"
proof -
  note k = kmalloc_okD [OF ok]
  show "distinct (ksizes h' j) \<and> set (ksizes h' j) = {y \<in> set xs. z_blocksz (zones h y) = 2 ^ j \<and> (F(z := fs)) y \<noteq> []}" if "j < nsizes"
    using k(4,5) [OF that] k(4,5) [OF i] z by (auto simp: l LIST_REMOVE_def)
  have "z \<notin> set (kused h)" using k(7) z(3) by auto
  then show "distinct (kused h')" "set (kused h') = {y \<in> set xs. (F(z := fs)) y = []}" using k(6,7) z by (auto simp: u)
qed

lemma kmalloc_alloc_ok:
  assumes ok: "kmalloc_ok F xs h" and i: "i < nsizes" and z: "ksizes h i = z # zs" and a: "kmalloc_alloc hdr i h = (h', b)"
  shows "z \<in> set xs" and "z_blocksz (zones h z) = 2 ^ i" and "F z = b # tl (F z)" and "b \<noteq> NULL" and "kmalloc_ok (F(z := tl (F z))) xs h'" and "same_zones h h'"
proof -
  note k = kmalloc_okD [OF ok]
  have zs: "z \<in> set xs" "z_blocksz (zones h z) = 2 ^ i" "F z \<noteq> []" using k(5) [OF i] z by auto
  then show "z \<in> set xs" "z_blocksz (zones h z) = 2 ^ i" by simp_all
  obtain c cs where F: "F z = c # cs" using zs(3) by (cases "F z") auto
  obtain h1 b1 ph where v: "vm_zalloc z h = (h1, b1, ph)" by (metis prod_cases3)
  have f: "zone_free h z (c # cs)" using k(3) [OF zs(1)] F by (simp add: zone_wf_def)
  note za = zalloc_free [OF f v] and hd = zone_free_head [OF f]
  have h1: "h1 = upd_zone z (\<lambda>x. x\<lparr>z_first := words h (z_first (zones h z)), z_used := z_used x + 1\<rparr>) h"
    using v f by (auto simp: vm_zalloc_def zone_free_def Let_def split: if_splits)
  have full: "z_used (zones h1 z) = z_blocks (zones h1 z) \<longleftrightarrow> cs = []" using za(2) by (auto simp: zone_free_def Let_def)
  have lh: "list_head (ksizes h i) = z" by (simp add: z list_head_def)
  define h2 where "h2 = h1\<lparr>kallocsz := kallocsz h1 + 2 ^ i, hdrblocks := (if i = hdr then hdrblocks h1 - 1 else hdrblocks h1)\<rparr>"
  have h': "h' = (if cs = [] then h2\<lparr>ksizes := (ksizes h)(i := LIST_REMOVE (ksizes h i) z), kused := LIST_ADD (kused h) z\<rparr> else h2)" and b: "b = c"
    using a v full hd lh by (auto simp: kmalloc_alloc_def za(1) Let_def h2_def h1 upd_zone_def split: if_splits)
  show "F z = b # tl (F z)" "b \<noteq> NULL" using F b hd by simp_all
  show s: "same_zones h h'" by (simp add: same_zones_def h' h2_def h1 upd_zone_def)
  have zf: "zone_free h' y fs = zone_free h1 y fs" for y fs by (simp add: zone_free_def h' h2_def Let_def)
  have l: "ksizes h' = (if cs = [] then (ksizes h)(i := LIST_REMOVE (ksizes h i) z) else ksizes h)" "kused h' = (if cs = [] then LIST_ADD (kused h) z else kused h)"
    by (simp_all add: h' h2_def h1 upd_zone_def)
  have o: "zone_free h' y (F y)" if "y \<in> set xs" "y \<noteq> z" for y
    using zone_free_other [of h y "F y" h1] k(3) [OF that(1)] za(3,4) that(2) by (simp add: zf zone_wf_def)
  have "zone_free h' z cs" "set cs \<inter> set xs = {}" using za(2) k(8) [OF zs(1)] F by (auto simp: zf)
  from kmalloc_ok_change [OF ok s zs(1) this o move_to_used [OF ok i zs l]] show "kmalloc_ok (F(z := tl (F z))) xs h'" by (simp add: F)
qed

section \<open>Giving a block back\<close>

lemma blocks_apart:
  assumes ok: "kmalloc_ok F xs h" and "y \<in> set xs" "z \<in> set xs" "y \<noteq> z" and b: "b \<in> zone_blocks (zones h y)"
  shows "b \<notin> zone_blocks (zones h z)"
proof
  assume b': "b \<in> zone_blocks (zones h z)"
  note k = kmalloc_okD [OF ok]
  have "zone_wf h F y" "zone_wf h F z" using k(3) assms(2,3) by auto
  then have "z_blocksz (zones h y) > 0" "z_blocksz (zones h z) > 0" by (auto simp: zone_wf_def)
  then show False using sorted_apart [OF k(2) assms(2-4)] zone_wf_bounds [OF k(3) [OF assms(2)] b] zone_wf_bounds [OF k(3) [OF assms(3)] b'] by linarith
qed

lemma move_from_used:
  assumes ok: "kmalloc_ok F xs h" and i: "i < nsizes" and z: "z \<in> set xs" "z_blocksz (zones h z) = 2 ^ i"
    and l: "ksizes h' = (if F z = [] then (ksizes h)(i := LIST_ADD (ksizes h i) z) else ksizes h)"
    and u: "kused h' = (if F z = [] then LIST_REMOVE (kused h) z else kused h)"
  shows "j < nsizes \<Longrightarrow> distinct (ksizes h' j) \<and> set (ksizes h' j) = {y \<in> set xs. z_blocksz (zones h y) = 2 ^ j \<and> (F(z := p # F z)) y \<noteq> []}"
    and "distinct (kused h')" and "set (kused h') = {y \<in> set xs. (F(z := p # F z)) y = []}"
proof -
  note k = kmalloc_okD [OF ok]
  show "distinct (ksizes h' j) \<and> set (ksizes h' j) = {y \<in> set xs. z_blocksz (zones h y) = 2 ^ j \<and> (F(z := p # F z)) y \<noteq> []}" if "j < nsizes"
    using k(4,5) [OF that] k(4,5) [OF i] z by (auto simp: l)
  show "distinct (kused h')" "set (kused h') = {y \<in> set xs. (F(z := p # F z)) y = []}"
    using k(6,7) z by (auto simp: u LIST_REMOVE_def)
qed

lemma kmalloc_free_ok:
  assumes ok: "kmalloc_ok F xs h" and z: "z \<in> set xs" and p: "p \<in> zone_blocks (zones h z)" "p \<notin> set (F z)" "p \<notin> set xs"
  shows "\<exists>h'. kmalloc_free hdr p h = Some (h', z) \<and> kmalloc_ok (F(z := p # F z)) xs h' \<and> same_zones h h'"
proof -
  note k = kmalloc_okD [OF ok]
  obtain i where i: "i < nsizes" "z_blocksz (zones h z) = 2 ^ i" and f: "zone_free h z (F z)" using k(3) [OF z] by (auto simp: zone_wf_def)
  have nz: "z \<noteq> NULL" using f by (simp add: zone_free_def Let_def)
  define h1 where "h1 = vm_zfree z p h"
  have f1: "zone_free h1 z (p # F z)" using zfree_free [OF f i(2) p(1,2)] by (simp add: h1_def)
  have h1: "h1 = h \<or> h1 = upd_zone z (\<lambda>x. x\<lparr>z_first := p, z_used := z_used x - 1\<rparr>) (store p (z_first (zones h z)) h)"
    by (simp add: h1_def vm_zfree_def Let_def)
  have "Suc (length (F z)) + z_used (zones h1 z) = z_blocks (zones h1 z)" using f1 by (simp add: zone_free_def Let_def)
  then have used: "z_used (zones h1 z) = z_blocks (zones h1 z) - 1 \<longleftrightarrow> F z = []" unfolding length_0_conv [symmetric] by linarith
  have same: "ksizes h1 = ksizes h" "kused h1 = kused h" "same_zones h h1" using h1 by (auto simp: same_zones_def upd_zone_def store_def)
  define h2 where "h2 = h1\<lparr>kallocsz := kallocsz h1 - z_blocksz (zones h1 z), hdrblocks := (if i = hdr then hdrblocks h1 + 1 else hdrblocks h1)\<rparr>"
  define h3 where "h3 = (if F z = [] then h2\<lparr>kused := LIST_REMOVE (kused h2) z, ksizes := (ksizes h2)(i := LIST_ADD (ksizes h2 i) z)\<rparr> else h2)"
  have r: "kmalloc_free hdr p h = Some (h3, z)"
    using used i(2) nz same_zonesD(5) [OF same(3), of z]
    by (auto simp: kmalloc_free_def kmalloc_find_zone [OF ok z p(1)] h1_def [symmetric] Let_def h2_def h3_def)
  have s: "same_zones h h3" using same(3) by (simp add: same_zones_def h3_def h2_def)
  have zf: "zone_free h3 y fs = zone_free h1 y fs" for y fs by (simp add: zone_free_def h3_def h2_def Let_def)
  have o: "zone_free h3 y (F y)" if "y \<in> set xs" "y \<noteq> z" for y
  proof -
    have fy: "zone_free h y (F y)" using k(3) [OF that(1)] by (simp add: zone_wf_def)
    then have "p \<notin> set (F y)" using blocks_apart [OF ok z that(1) _ p(1)] that(2) by (auto simp: zone_free_def Let_def)
    then have "words h1 a = words h a" if "a \<in> set (F y)" for a using h1 that by auto
    moreover have "zones h1 y = zones h y" using h1 that(2) by auto
    ultimately show ?thesis using zone_free_other [OF fy, of h1] by (simp add: zf)
  qed
  have l: "ksizes h3 = (if F z = [] then (ksizes h)(i := LIST_ADD (ksizes h i) z) else ksizes h)" "kused h3 = (if F z = [] then LIST_REMOVE (kused h) z else kused h)"
    by (simp_all add: h3_def h2_def same)
  have "zone_free h3 z (p # F z)" "set (p # F z) \<inter> set xs = {}" using f1 p(3) k(8) [OF z] by (auto simp: zf)
  from kmalloc_ok_change [OF ok s z this o move_from_used [OF ok i(1) z i(2) l]] show ?thesis using r s by blast
qed

section \<open>Adding a zone\<close>

text \<open>An address range away from all zones and their headers, as \<open>vm_mmap\<close> returns.\<close>

definition apart :: "addr \<Rightarrow> nat \<Rightarrow> addr list \<Rightarrow> 'a kheap_scheme \<Rightarrow> bool" where
  "apart a n xs h \<longleftrightarrow> (\<forall>z \<in> set xs. (a + n \<le> z_vaddr (zones h z) \<or> zone_end (zones h z) \<le> a) \<and> \<not> (a \<le> z \<and> z < a + n))"

definition zone_bytes :: "nat \<Rightarrow> nat \<Rightarrow> 'a kheap_scheme \<Rightarrow> nat" where
  "zone_bytes hdridx idx h = max (if idx = hdridx then zonehdrs h else 1) (SIZE_PAGE div 2 ^ idx) * 2 ^ idx"

definition mapped :: "addr \<Rightarrow> nat \<Rightarrow> nat set" where
  "mapped va n = (if va = NULL then {} else {va..<va + n})"

lemma ok_other_fields:
  "kmalloc_ok F xs (h\<lparr>hdrblocks := n\<rparr>) = kmalloc_ok F xs h" "kmalloc_ok F xs (h\<lparr>kallocsz := n\<rparr>) = kmalloc_ok F xs h"
  "in_use F xs (h\<lparr>hdrblocks := n\<rparr>) = in_use F xs h" "apart a k xs (h\<lparr>hdrblocks := n\<rparr>) = apart a k xs h"
  by (simp_all add: kmalloc_ok_def zone_wf_def zone_free_def in_use_def apart_def)

lemma fold_store_fields:
  "ksizes (fold (\<lambda>i. store (f i) (g i)) is h) = ksizes h" "kused (fold (\<lambda>i. store (f i) (g i)) is h) = kused h"
  "ktree (fold (\<lambda>i. store (f i) (g i)) is h) = ktree h" "zonehdrs (fold (\<lambda>i. store (f i) (g i)) is h) = zonehdrs h"
  by (induction "is" arbitrary: h) (simp_all add: store_def)

lemma zoneCreate_fields:
  assumes "vm_zoneCreate va z sz n h = Some (h', e)"
  shows "ksizes h' = ksizes h" and "kused h' = kused h" and "ktree h' = ktree h" and "zonehdrs h' = zonehdrs h" and "y \<noteq> z \<Longrightarrow> zones h' y = zones h y"
    and "e < 0 \<or> e = EOK" and "e < 0 \<Longrightarrow> words h' = words h" and "e = EOK \<Longrightarrow> n > 0 \<and> sz > 0 \<and> va \<noteq> NULL"
  using assms
  by (auto simp: vm_zoneCreate_def upd_zone_def zone_chain_def fold_store_fields chain_loop_frame store_def split: if_splits prod.splits option.splits)

text \<open>The order of the tree is that of the addresses.\<close>

lemma ordered_insert_cong: "(\<And>a. a \<in> set xs \<Longrightarrow> c a z < 0 \<longleftrightarrow> d a z < 0) \<Longrightarrow> ordered_insert c z xs = ordered_insert d z xs"
  unfolding ordered_insert_def by (metis (mono_tags, lifting) dropWhile_cong takeWhile_cong)

lemma sorted_zones:
  assumes "sorted_wrt (\<lambda>a b. v a < (v b :: int)) xs" and "\<And>a b. a \<in> set xs \<Longrightarrow> b \<in> set xs \<Longrightarrow> v a < v b \<Longrightarrow> P a b"
  shows "sorted_wrt P xs"
  using assms by (induction xs) auto

text \<open>A new zone at an address range away from the others joins the lists and the tree.\<close>

lemma tree_insert_zone:
  assumes T: "rb_nodes t xs" and s: "sorted_wrt (\<lambda>a b. zone_end (Z a) \<le> z_vaddr (Z b)) xs" and ne: "\<And>a. a \<in> set xs \<Longrightarrow> z_vaddr (Z a) < zone_end (Z a)"
    and z: "z \<noteq> NULL" "z \<notin> set xs" "z_vaddr (Z z) < zone_end (Z z)"
    and ap: "\<And>a. a \<in> set xs \<Longrightarrow> zone_end (Z z) \<le> z_vaddr (Z a) \<or> zone_end (Z a) \<le> z_vaddr (Z z)"
  obtains t' ys where "lib_rbInsert no_augment (\<lambda>a b. kmalloc_zone_cmp (Z a) (Z b)) z t = Some (t', EOK)" and "rb_nodes t' ys"
    and "set ys = insert z (set xs)" and "sorted_wrt (\<lambda>a b. zone_end (Z a) \<le> z_vaddr (Z b)) ys"
proof -
  let ?c = "\<lambda>a b. kmalloc_zone_cmp (Z a) (Z b)" and ?key = "\<lambda>a. int (z_vaddr (Z a))"
  have c: "?c a z = (if z_vaddr (Z a) < z_vaddr (Z z) then -1 else 1)" if "a \<in> set xs" for a
    using cmp_apart [OF ne [OF that] z(3)] ap [OF that] by blast
  have nz: "?c a z \<noteq> 0" if "a \<in> set xs" for a using c [OF that] by simp
  have "?c a z < 0 \<or> ?c b z > 0" if "a \<in> set xs" "b \<in> set xs" "zone_end (Z a) \<le> z_vaddr (Z b)" for a b
    using ne [OF that(1)] that(3) by (auto simp: c [OF that(1)] c [OF that(2)])
  then have cut: "search_cut ?c z xs" by (rule cut_mono [OF s])
  let ?ys = "ordered_insert ?c z xs"
  obtain t' where t': "lib_rbInsert no_augment ?c z t = Some (t', EOK)" "rb_nodes t' ?ys" using plain.insert_new [OF T cut nz z(1,2)] by blast
  have "?ys = ordered_insert (key_compare ?key) z xs" by (rule ordered_insert_cong) (simp add: c key_compare_def)
  moreover have "?key z \<notin> ?key ` set xs" using ap ne z(3) by fastforce
  moreover have "sorted_wrt (\<lambda>a b. ?key a < ?key b) xs"
    by (rule sorted_wrt_mono_rel [OF _ s]) (use ne in fastforce)
  ultimately have k: "sorted_wrt (\<lambda>a b. ?key a < ?key b) ?ys" using kc.key_ordered_insert by metis
  have "zone_end (Z a) \<le> z_vaddr (Z b)" if "a \<in> insert z (set xs)" "b \<in> insert z (set xs)" "?key a < ?key b" for a b
  proof -
    have "zone_end (Z a) \<le> z_vaddr (Z b) \<or> zone_end (Z b) \<le> z_vaddr (Z a)"
      using that sorted_apart [OF s, of a b] ap [of a] ap [of b] by auto
    moreover have "z_vaddr (Z b) < zone_end (Z b)" using that(2) ne z(3) by auto
    ultimately show ?thesis using that(3) by linarith
  qed
  then have "sorted_wrt (\<lambda>a b. zone_end (Z a) \<le> z_vaddr (Z b)) ?ys" by (intro sorted_zones [OF k]) auto
  then show thesis using that t' by simp
qed

lemma all_blocks_set: "set (all_blocks va sz n) = (\<lambda>i. va + i * sz) ` {..<n}"
  by (auto simp: all_blocks_def)

lemma all_blocks_range: "b \<in> set (all_blocks va sz n) \<Longrightarrow> sz > 0 \<Longrightarrow> va \<le> b \<and> b < va + n * sz"
  by (auto simp: all_blocks_set)

lemma new_zone_ok:
  assumes ok: "kmalloc_ok F xs h" and i: "i < nsizes" and nz: "nz \<noteq> NULL" "nz \<notin> set xs" "\<And>z. z \<in> set xs \<Longrightarrow> nz \<notin> set (F z)"
    and c: "vm_zoneCreate va nz (2 ^ i) n h = Some (h1, EOK)" and va: "va \<ge> 2 ^ i" "apart va (n * 2 ^ i) xs h" and nv: "\<not> (va \<le> nz \<and> nz < va + n * 2 ^ i)"
    and t: "kmalloc_tree_insert nz (h1\<lparr>ksizes := (ksizes h1)(i := LIST_ADD (ksizes h1 i) nz)\<rparr>) = Some h2"
  shows "\<exists>ys. kmalloc_ok (F(nz := all_blocks va (2 ^ i) n)) ys h2 \<and> set ys = insert nz (set xs)" and "nz \<in> set (ksizes h2 i)"
    and "\<And>z. z \<noteq> nz \<Longrightarrow> zones h2 z = zones h z" and "z_vaddr (zones h2 nz) = va" and "zone_end (zones h2 nz) = va + n * 2 ^ i"
    and "zone_blocks (zones h2 nz) = set (all_blocks va (2 ^ i) n)"
proof -
  note k = kmalloc_okD [OF ok] and cf = zoneCreate_free [OF c nz(1) va(1)] and ff = zoneCreate_fields [OF c]
  let ?G = "F(nz := all_blocks va (2 ^ i) n)"
  have n: "n > 0" using ff(8) by simp
  have e: "zone_end (zones h1 nz) = va + n * 2 ^ i" using cf by (simp add: zone_end_def)
  have zx: "zones h1 a = zones h a" if "a \<in> set xs" for a using ff(5) [of a] nz(2) that by metis
  have ne: "z_vaddr (zones h1 a) < zone_end (zones h1 a)" if "a \<in> set xs" for a
    using zone_wf_nonempty [OF k(3) [OF that]] zx [OF that] by simp
  have ap: "zone_end (zones h1 nz) \<le> z_vaddr (zones h1 a) \<or> zone_end (zones h1 a) \<le> z_vaddr (zones h1 nz)" if "a \<in> set xs" for a
    using va(2) zx [OF that] that cf(3) e by (auto simp: apart_def)
  have z: "z_vaddr (zones h1 nz) < zone_end (zones h1 nz)" using e cf(3) n by simp
  have s: "sorted_wrt (\<lambda>a b. zone_end (zones h1 a) \<le> z_vaddr (zones h1 b)) xs"
    by (rule sorted_wrt_mono_rel [OF _ k(2)]) (use ff(5) nz(2) in \<open>metis order_refl\<close>)
  obtain t' ys where ys: "lib_rbInsert no_augment (\<lambda>a b. kmalloc_zone_cmp (zones h1 a) (zones h1 b)) nz (ktree h) = Some (t', EOK)"
      "rb_nodes t' ys" "set ys = insert nz (set xs)" "sorted_wrt (\<lambda>a b. zone_end (zones h1 a) \<le> z_vaddr (zones h1 b)) ys"
    using tree_insert_zone [OF k(1) s ne nz(1,2) z ap] .
  have h2: "h2 = h1\<lparr>ksizes := (ksizes h)(i := LIST_ADD (ksizes h i) nz), ktree := t'\<rparr>"
    using t ys(1) by (simp add: kmalloc_tree_insert_def ff)
  show "nz \<in> set (ksizes h2 i)" "z_vaddr (zones h2 nz) = va" "zone_end (zones h2 nz) = va + n * 2 ^ i" "zone_blocks (zones h2 nz) = set (all_blocks va (2 ^ i) n)"
    "\<And>z. z \<noteq> nz \<Longrightarrow> zones h2 z = zones h z" using cf ff(5) e by (auto simp: h2 zone_blocks_def all_blocks_set)
  note zo = this(5)
  have bs: "z_blocksz (zones h2 nz) = 2 ^ i" "z_blocks (zones h2 nz) = n" using cf by (simp_all add: h2)
  have ab: "all_blocks va (2 ^ i) n \<noteq> []" using n by (simp add: all_blocks_def)
  have "zone_wf h2 ?G y" if "y \<in> set ys" for y
  proof (cases "y = nz")
    case True
    have "zone_free h2 nz (all_blocks va (2 ^ i) n)" using cf(1) by (simp add: h2 zone_free_def Let_def)
    then show ?thesis using True bs n i by (auto simp: zone_wf_def)
  next
    case False
    then have y: "y \<in> set xs" using that ys(3) by simp
    have fy: "zone_free h y (F y)" using k(3) [OF y] by (simp add: zone_wf_def)
    have "a \<notin> set (all_blocks va (2 ^ i) n)" if "a \<in> set (F y)" for a
    proof -
      have "a \<in> zone_blocks (zones h y)" using fy that by (auto simp: zone_free_def Let_def)
      from zone_wf_bounds [OF k(3) [OF y] this] show ?thesis
        using all_blocks_range [of a va "2 ^ i" n] va(2) y fy by (fastforce simp: apart_def zone_free_def Let_def)
    qed
    then have "zone_free h1 y (F y)" using zone_free_other [OF fy] cf(5,6) False by metis
    then have "zone_free h2 y (F y)" by (simp add: h2 zone_free_def Let_def)
    then show ?thesis using k(3) [OF y] False zo [OF False] by (simp add: zone_wf_def)
  qed
  moreover have "distinct (ksizes h2 j) \<and> set (ksizes h2 j) = {z \<in> set ys. z_blocksz (zones h2 z) = 2 ^ j \<and> ?G z \<noteq> []}" if "j < nsizes" for j
  proof -
    have "z \<in> set xs \<Longrightarrow> zones h2 z = zones h z \<and> z \<noteq> nz" for z using zo nz(2) by metis
    then show ?thesis using k(4,5) [OF that] k(5) [OF i] nz(2) ys(3) bs(1) ab by (auto simp: h2)
  qed
  moreover have "distinct (kused h2)" "set (kused h2) = {z \<in> set ys. ?G z = []}" using k(6,7) ys(3) ab nz(2) by (auto simp: h2 ff(2))
  moreover have "set (?G y) \<inter> set ys = {}" if "y \<in> set ys" for y
  proof (cases "y = nz")
    case True
    have "b \<notin> set ys" if "b \<in> set (all_blocks va (2 ^ i) n)" for b
      using all_blocks_range [OF that] va(2) nv ys(3) by (auto simp: apart_def)
    then show ?thesis using True by auto
  next
    case False
    then show ?thesis using that k(8) [of y] nz(3) [of y] ys(3) by auto
  qed
  moreover have "rb_nodes (ktree h2) ys" "sorted_wrt (\<lambda>a b. zone_end (zones h2 a) \<le> z_vaddr (zones h2 b)) ys" using ys(2,4) by (simp_all add: h2)
  ultimately have "kmalloc_ok ?G ys h2" unfolding kmalloc_ok_def by blast
  then show "\<exists>ys. kmalloc_ok ?G ys h2 \<and> set ys = insert nz (set xs)" using ys(3) by blast
qed

lemma in_use_mono:
  assumes "set xs \<subseteq> set ys" and "\<And>z. z \<in> set xs \<Longrightarrow> zone_blocks (zones h' z) = zone_blocks (zones h z) \<and> z_blocksz (zones h' z) = z_blocksz (zones h z) \<and> set (F' z) \<subseteq> set (F z)"
  shows "in_use F xs h \<subseteq> in_use F' ys h'"
  using assms unfolding in_use_def by fastforce

lemma ok_header_changed:
  assumes ok: "kmalloc_ok F xs h" and nz: "nz \<notin> set xs" and c: "vm_zoneCreate va nz sz n h = Some (h', e)" "e < 0"
  shows "kmalloc_ok F xs h'"
proof -
  note k = kmalloc_okD [OF ok] and ff = zoneCreate_fields [OF c(1)]
  have zx: "zones h' a = zones h a" if "a \<in> set xs" for a using ff(5) [of a] nz that by metis
  have "zone_wf h' F y" if "y \<in> set xs" for y
    using k(3) [OF that] zx [OF that] zone_free_other [of h y "F y" h'] ff(7) [OF c(2)] by (simp add: zone_wf_def)
  moreover have "sorted_wrt (\<lambda>a b. zone_end (zones h' a) \<le> z_vaddr (zones h' b)) xs"
    by (rule sorted_wrt_mono_rel [OF _ k(2)]) (simp add: zx)
  moreover have "{z \<in> set xs. z_blocksz (zones h' z) = 2 ^ i \<and> F z \<noteq> []} = {z \<in> set xs. z_blocksz (zones h z) = 2 ^ i \<and> F z \<noteq> []}" for i
    using zx by auto
  ultimately show ?thesis unfolding kmalloc_ok_def ff(1-3) using k(1,4-8) by auto
qed

text \<open>What a step of the allocator leaves for the next one: nothing in use is lost and other fresh ranges stay apart.\<close>

definition extends :: "nat set \<Rightarrow> (addr \<Rightarrow> addr list) \<Rightarrow> addr list \<Rightarrow> 'a kheap_scheme \<Rightarrow> (addr \<Rightarrow> addr list) \<Rightarrow> addr list \<Rightarrow> 'a kheap_scheme \<Rightarrow> bool" where
  "extends R F xs h F' ys h' \<longleftrightarrow> kmalloc_ok F' ys h' \<and> in_use F xs h \<subseteq> in_use F' ys h' \<and> zonehdrs h' = zonehdrs h \<and>
     (\<forall>a n. n > 0 \<and> apart a n xs h \<and> {a..<a + n} \<inter> R = {} \<longrightarrow> apart a n ys h')"

lemma extends_hdrblocks: "extends R F xs h F' ys (h'\<lparr>hdrblocks := n\<rparr>) = extends R F xs h F' ys h'"
  by (simp add: extends_def ok_other_fields)

lemma extends_same: "kmalloc_ok F xs h \<Longrightarrow> extends R F xs h F xs h"
  by (simp add: extends_def)

lemma header_taken:
  assumes ok: "kmalloc_ok F xs h" and hdr: "hdr < nsizes" and a: "kmalloc_alloc hdr hdr h = (h0, nz)" "nz \<noteq> NULL"
  obtains z where "z \<in> set xs" and "F z = nz # tl (F z)" and "kmalloc_ok (F(z := tl (F z))) xs h0" and "same_zones h h0" and "nz \<notin> set xs"
    and "\<And>y. y \<in> set xs \<Longrightarrow> nz \<notin> set ((F(z := tl (F z))) y)" and "nz \<in> zone_blocks (zones h z)"
proof -
  obtain z zs where z: "ksizes h hdr = z # zs" using a kmalloc_alloc_none [of h hdr hdr] by (cases "ksizes h hdr") auto
  note t = kmalloc_alloc_ok [OF ok hdr z a(1)] and k = kmalloc_okD [OF ok]
  have f: "zone_free h y (F y)" if "y \<in> set xs" for y using k(3) [OF that] by (simp add: zone_wf_def)
  have nz: "nz \<in> zone_blocks (zones h z)" "nz \<notin> set (tl (F z))" using zone_free_head [of h z nz "tl (F z)"] f [OF t(1)] t(3) by auto
  have "nz \<notin> set (F y)" if "y \<in> set xs" "y \<noteq> z" for y
    using blocks_apart [OF ok t(1) that(1) _ nz(1)] that(2) f [OF that(1)] by (auto simp: zone_free_def Let_def)
  then have "nz \<notin> set ((F(z := tl (F z))) y)" if "y \<in> set xs" for y using nz(2) that by (cases "y = z") auto
  moreover have "nz \<notin> set xs" using k(8) [OF t(1), of nz] t(3) by (metis list.set_intros(1))
  ultimately show thesis using that [of z] t nz(1) by metis
qed

lemma addZone_fails:
  assumes ok: "kmalloc_ok F xs h" and z: "z \<in> set xs" "F z = nz # tl (F z)" "nz \<notin> set xs" "nz \<in> zone_blocks (zones h z)" "nz \<notin> set (tl (F z))"
    and h0: "kmalloc_ok (F(z := tl (F z))) xs h0" "same_zones h h0" and c: "vm_zoneCreate va nz sz n h0 = Some (h1, e)" "e < 0"
  shows "\<exists>h'. kmalloc_free hdr nz h1 = Some (h', z) \<and> extends {} F xs h F xs h'"
proof -
  note ff = zoneCreate_fields [OF c(1)] and d = same_zonesD [OF h0(2)]
  have ok1: "kmalloc_ok (F(z := tl (F z))) xs h1" by (rule ok_header_changed [OF h0(1) z(3) c])
  have zx: "zones h1 a = zones h0 a" if "a \<in> set xs" for a using ff(5) [of a] z(3) that by metis
  have "nz \<in> zone_blocks (zones h1 z)" using zx [OF z(1)] d z(4) by simp
  then obtain h' where h': "kmalloc_free hdr nz h1 = Some (h', z)" "kmalloc_ok ((F(z := tl (F z)))(z := nz # tl (F z))) xs h'" "same_zones h1 h'"
    using kmalloc_free_ok [OF ok1 z(1) _ _ z(3), of hdr] z(5) by auto
  have F: "(F(z := tl (F z)))(z := nz # tl (F z)) = F" using z(2) by auto
  note d' = same_zonesD [OF h'(3)]
  have "zone_blocks (zones h' y) = zone_blocks (zones h y)" "z_blocksz (zones h' y) = z_blocksz (zones h y)"
    "z_vaddr (zones h' y) = z_vaddr (zones h y)" "zone_end (zones h' y) = zone_end (zones h y)" if "y \<in> set xs" for y
    using zx [OF that] d d' by (simp_all add: zone_end_def)
  then have "extends {} F xs h F xs h'" unfolding extends_def using h'(2) F in_use_mono [of xs xs h' h F F] ff(4) d(7) d'(7)
    by (auto simp: apart_def)
  then show ?thesis using h'(1) by blast
qed

lemma disjoint_ranges: "{a..<a + m} \<inter> {b..<b + n} = {} \<Longrightarrow> 0 < m \<Longrightarrow> 0 < n \<Longrightarrow> a + m \<le> b \<or> b + n \<le> (a :: nat)"
  using IntI [of "max a b" "{a..<a + m}" "{b..<b + n}"] by fastforce

lemma addZone_succeeds:
  assumes ok: "kmalloc_ok F xs h" and i: "i < nsizes" and z: "z \<in> set xs" "F z = nz # tl (F z)" "nz \<notin> set xs" "nz \<in> zone_blocks (zones h z)"
      "\<And>y. y \<in> set xs \<Longrightarrow> nz \<notin> set ((F(z := tl (F z))) y)" "nz \<noteq> NULL"
    and h0: "kmalloc_ok (F(z := tl (F z))) xs h0" "same_zones h h0" and c: "vm_zoneCreate va nz (2 ^ i) n h0 = Some (h1, EOK)"
    and va: "va \<ge> 2 ^ i" "apart va (n * 2 ^ i) xs h"
    and t: "kmalloc_tree_insert nz (h1\<lparr>ksizes := (ksizes h1)(i := LIST_ADD (ksizes h1 i) nz)\<rparr>) = Some h2"
  shows "\<exists>F' ys. extends {va..<va + n * 2 ^ i} F xs h F' ys h2 \<and> ksizes h2 i \<noteq> []"
proof -
  note k = kmalloc_okD [OF ok] and d = same_zonesD [OF h0(2)]
  have r: "z_vaddr (zones h z) \<le> nz" "nz < zone_end (zones h z)"
    using zone_wf_bounds [OF k(3) [OF z(1)] z(4)] k(3) [OF z(1)] by (auto simp: zone_wf_def zone_free_def Let_def)
  have nv: "\<not> (va \<le> nz \<and> nz < va + n * 2 ^ i)" using va(2) z(1) r by (auto simp: apart_def)
  have va0: "apart va (n * 2 ^ i) xs h0" using va(2) by (simp add: apart_def d)
  let ?G = "F(z := tl (F z), nz := all_blocks va (2 ^ i) n)"
  note w = new_zone_ok [OF h0(1) i z(6,3,5) c va(1) va0 nv t]
  obtain ys where ys: "kmalloc_ok ?G ys h2" "set ys = insert nz (set xs)" using w(1) by blast
  have zx: "zones h2 y = zones h0 y" "y \<noteq> nz" if "y \<in> set xs" for y using w(3) [of y] z(3) that by metis+
  have "set (tl (F z)) \<subseteq> set (F z)" using z(2) by (metis set_subset_Cons)
  then have "in_use F xs h \<subseteq> in_use ?G ys h2" using ys(2) by (intro in_use_mono) (auto simp: zx d)
  moreover have "zonehdrs h2 = zonehdrs h" using t zoneCreate_fields(4) [OF c] d(7) by (auto simp: kmalloc_tree_insert_def)
  moreover have "apart a m ys h2" if a: "m > 0" "apart a m xs h" "{a..<a + m} \<inter> {va..<va + n * 2 ^ i} = {}" for a m
  proof -
    have "n * 2 ^ i > 0" using zoneCreate_fields(8) [OF c] by simp
    then have "a + m \<le> va \<or> va + n * 2 ^ i \<le> a" using a(1,3) disjoint_ranges by blast
    moreover have "\<not> (a \<le> nz \<and> nz < a + m)" using a(2) z(1) r by (auto simp: apart_def)
    moreover have "(a + m \<le> z_vaddr (zones h2 y) \<or> zone_end (zones h2 y) \<le> a) \<and> \<not> (a \<le> y \<and> y < a + m)" if "y \<in> set xs" for y
      using a(2) that by (simp add: apart_def zx d)
    ultimately show ?thesis using ys(2) w(4,5) by (simp add: apart_def)
  qed
  ultimately show ?thesis using ys(1) w(2) unfolding extends_def by (intro exI [of _ ?G] exI [of _ ys]) auto
qed

lemma addZone_ok:
  assumes ok: "kmalloc_ok F xs h" and i: "i < nsizes" "hdr < nsizes" and va: "va = NULL \<or> va \<ge> 2 ^ i \<and> apart va (zone_bytes hdr i h) xs h"
    and r: "kmalloc_addZone va hdr i h = Some (h', e)"
  shows "\<exists>F' ys. extends (mapped va (zone_bytes hdr i h)) F xs h F' ys h' \<and> (e = EOK \<and> ksizes h' i \<noteq> [] \<or> e < 0)"
proof -
  obtain h0 nz where a: "kmalloc_alloc hdr hdr h = (h0, nz)" by fastforce
  show ?thesis
  proof (cases "nz = NULL")
    case True
    have "ksizes h hdr = []"
    proof (rule ccontr)
      assume "ksizes h hdr \<noteq> []"
      then obtain z zs where "ksizes h hdr = z # zs" by (cases "ksizes h hdr") auto
      from kmalloc_alloc_ok(4) [OF ok i(2) this a] True show False by simp
    qed
    then have "h' = h" "e = - ENOMEM" using r a True kmalloc_alloc_none [of h hdr hdr] by (auto simp: kmalloc_addZone_def)
    then show ?thesis using ok by (intro exI [of _ F] exI [of _ xs]) (simp add: extends_def)
  next
    case False
    obtain z where z: "z \<in> set xs" "F z = nz # tl (F z)" "kmalloc_ok (F(z := tl (F z))) xs h0" "same_zones h h0" "nz \<notin> set xs"
        "\<And>y. y \<in> set xs \<Longrightarrow> nz \<notin> set ((F(z := tl (F z))) y)" "nz \<in> zone_blocks (zones h z)"
      using header_taken [OF ok i(2) a False] by metis
    define n where "n = max (if i = hdr then zonehdrs h else 1) (SIZE_PAGE div 2 ^ i)"
    have zb: "zone_bytes hdr i h = n * 2 ^ i" by (simp add: zone_bytes_def n_def)
    have nh: "max (if i = hdr then zonehdrs h0 else 1) (SIZE_PAGE div 2 ^ i) = n" using same_zonesD(7) [OF z(4)] by (simp add: n_def)
    obtain h1 e1 where c: "vm_zoneCreate va nz (2 ^ i) n h0 = Some (h1, e1)" using r a False nh by (auto simp: kmalloc_addZone_def split: option.splits)
    show ?thesis
    proof (cases "e1 < 0")
      case True
      have "nz \<notin> set (tl (F z))" using z(6) [OF z(1)] by simp
      from addZone_fails [OF ok z(1,2,5,7) this z(3,4) c True, of hdr] obtain h2 where h2: "kmalloc_free hdr nz h1 = Some (h2, z)" "extends {} F xs h F xs h2" by blast
      then have "h' = h2" "e = - ENOMEM" using r a False nh c True by (auto simp: kmalloc_addZone_def)
      then show ?thesis using h2(2) unfolding extends_def by (intro exI [of _ F] exI [of _ xs]) auto
    next
      case f: False
      then have c0: "vm_zoneCreate va nz (2 ^ i) n h0 = Some (h1, EOK)" using c zoneCreate_fields(6) [OF c] by auto
      then have v: "va \<ge> 2 ^ i" "apart va (n * 2 ^ i) xs h" using va zoneCreate_fields(8) [OF c0] zb by auto
      obtain h2 where t: "kmalloc_tree_insert nz (h1\<lparr>ksizes := (ksizes h1)(i := LIST_ADD (ksizes h1 i) nz)\<rparr>) = Some h2"
        and h': "h' = (if i = hdr then h2\<lparr>hdrblocks := hdrblocks h2 + z_blocks (zones h2 nz)\<rparr> else h2)" "e = EOK"
        using r a False nh c0 by (auto simp: kmalloc_addZone_def)
      from addZone_succeeds [OF ok i(1) z(1,2,5,7,6) False z(3,4) c0 v t] obtain F' ys where
        w: "extends {va..<va + n * 2 ^ i} F xs h F' ys h2" "ksizes h2 i \<noteq> []" by blast
      then have "extends {va..<va + n * 2 ^ i} F xs h F' ys h'" "ksizes h' i \<noteq> []" by (auto simp: h' extends_hdrblocks)
      then show ?thesis using h'(2) zb zoneCreate_fields(8) [OF c0] by (auto simp: mapped_def)
    qed
  qed
qed

section \<open>Free blocks and blocks in use\<close>

lemma free_block_apart:
  assumes ok: "kmalloc_ok F xs h" and z: "z \<in> set xs" "b \<in> set (F z)" and c: "(c, n) \<in> in_use F xs h"
  shows "{b..<b + z_blocksz (zones h z)} \<inter> {c..<c + n} = {}"
proof -
  note k = kmalloc_okD [OF ok]
  obtain w where w: "w \<in> set xs" "c \<in> zone_blocks (zones h w)" "c \<notin> set (F w)" "n = z_blocksz (zones h w)" using c by (auto simp: in_use_def)
  have b: "b \<in> zone_blocks (zones h z)" using k(3) [OF z(1)] z(2) by (auto simp: zone_wf_def zone_free_def Let_def)
  show ?thesis
  proof (cases "w = z")
    case True
    let ?s = "z_blocksz (zones h z)"
    obtain i j where ij: "b = z_vaddr (zones h z) + i * ?s" "c = z_vaddr (zones h z) + j * ?s" using b w(2) True by (auto simp: zone_blocks_def)
    have "i \<noteq> j" using ij z(2) w(3) True by auto
    then consider "Suc i \<le> j" | "Suc j \<le> i" by linarith
    then have "b + ?s \<le> c \<or> c + ?s \<le> b"
    proof cases
      case 1
      then have "Suc i * ?s \<le> j * ?s" by (rule mult_le_mono1)
      then show ?thesis using ij by simp
    next
      case 2
      then have "Suc j * ?s \<le> i * ?s" by (rule mult_le_mono1)
      then show ?thesis using ij by simp
    qed
    then show ?thesis using w(4) True by auto
  next
    case False
    then have "zone_end (zones h w) \<le> z_vaddr (zones h z) \<or> zone_end (zones h z) \<le> z_vaddr (zones h w)" using sorted_apart [OF k(2) w(1) z(1)] by simp
    then show ?thesis using zone_wf_bounds [OF k(3) [OF z(1)] b] zone_wf_bounds [OF k(3) [OF w(1)] w(2)] w(4) by auto
  qed
qed

lemma alloc_in_use:
  assumes ok: "kmalloc_ok F xs h" and i: "i < nsizes" and l: "ksizes h i \<noteq> []" and a: "kmalloc_alloc hdr i h = (h', b)"
  shows "\<exists>F'. kmalloc_ok F' xs h' \<and> in_use F xs h \<subseteq> in_use F' xs h' \<and> (b, 2 ^ i) \<in> in_use F' xs h' \<and>
    (\<forall>(c, m) \<in> in_use F xs h. {b..<b + 2 ^ i} \<inter> {c..<c + m} = {})"
proof -
  obtain z zs where z: "ksizes h i = z # zs" using l by (cases "ksizes h i") auto
  note t = kmalloc_alloc_ok [OF ok i z a] and k = kmalloc_okD [OF ok]
  note d = same_zonesD [OF t(6)]
  let ?G = "F(z := tl (F z))"
  have b: "b \<in> zone_blocks (zones h z)" "b \<notin> set (tl (F z))"
    using zone_free_head [of h z b "tl (F z)"] k(3) [OF t(1)] t(3) by (auto simp: zone_wf_def)
  have "set (tl (F z)) \<subseteq> set (F z)" using t(3) by (metis set_subset_Cons)
  then have "in_use F xs h \<subseteq> in_use ?G xs h'" by (intro in_use_mono) (auto simp: d)
  moreover have "(b, 2 ^ i) \<in> in_use ?G xs h'" using t(1,2) b by (auto simp: in_use_def d intro!: bexI [of _ z])
  moreover have "{b..<b + 2 ^ i} \<inter> {c..<c + m} = {}" if "(c, m) \<in> in_use F xs h" for c m
    using free_block_apart [OF ok t(1) _ that, of b] t(2,3) by (metis list.set_intros(1))
  ultimately show ?thesis using t(5) by blast
qed

text \<open>The two zones that \<open>vm_kmalloc\<close> may add before it takes a block.\<close>

lemma kmalloc_first:
  assumes "kmalloc_ok F xs h" and "va1 = NULL \<or> va1 \<ge> 64 \<and> apart va1 (zone_bytes 6 6 h) xs h"
    and "(if hdrblocks h = 1 then kmalloc_addZone va1 6 6 h else Some (h, EOK)) = Some (h1, e1)"
  shows "\<exists>F1 xs1. extends (mapped va1 (zone_bytes 6 6 h)) F xs h F1 xs1 h1"
proof (cases "hdrblocks h = 1")
  case True
  then show ?thesis using addZone_ok [OF assms(1), of 6 6 va1 h1 e1] assms(2,3) by (auto simp: nsizes_def)
next
  case False
  then show ?thesis using assms(1,3) extends_same by fastforce
qed

lemma list_head_NULL: "kmalloc_ok F xs h \<Longrightarrow> i < nsizes \<Longrightarrow> list_head (ksizes h i) = NULL \<longleftrightarrow> ksizes h i = []"
  using kmalloc_okD(3,5) [of F xs h] by (cases "ksizes h i") (fastforce simp: list_head_def zone_wf_def zone_free_def Let_def)+

lemma kmalloc_second:
  assumes s1: "extends (mapped va1 (zone_bytes 6 6 h)) F xs h F1 xs1 h1" and i: "i < nsizes"
    and r2: "(if e1 = 0 \<and> list_head (ksizes h1 i) = NULL then kmalloc_addZone va2 6 i h1 else Some (h1, e1)) = Some (h2, e2)"
    and va2: "va2 = NULL \<or> va2 \<ge> 2 ^ i \<and> apart va2 (zone_bytes 6 i h) xs h"
    and d: "mapped va1 (zone_bytes 6 6 h) \<inter> mapped va2 (zone_bytes 6 i h) = {}"
  shows "\<exists>F2 xs2. kmalloc_ok F2 xs2 h2 \<and> in_use F1 xs1 h1 \<subseteq> in_use F2 xs2 h2 \<and> (e2 = 0 \<longrightarrow> ksizes h2 i \<noteq> [])"
proof (cases "e1 = 0 \<and> list_head (ksizes h1 i) = NULL")
  case True
  have ok: "kmalloc_ok F1 xs1 h1" and zh: "zonehdrs h1 = zonehdrs h" using s1 by (auto simp: extends_def)
  have "zone_bytes 6 i h > 0" by (simp add: zone_bytes_def SIZE_PAGE_def less_max_iff_disj)
  moreover have "{va2..<va2 + zone_bytes 6 i h} \<inter> mapped va1 (zone_bytes 6 6 h) = {}" if "va2 \<noteq> NULL" using d that by (auto simp: mapped_def)
  moreover have "zone_bytes 6 i h1 = zone_bytes 6 i h" by (simp add: zone_bytes_def zh)
  ultimately have "va2 = NULL \<or> va2 \<ge> 2 ^ i \<and> apart va2 (zone_bytes 6 i h1) xs1 h1" using va2 s1 unfolding extends_def by auto
  from addZone_ok [OF ok i _ this] r2 True show ?thesis by (fastforce simp: nsizes_def extends_def)
next
  case False
  then have "h2 = h1" "e2 = e1" using r2 by auto
  moreover have "kmalloc_ok F1 xs1 h1" using s1 by (simp add: extends_def)
  ultimately show ?thesis using list_head_NULL [of F1 xs1 h1 i] i False by blast
qed

section \<open>Properties\<close>

text \<open>C5: A block that \<open>vm_kmalloc\<close> returns is at least as large as the request and lies apart from every block in use; the
  blocks in use before are still in use and the invariant of the allocator is kept, also when the call fails. \<open>vm_mmap\<close>
  is taken to return no address, or a range away from the zones.\<close>

theorem vm_kmalloc_correct:
  assumes "kmalloc_ok F xs h" and "vm_kmalloc va1 va2 sz h = Some (h', b)"
    and "va1 = NULL \<or> va1 \<ge> 64 \<and> apart va1 (zone_bytes 6 6 h) xs h"
    and "va2 = NULL \<or> va2 \<ge> 2 ^ size_index (max 16 sz) \<and> apart va2 (zone_bytes 6 (size_index (max 16 sz)) h) xs h"
    and "mapped va1 (zone_bytes 6 6 h) \<inter> mapped va2 (zone_bytes 6 (size_index (max 16 sz)) h) = {}"
  shows "\<exists>F' ys n. kmalloc_ok F' ys h' \<and> in_use F xs h \<subseteq> in_use F' ys h' \<and>
    (b \<noteq> NULL \<longrightarrow> sz \<le> n \<and> (b, n) \<in> in_use F' ys h' \<and> (\<forall>(c, m) \<in> in_use F xs h. {b..<b + n} \<inter> {c..<c + m} = {}))"
proof -
  have hdr: "size_index sizeof_zone = 6" by code_simp
  let ?i = "size_index (max 16 sz)"
  have sz: "(if sz < 16 then 16 else sz) = max 16 sz" by auto
  show ?thesis
  proof (cases "?i < nsizes")
    case False
    then have "h' = h" "b = NULL" using assms(2) by (auto simp: vm_kmalloc_def sz Let_def)
    then show ?thesis using assms(1) by blast
  next
    case i: True
    obtain h1 e1 where r1: "(if hdrblocks h = 1 then kmalloc_addZone va1 6 6 h else Some (h, EOK)) = Some (h1, e1)"
      using assms(2) i by (auto simp: vm_kmalloc_def sz hdr nsizes_def Let_def split: if_splits option.splits)
    obtain h2 e2 where r2: "(if e1 = 0 \<and> list_head (ksizes h1 ?i) = NULL then kmalloc_addZone va2 6 ?i h1 else Some (h1, e1)) = Some (h2, e2)"
      and r3: "(h', b) = (if e2 = 0 then kmalloc_alloc 6 ?i h2 else (h2, NULL))"
      using assms(2) i r1 by (auto simp: vm_kmalloc_def sz hdr nsizes_def Let_def split: if_splits option.splits)
    obtain F1 xs1 where s1: "extends (mapped va1 (zone_bytes 6 6 h)) F xs h F1 xs1 h1"
      using kmalloc_first [OF assms(1,3) r1] by blast
    obtain F2 xs2 where s2: "kmalloc_ok F2 xs2 h2" "in_use F1 xs1 h1 \<subseteq> in_use F2 xs2 h2" "e2 = 0 \<longrightarrow> ksizes h2 ?i \<noteq> []"
      using kmalloc_second [OF s1 i r2 assms(4,5)] by blast
    have u: "in_use F xs h \<subseteq> in_use F2 xs2 h2" using s1 s2(2) by (auto simp: extends_def)
    show ?thesis
    proof (cases "e2 = 0")
      case True
      have "sz \<le> 2 ^ ?i" using size_index_ge [of "max 16 sz"] by simp
      then show ?thesis using alloc_in_use [OF s2(1) i _ , of 6 h' b] s2(3) r3 True u by fastforce
    next
      case False
      then show ?thesis using r3 s2(1) u by auto
    qed
  qed
qed

text \<open>C25: Giving back a block in use that is no zone header finds its zone through the tree and takes exactly this block out
  of those in use.\<close>

theorem kmalloc_free_correct:
  assumes "kmalloc_ok F xs h" and "(p, n) \<in> in_use F xs h" and "p \<notin> set xs"
  shows "\<exists>h' z F'. kmalloc_free hdr p h = Some (h', z) \<and> kmalloc_ok F' xs h' \<and> in_use F' xs h' = in_use F xs h - {(p, n)}"
proof -
  obtain z where z: "z \<in> set xs" "p \<in> zone_blocks (zones h z)" "p \<notin> set (F z)" "n = z_blocksz (zones h z)" using assms(2) by (auto simp: in_use_def)
  obtain h' where h': "kmalloc_free hdr p h = Some (h', z)" "kmalloc_ok (F(z := p # F z)) xs h'" "same_zones h h'"
    using kmalloc_free_ok [OF assms(1) z(1-3) assms(3), of hdr] by blast
  note d = same_zonesD [OF h'(3)]
  have u: "y = z" if "y \<in> set xs" "p \<in> zone_blocks (zones h y)" for y using blocks_apart [OF assms(1) that(1) z(1) _ that(2)] z(2) by blast
  have e: "c \<in> zone_blocks (zones h y) - set ((F(z := p # F z)) y) \<longleftrightarrow> c \<in> zone_blocks (zones h y) - set (F y) \<and> c \<noteq> p" if "y \<in> set xs" for c y
    using u [OF that] by (cases "y = z") auto
  have "(c, m) \<in> in_use (F(z := p # F z)) xs h' \<longleftrightarrow> (c, m) \<in> in_use F xs h \<and> c \<noteq> p" for c m
    unfolding in_use_def mem_Collect_eq case_prod_conv d using e by blast
  moreover have "m = n" if "(p, m) \<in> in_use F xs h" for m using that u z(4) by (auto simp: in_use_def)
  ultimately have "in_use (F(z := p # F z)) xs h' = in_use F xs h - {(p, n)}" by auto
  then show ?thesis using h' by blast
qed

section \<open>The start\<close>

lemma kmalloc_init_ok:
  assumes i: "kmalloc_init va h = Some (h', e)" and c: "vm_zoneCreate va (firstzone h) 64 64
      (h\<lparr>ksizes := (\<lambda>i. if i < nsizes then [] else ksizes h i), kused := [], ktree := lib_rbInit (ktree h), zonehdrs := 16\<rparr>) = Some (h1, EOK)"
    and z: "firstzone h \<noteq> NULL" and va: "va \<ge> 64" "\<not> (va \<le> firstzone h \<and> firstzone h < va + 4096)"
  shows "\<exists>F. kmalloc_ok F [firstzone h] h' \<and> in_use F [firstzone h] h' = {}" and "hdrblocks h' = 64" and "zonehdrs h' = 16" and "z_vaddr (zones h' (firstzone h)) = va"
    and "zone_end (zones h' (firstzone h)) = va + 4096" and "ksizes h' 6 = [firstzone h]" and "zpool h' = zpool h1"
proof -
  let ?z = "firstzone h" and ?h = "h\<lparr>ksizes := (\<lambda>i. if i < nsizes then [] else ksizes h i), kused := [], ktree := lib_rbInit (ktree h), zonehdrs := 16\<rparr>"
  have hdr: "size_index sizeof_zone = 6" "max 16 (SIZE_PAGE div 2 ^ 6) = 64" "(2::nat) ^ 6 = 64" by (code_simp, simp_all add: SIZE_PAGE_def)
  have ok: "kmalloc_ok (\<lambda>_. []) [] ?h" using rb_nodes_init by (auto simp: kmalloc_ok_def)
  obtain h2 where t: "kmalloc_tree_insert ?z (h1\<lparr>ksizes := (ksizes h1)(6 := LIST_ADD (ksizes h1 6) ?z)\<rparr>) = Some h2" and h': "h' = h2\<lparr>kallocsz := 0, hdrblocks := z_blocks (zones h2 ?z)\<rparr>"
    using i c by (auto simp: kmalloc_init_def hdr nsizes_def Let_def SIZE_PAGE_def)
  have c': "vm_zoneCreate va ?z (2 ^ 6) 64 ?h = Some (h1, EOK)" using c by simp
  have p: "2 ^ 6 \<le> va" "apart va (64 * 2 ^ 6) [] ?h" "\<not> (va \<le> ?z \<and> ?z < va + 64 * 2 ^ 6)" "6 < nsizes" using va by (simp_all add: apart_def nsizes_def)
  note w = new_zone_ok [OF ok p(4) z _ _ c' p(1,2,3) t] and ff = zoneCreate_fields [OF c']
  let ?F = "(\<lambda>_. [])(?z := all_blocks va (2 ^ 6) 64)"
  obtain ys where ys: "kmalloc_ok ?F ys h2" "set ys = {?z}" using w(1) by auto
  have "ys = [?z]" using ys(2) rb_nodes_distinct [OF kmalloc_okD(1) [OF ys(1)]] by (cases ys) (auto simp: subset_singleton_iff)
  then have "kmalloc_ok ?F [?z] h'" using ys(1) by (simp add: h' ok_other_fields)
  moreover have "in_use ?F [?z] h' = {}" using w(6) by (simp add: in_use_def h')
  ultimately show "\<exists>F. kmalloc_ok F [?z] h' \<and> in_use F [?z] h' = {}" by blast
  have h2: "zones h2 = zones h1" "zonehdrs h2 = zonehdrs h1" "ksizes h2 = (ksizes h1)(6 := LIST_ADD (ksizes h1 6) ?z)" "zpool h2 = zpool h1"
    using t by (auto simp: kmalloc_tree_insert_def)
  show "hdrblocks h' = 64" using zoneCreate_free(4) [OF c' z p(1)] by (simp add: h' h2)
  show "zonehdrs h' = 16" "ksizes h' 6 = [?z]" "zpool h' = zpool h1" using ff by (simp_all add: h' h2 nsizes_def LIST_ADD_def)
  show "z_vaddr (zones h' ?z) = va" "zone_end (zones h' ?z) = va + 4096" using w(4,5) by (simp_all add: h' zone_end_def)
qed

section \<open>A concrete heap\<close>

definition demo_heap :: kheap where
  "demo_heap = zheap.extend demo_zheap (kheap.fields (\<lambda>_. []) []
     \<lparr>rb_root = NULL, rb_parent = (\<lambda>_. NULL), rb_left = (\<lambda>_. NULL), rb_right = (\<lambda>_. NULL), rb_color = (\<lambda>_. RB_RED)\<rparr> 0 0 0 800)"

lemma demo_heap_init:
  obtains h F where "kmalloc_init 65536 demo_heap = Some (h, 0)" and "kmalloc_ok F [800] h" and "in_use F [800] h = {}" and "hdrblocks h = 64"
    and "ksizes h 6 = [800]" and "z_vaddr (zones h 800) = 65536"
proof -
  let ?h = "demo_heap\<lparr>ksizes := (\<lambda>i. if i < nsizes then [] else ksizes demo_heap i), kused := [], ktree := lib_rbInit (ktree demo_heap), zonehdrs := 16\<rparr>"
  have f: "firstzone demo_heap = 800" "zpool ?h = demo_pool" by (simp_all add: demo_heap_def zheap.defs kheap.defs demo_zheap_def)
  obtain h1 where c: "vm_zoneCreate 65536 800 64 64 ?h = Some (h1, EOK)" using demo_zone_pages by (auto simp: vm_zoneCreate_def f(2))
  have "rb_nodes (ktree h1) []" using zoneCreate_fields(3) [OF c] rb_nodes_init [of "ktree demo_heap"] by simp
  moreover have "z_vaddr (zones h1 800) < zone_end (zones h1 800)" using zoneCreate_free(2-4) [OF c] by (simp add: zone_end_def)
  ultimately obtain t' where "lib_rbInsert no_augment (\<lambda>a b. kmalloc_zone_cmp (zones h1 a) (zones h1 b)) 800 (ktree h1) = Some (t', EOK)"
    using tree_insert_zone [of "ktree h1" "[]" "zones h1" 800] by auto
  moreover have "size_index sizeof_zone = 6" by code_simp
  ultimately obtain h' where i: "kmalloc_init 65536 demo_heap = Some (h', 0)"
    using c f(1) by (auto simp: kmalloc_init_def kmalloc_tree_insert_def nsizes_def Let_def SIZE_PAGE_def)
  from kmalloc_init_ok [OF i, of h1] c f(1) show thesis using that i by auto
qed

theorem vm_kmalloc_correct_witness:
  "\<exists>h h' b F ys n. kmalloc_init 65536 demo_heap = Some (h, 0) \<and> vm_kmalloc NULL NULL 48 h = Some (h', b) \<and> b \<noteq> NULL \<and>
     kmalloc_ok F ys h' \<and> 48 \<le> n \<and> (b, n) \<in> in_use F ys h'"
proof -
  obtain h F where d: "kmalloc_init 65536 demo_heap = Some (h, 0)" "kmalloc_ok F [800] h" "in_use F [800] h = {}" "hdrblocks h = 64" "ksizes h 6 = [800]" "z_vaddr (zones h 800) = 65536" using demo_heap_init .
  note h = d(1,2,4,5)
  obtain h' b where a: "kmalloc_alloc 6 6 h = (h', b)" by fastforce
  have "size_index sizeof_zone = 6" "size_index (max 16 48) = 6" "size_index 48 = 6" by code_simp+
  then have r: "vm_kmalloc NULL NULL 48 h = Some (h', b)" using h(3,4) a by (simp add: vm_kmalloc_def nsizes_def list_head_def)
  have b: "b \<noteq> NULL" using kmalloc_alloc_ok(4) [OF h(2) _ h(4) a] by (simp add: nsizes_def)
  obtain F' ys n where "kmalloc_ok F' ys h'" "48 \<le> n" "(b, n) \<in> in_use F' ys h'" using vm_kmalloc_correct [OF h(2) r] b by (auto simp: mapped_def)
  then show ?thesis using h(1) r b by blast
qed

theorem kmalloc_free_correct_witness:
  "\<exists>h b F h' z F'. kmalloc_ok F [800] h \<and> (b, 64) \<in> in_use F [800] h \<and> kmalloc_free 6 b h = Some (h', z) \<and> kmalloc_ok F' [800] (h' :: kheap) \<and> (b, 64) \<notin> in_use F' [800] h'"
proof -
  obtain h F where d: "kmalloc_init 65536 demo_heap = Some (h, 0)" "kmalloc_ok F [800] h" "in_use F [800] h = {}" "hdrblocks h = 64" "ksizes h 6 = [800]" "z_vaddr (zones h 800) = 65536" using demo_heap_init .
  note h = d(2,5,6)
  obtain h1 b where a: "kmalloc_alloc 6 6 h = (h1, b)" by fastforce
  obtain F1 where f: "kmalloc_ok F1 [800] h1" "(b, 64) \<in> in_use F1 [800] h1" using alloc_in_use [OF h(1) _ _ a] h(2) by (auto simp: nsizes_def)
  have "same_zones h h1" using kmalloc_alloc_ok(6) [OF h(1) _ h(2) a] by (simp add: nsizes_def)
  then have "b \<noteq> 800" using f(2) h(3) same_zonesD(3) [of h h1 800] by (auto simp: in_use_def zone_blocks_def)
  then obtain h' z F' where "kmalloc_free 6 b h1 = Some (h', z)" "kmalloc_ok F' [800] h'" "in_use F' [800] h' = in_use F1 [800] h1 - {(b, 64)}"
    using kmalloc_free_correct [OF f, of 6] by auto
  then show ?thesis using f by (intro exI [of _ h1] exI [of _ b] exI [of _ F1] exI [of _ h'] exI [of _ z] exI [of _ F']) simp
qed

end
