(* ===== verification/Posix_Flags.thy ===== *)
theory Posix_Flags
  imports "HOL-Library.Word"
begin

text \<open>The flags of open files, \<^verbatim>\<open>include/posix.h\<close>.\<close>

definition FD_CLOEXEC :: "32 word" where "FD_CLOEXEC = 1"
definition O_RDONLY :: "32 word" where "O_RDONLY = 0x0001"
definition O_WRONLY :: "32 word" where "O_WRONLY = 0x0002"
definition O_RDWR :: "32 word" where "O_RDWR = 0x0004"
definition O_APPEND :: "32 word" where "O_APPEND = 0x0008"
definition O_CREAT :: "32 word" where "O_CREAT = 0x0100"
definition O_TRUNC :: "32 word" where "O_TRUNC = 0x0200"
definition O_EXCL :: "32 word" where "O_EXCL = 0x0400"
definition O_NONBLOCK :: "32 word" where "O_NONBLOCK = 0x1000"
definition O_NOCTTY :: "32 word" where "O_NOCTTY = 0x2000"
definition O_CLOEXEC :: "32 word" where "O_CLOEXEC = 0x4000"

end
