(* ===== verification/Kernel_Log.thy ===== *)
theory Kernel_Log
  imports Lib_List "HOL-Library.Word" Posix_Flags
begin

unbundle bit_operations_syntax

text \<open>
  The kernel log of \<^verbatim>\<open>log/log.c\<close>: a ring buffer that drops whole lines when it is full, readers with positions of
  their own, and the messages of readers that wait for data. The sections under the lock of the log are single steps.
  A call of \<open>proc_respond\<close> is recorded with the bytes that were put into the buffer of the message, and characters for
  the console are recorded too; blocks from \<open>vm_kmalloc\<close> are arguments. Offsets are natural numbers.
\<close>

section \<open>Model\<close>

definition KERNEL_LOG_SIZE :: nat where
  "KERNEL_LOG_SIZE = 2048"

definition TCGETS :: "32 word" where
  "TCGETS = 0x405c7401"

abbreviation (input) newline :: char where "newline \<equiv> CHR 0x0A"
abbreviation (input) nul :: char where "nul \<equiv> CHR 0x00"

text \<open>A message that waits for data: the size of its buffer, the port and the identifier to answer to.\<close>

record log_rmsg =
  m_osize :: nat
  m_port :: "32 word"
  m_rid :: int

record log_reader =
  l_ridx :: nat
  l_pid :: int
  l_nonblocking :: bool
  l_msgs :: "log_rmsg list"
  l_refs :: int

record log_response =
  a_port :: "32 word"
  a_rid :: int
  a_err :: int
  a_data :: string

record log_common =
  buf :: "nat \<Rightarrow> char"
  head :: nat
  tail :: nat
  readers :: "addr list"
  reader :: "addr \<Rightarrow> log_reader"
  updated :: bool
  enabled :: bool
  responses :: "log_response list"
  console :: string
  released :: "addr list"

definition log_empty :: "log_common \<Rightarrow> bool" where
  "log_empty l \<longleftrightarrow> tail l = head l"

definition log_full :: "log_common \<Rightarrow> bool" where
  "log_full l \<longleftrightarrow> int (tail l) - int (head l) = int KERNEL_LOG_SIZE"

definition log_getc :: "log_common \<Rightarrow> nat \<Rightarrow> char" where
  "log_getc l off = buf l (off mod KERNEL_LOG_SIZE)"

definition log_pop :: "log_common \<Rightarrow> log_common \<times> char" where
  "log_pop l = (l\<lparr>head := head l + 1\<rparr>, log_getc l (head l))"

definition log_push :: "char \<Rightarrow> log_common \<Rightarrow> log_common" where
  "log_push c l = l\<lparr>buf := (buf l)(tail l mod KERNEL_LOG_SIZE := c), tail := tail l + 1\<rparr>"

text \<open>The loop of \<open>_log_readln\<close>, with the bytes read so far, and the line end it always adds.\<close>

function readln_loop :: "log_common \<Rightarrow> nat \<Rightarrow> nat \<Rightarrow> string \<Rightarrow> string \<times> nat" where
  "readln_loop l sz ridx out =
     (if ridx < tail l \<and> length out < sz then
        (let c = log_getc l ridx; out = out @ [c]; ridx = ridx + 1
         in if c = newline \<or> c = nul then (out, ridx) else readln_loop l sz ridx out)
      else (out, ridx))"
  by pat_completeness auto
termination by (relation "measure (\<lambda>(l, sz, ridx, out). tail l - ridx)") auto

declare readln_loop.simps [simp del]

definition log_readln :: "log_common \<Rightarrow> nat \<Rightarrow> nat \<Rightarrow> string \<times> nat" where
  "log_readln l ridx sz =
     (let (out, ridx) = readln_loop l sz ridx []
      in if out \<noteq> [] \<and> last out \<noteq> newline then
           if last out = nul then (butlast out @ [newline], ridx)
           else if length out < sz then (out @ [newline], ridx)
           else (butlast out @ [newline], ridx - 1)
         else (out, ridx))"

text \<open>The result of a read: the value, the bytes and the new position.\<close>

definition log_read :: "log_common \<Rightarrow> nat \<Rightarrow> nat \<Rightarrow> int \<times> string \<times> nat" where
  "log_read l ridx sz =
     (if ridx < head l then (- EPIPE, [], head l)
      else (let (out, ridx) = log_readln l ridx sz in (int (length out), out, ridx)))"

definition upd_reader :: "addr \<Rightarrow> (log_reader \<Rightarrow> log_reader) \<Rightarrow> log_common \<Rightarrow> log_common" where
  "upd_reader r f l = l\<lparr>reader := (reader l)(r := f (reader l r))\<rparr>"

text \<open>\<open>_log_msgRespond\<close> answers the first waiting message of a reader; \<open>out\<close> is what was read into its buffer.\<close>

definition log_msgRespond :: "addr \<Rightarrow> int \<Rightarrow> string \<Rightarrow> log_common \<Rightarrow> log_common" where
  "log_msgRespond r err out l =
     (let m = hd (l_msgs (reader l r));
          l = upd_reader r (\<lambda>x. x\<lparr>l_msgs := LIST_REMOVE (l_msgs x) m\<rparr>) l
      in l\<lparr>responses := responses l @ [\<lparr>a_port = m_port m, a_rid = m_rid m, a_err = err, a_data = out\<rparr>]\<rparr>)"

text \<open>The first reader of a process, with one reference more.\<close>

definition log_readerFind :: "int \<Rightarrow> log_common \<Rightarrow> log_common \<times> addr" where
  "log_readerFind pid l =
     (case find (\<lambda>r. l_pid (reader l r) = pid) (readers l) of
        Some r \<Rightarrow> (upd_reader r (\<lambda>x. x\<lparr>l_refs := l_refs x + 1\<rparr>) l, r)
      | None \<Rightarrow> (l, NULL))"

fun reject_all :: "nat \<Rightarrow> addr \<Rightarrow> log_common \<Rightarrow> log_common" where
  "reject_all 0 r l = l"
| "reject_all (Suc n) r l = reject_all n r (log_msgRespond r (- EIO) [] l)"

text \<open>\<open>reject_all\<close> is the loop over the waiting messages; the result is the pointer of the caller afterwards.\<close>

definition log_readerPut :: "addr \<Rightarrow> log_common \<Rightarrow> log_common \<times> addr" where
  "log_readerPut r l =
     (if r \<noteq> NULL then
        (let l = upd_reader r (\<lambda>x. x\<lparr>l_refs := l_refs x - 1\<rparr>) l
         in if l_refs (reader l r) \<le> 0 then
              (let l = reject_all (length (l_msgs (reader l r))) r l
               in (l\<lparr>readers := LIST_REMOVE (readers l) r, released := r # released l\<rparr>, NULL))
            else (l, r))
      else (l, r))"

definition log_readerAdd :: "addr \<Rightarrow> int \<Rightarrow> bool \<Rightarrow> log_common \<Rightarrow> log_common \<times> int" where
  "log_readerAdd b pid nonblocking l =
     (let (l, r) = log_readerFind pid l
      in if r \<noteq> NULL then (fst (log_readerPut r l), - EINVAL)
         else if b = NULL then (l, - ENOMEM)
         else
           (let l = upd_reader b (\<lambda>x. \<lparr>l_ridx = head l, l_pid = pid, l_nonblocking = nonblocking, l_msgs = [], l_refs = 1\<rparr>) l
            in (l\<lparr>readers := LIST_ADD (readers l) b\<rparr>, 0)))"

text \<open>The inner loop of \<open>_log_readersUpdate\<close>: the messages of one reader are answered until one finds no data.\<close>

fun serve_msgs :: "nat \<Rightarrow> addr \<Rightarrow> log_common \<Rightarrow> log_common" where
  "serve_msgs 0 r l = l"
| "serve_msgs (Suc n) r l =
     (let (ret, out, ridx) = log_read l (l_ridx (reader l r)) (m_osize (hd (l_msgs (reader l r))));
          l = upd_reader r (\<lambda>x. x\<lparr>l_ridx := ridx\<rparr>) l
      in if ret = 0 then l else serve_msgs n r (log_msgRespond r ret out l))"

definition log_readersUpdate :: "log_common \<Rightarrow> log_common" where
  "log_readersUpdate l = fold (\<lambda>r l. serve_msgs (length (l_msgs (reader l r))) r l) (readers l) l"

definition log_readerBlock :: "addr \<Rightarrow> addr \<Rightarrow> nat \<Rightarrow> 32 word \<Rightarrow> int \<Rightarrow> log_common \<Rightarrow> log_common \<times> int" where
  "log_readerBlock b r osize port rid l =
     (if b = NULL then (l, - ENOMEM)
      else (upd_reader r (\<lambda>x. x\<lparr>l_msgs := LIST_ADD (l_msgs x) \<lparr>m_osize = osize, m_port = port, m_rid = rid\<rparr>\<rparr>) l, EOK))"

definition log_close :: "int \<Rightarrow> log_common \<Rightarrow> log_common" where
  "log_close pid l =
     (let (l, r) = log_readerFind pid l
      in if r \<noteq> NULL then (let (l, r) = log_readerPut r l in fst (log_readerPut r l)) else l)"

definition log_devctl :: "32 word \<Rightarrow> int" where
  "log_devctl request = (if request = TCGETS then EOK else - EINVAL)"

text \<open>The loop that drops the oldest line; it ends when the log is not empty at its start.\<close>

partial_function (option) drop_line :: "log_common \<Rightarrow> log_common option" where
  "drop_line l =
     (let (l, c) = log_pop l
      in if c \<noteq> newline \<and> c \<noteq> nul \<and> \<not> log_empty l then drop_line l else Some l)"

definition log_putc :: "char \<Rightarrow> log_common \<Rightarrow> log_common option" where
  "log_putc c l = (let l = log_push c l in if log_full l then drop_line l else Some l)"

fun log_puts :: "string \<Rightarrow> log_common \<Rightarrow> log_common option" where
  "log_puts [] l = Some l"
| "log_puts (c # cs) l = (case log_putc c l of None \<Rightarrow> None | Some l \<Rightarrow> log_puts cs l)"

definition log_write :: "string \<Rightarrow> log_common \<Rightarrow> (log_common \<times> int) option" where
  "log_write data l =
     (if enabled l then
        map_option (\<lambda>l. (if data \<noteq> [] then l\<lparr>updated := True\<rparr> else l, int (length data))) (log_puts data l)
      else Some (l\<lparr>console := console l @ data\<rparr>, int (length data)))"

definition log_scrub :: "log_common \<Rightarrow> log_common" where
  "log_scrub l = (if updated l then (log_readersUpdate l)\<lparr>updated := False\<rparr> else l)"

text \<open>\<open>free\<close> says whether the lock of the log is free.\<close>

definition log_scrubTry :: "bool \<Rightarrow> log_common \<Rightarrow> log_common" where
  "log_scrubTry free l = (if updated l \<and> free then log_scrub l else l)"

definition log_disable :: "log_common \<Rightarrow> log_common" where
  "log_disable l = l\<lparr>enabled := False\<rparr>"

definition log_init :: "log_common \<Rightarrow> log_common" where
  "log_init l = l\<lparr>buf := (\<lambda>_. nul), head := 0, tail := 0, readers := [], updated := False, enabled := True\<rparr>"

section \<open>The message handler\<close>

text \<open>A message: its kind, with the fields the handler reads.\<close>

datatype log_msg = mtOpen "32 word" | mtRead nat | mtWrite string | mtClose | mtDevCtl "32 word" | mtOther

definition respond :: "32 word \<Rightarrow> int \<Rightarrow> int \<Rightarrow> string \<Rightarrow> log_common \<Rightarrow> log_common" where
  "respond port rid err out l = l\<lparr>responses := responses l @ [\<lparr>a_port = port, a_rid = rid, a_err = err, a_data = out\<rparr>]\<rparr>"

text \<open>The case of a read.\<close>

definition handle_read :: "addr \<Rightarrow> int \<Rightarrow> nat \<Rightarrow> 32 word \<Rightarrow> int \<Rightarrow> log_common \<Rightarrow> log_common" where
  "handle_read b pid osize port rid l =
     (let (l, r) = log_readerFind pid l
      in if r = NULL then respond port rid (- EINVAL) [] l
         else
           (let (err, out, ridx) = log_read l (l_ridx (reader l r)) osize;
                l = upd_reader r (\<lambda>x. x\<lparr>l_ridx := ridx\<rparr>) l;
                (l, err, answer) =
                  (if err = 0 \<and> \<not> l_nonblocking (reader l r)
                   then (let (l, err) = log_readerBlock b r osize port rid l in (l, err, err \<noteq> EOK))
                   else if err = 0 then (l, - EAGAIN, True) else (l, err, True));
                l = fst (log_readerPut r l)
            in if answer then respond port rid err out l else l))"

definition log_msgHandler :: "addr \<Rightarrow> int \<Rightarrow> log_msg \<Rightarrow> 32 word \<Rightarrow> int \<Rightarrow> log_common \<Rightarrow> log_common option" where
  "log_msgHandler b pid msg port rid l =
     (case msg of
        mtOpen flags \<Rightarrow>
          Some (if flags AND O_WRONLY \<noteq> 0 then respond port rid EOK [] l
                else (let (l, err) = log_readerAdd b pid (flags AND O_NONBLOCK \<noteq> 0) l in respond port rid err [] l))
      | mtRead osize \<Rightarrow> Some (handle_read b pid osize port rid l)
      | mtWrite data \<Rightarrow> map_option (\<lambda>(l, err). respond port rid err [] (log_scrub l)) (log_write data l)
      | mtClose \<Rightarrow> Some (respond port rid 0 [] (log_close pid l))
      | mtDevCtl request \<Rightarrow> Some (respond port rid (log_devctl request) [] l)
      | mtOther \<Rightarrow> Some (respond port rid (- EINVAL) [] l))"

end
