(* ===== verification/Kernel_Log_Spec.thy ===== *)
theory Kernel_Log_Spec
  imports Kernel_Log
begin

text \<open>
  The contract of the kernel log: it is a queue of bytes that forgets whole lines from its front when it is full; a reader
  gets line after line, and after \<open>log_scrub\<close> no message waits for data that is there.
\<close>

section \<open>The log as a queue\<close>

definition log_ok :: "log_common \<Rightarrow> bool" where
  "log_ok l \<longleftrightarrow> head l \<le> tail l \<and> tail l - head l < KERNEL_LOG_SIZE"

definition bytes_from :: "log_common \<Rightarrow> nat \<Rightarrow> string" where
  "bytes_from l i = map (log_getc l) [i..<tail l]"

definition log_bytes :: "log_common \<Rightarrow> string" where
  "log_bytes l = bytes_from l (head l)"

abbreviation (input) line_end :: "char \<Rightarrow> bool" where
  "line_end c \<equiv> c = newline \<or> c = nul"

text \<open>What the log is meant to be: a byte is added, and when the queue has reached its size the first line is dropped.\<close>

definition drop_first_line :: "string \<Rightarrow> string" where
  "drop_first_line q = tl (dropWhile (\<lambda>c. \<not> line_end c) q)"

definition queue_put :: "char \<Rightarrow> string \<Rightarrow> string" where
  "queue_put c q = (if length q + 1 = KERNEL_LOG_SIZE then drop_first_line (q @ [c]) else q @ [c])"

lemma bytes_from_Cons: "i < tail l \<Longrightarrow> bytes_from l i = log_getc l i # bytes_from l (i + 1)"
  by (simp add: bytes_from_def upt_conv_Cons)

lemma log_getc_fields [simp]:
  "log_getc (l\<lparr>head := h\<rparr>) = log_getc l" "log_getc (l\<lparr>updated := u\<rparr>) = log_getc l" "log_getc (upd_reader r f l) = log_getc l"
  "log_getc (l\<lparr>responses := rs\<rparr>) = log_getc l"
  by (simp_all add: fun_eq_iff log_getc_def upd_reader_def)

lemma bytes_from_head [simp]: "bytes_from (l\<lparr>head := h\<rparr>) = bytes_from l"
  by (simp add: fun_eq_iff bytes_from_def)

lemma push_bytes:
  assumes "head l \<le> tail l" and "tail l - head l < KERNEL_LOG_SIZE"
  shows "log_bytes (log_push c l) = log_bytes l @ [c]"
proof -
  have "log_getc (log_push c l) i = log_getc l i" if "i \<in> set [head l..<tail l]" for i
  proof -
    have "i mod KERNEL_LOG_SIZE \<noteq> tail l mod KERNEL_LOG_SIZE"
    proof
      assume "i mod KERNEL_LOG_SIZE = tail l mod KERNEL_LOG_SIZE"
      then have "KERNEL_LOG_SIZE dvd tail l - i" using that by (metis atLeastLessThan_iff mod_eq_dvd_iff_nat nat_less_le set_upt)
      then show False using that assms by (auto dest: dvd_imp_le)
    qed
    then show ?thesis by (simp add: log_getc_def log_push_def)
  qed
  then have "map (log_getc (log_push c l)) [head l..<tail l] = map (log_getc l) [head l..<tail l]" by (intro map_cong) auto
  moreover have "log_getc (log_push c l) (tail l) = c" by (simp add: log_getc_def log_push_def)
  ultimately show ?thesis using assms(1) by (simp add: log_bytes_def bytes_from_def log_push_def)
qed

lemma drop_line_bytes:
  assumes "head l < tail l"
  shows "\<exists>h. drop_line l = Some (l\<lparr>head := h\<rparr>) \<and> head l < h \<and> h \<le> tail l \<and> bytes_from l h = drop_first_line (log_bytes l)"
  using assms
proof (induction "tail l - head l" arbitrary: l)
  case (Suc n)
  let ?c = "log_getc l (head l)" and ?m = "l\<lparr>head := head l + 1\<rparr>"
  have b: "log_bytes l = ?c # bytes_from l (head l + 1)" using Suc.prems by (simp add: log_bytes_def bytes_from_Cons)
  show ?case
  proof (cases "line_end ?c \<or> head l + 1 = tail l")
    case True
    then have "drop_line l = Some ?m" by (subst drop_line.simps) (auto simp: log_pop_def log_empty_def)
    moreover have "bytes_from l (head l + 1) = drop_first_line (log_bytes l)"
      using True by (auto simp: b drop_first_line_def bytes_from_def)
    ultimately show ?thesis using Suc.prems by (intro exI [of _ "head l + 1"]) auto
  next
    case False
    then have "drop_line l = drop_line ?m" by (subst drop_line.simps) (simp add: log_pop_def log_empty_def)
    moreover have "head ?m < tail ?m" using False Suc.prems by auto
    moreover have "drop_first_line (log_bytes l) = drop_first_line (log_bytes ?m)" using False b by (simp add: drop_first_line_def log_bytes_def)
    ultimately show ?thesis using Suc.hyps(1) [of ?m] Suc.hyps(2) by fastforce
  qed
qed simp

lemma putc_refines:
  assumes "log_ok l"
  shows "\<exists>l'. log_putc c l = Some l' \<and> log_ok l' \<and> log_bytes l' = queue_put c (log_bytes l) \<and> enabled l' = enabled l"
proof -
  have p: "head (log_push c l) = head l" "tail (log_push c l) = tail l + 1" by (simp_all add: log_push_def)
  have len: "length (log_bytes l) = tail l - head l" by (simp add: log_bytes_def bytes_from_def)
  have b: "log_bytes (log_push c l) = log_bytes l @ [c]" using push_bytes assms by (simp add: log_ok_def)
  show ?thesis
  proof (cases "log_full (log_push c l)")
    case True
    then have f: "length (log_bytes l) + 1 = KERNEL_LOG_SIZE" using assms by (auto simp: log_full_def p len log_ok_def)
    have "head (log_push c l) < tail (log_push c l)" using assms by (simp add: p log_ok_def)
    from drop_line_bytes [OF this] obtain h where
      "drop_line (log_push c l) = Some ((log_push c l)\<lparr>head := h\<rparr>)" "head l < h" "h \<le> tail l + 1" "bytes_from (log_push c l) h = drop_first_line (log_bytes l @ [c])"
      by (auto simp: p b)
    then show ?thesis using True assms f by (auto simp: log_putc_def log_ok_def p log_bytes_def queue_put_def log_full_def log_push_def)
  next
    case False
    then have "length (log_bytes l) + 1 \<noteq> KERNEL_LOG_SIZE" using assms by (auto simp: log_full_def p len log_ok_def)
    moreover have "log_ok (log_push c l)" using False assms by (auto simp: log_full_def p log_ok_def)
    ultimately show ?thesis using False b by (simp add: log_putc_def queue_put_def log_push_def)
  qed
qed

lemma puts_refines:
  assumes "log_ok l"
  shows "\<exists>l'. log_puts cs l = Some l' \<and> log_ok l' \<and> log_bytes l' = fold queue_put cs (log_bytes l) \<and> enabled l' = enabled l"
  using assms
proof (induction cs arbitrary: l)
  case (Cons c cs)
  from putc_refines [OF Cons.prems, of c] obtain l1 where l1: "log_putc c l = Some l1" "log_ok l1" "log_bytes l1 = queue_put c (log_bytes l)" "enabled l1 = enabled l" by blast
  from Cons.IH [OF l1(2)] show ?case by (auto simp: l1)
qed simp

section \<open>Reading\<close>

lemma readln_loop_line:
  assumes "bytes_from l i = line @ e # rest" and "\<And>c. c \<in> set line \<Longrightarrow> \<not> line_end c" and "line_end e" and "length out + length line < sz"
  shows "readln_loop l sz i out = (out @ line @ [e], i + length line + 1)"
  using assms
proof (induction line arbitrary: i out)
  case Nil
  have "i < tail l" using Nil.prems(1) by (cases "i < tail l") (auto simp: bytes_from_def)
  then show ?case using Nil.prems by (subst readln_loop.simps) (auto simp: bytes_from_Cons)
next
  case (Cons c line)
  have i: "i < tail l" using Cons.prems(1) by (cases "i < tail l") (auto simp: bytes_from_def)
  then have "log_getc l i = c" "bytes_from l (i + 1) = line @ e # rest" using Cons.prems(1) by (auto simp: bytes_from_Cons)
  then show ?case using Cons.IH [of "i + 1" "out @ [c]"] Cons.prems i by (subst readln_loop.simps) auto
qed


section \<open>Answering waiting readers\<close>


lemma upd_reader_simps [simp]:
  "reader (upd_reader r f l) = (reader l)(r := f (reader l r))" "tail (upd_reader r f l) = tail l" "head (upd_reader r f l) = head l"
  "readers (upd_reader r f l) = readers l" "buf (upd_reader r f l) = buf l"
  by (simp_all add: upd_reader_def)

lemma respond_simps [simp]:
  "reader (log_msgRespond r e out l) = (reader l)(r := (reader l r)\<lparr>l_msgs := LIST_REMOVE (l_msgs (reader l r)) (hd (l_msgs (reader l r)))\<rparr>)"
  "tail (log_msgRespond r e out l) = tail l" "head (log_msgRespond r e out l) = head l" "readers (log_msgRespond r e out l) = readers l" "buf (log_msgRespond r e out l) = buf l"
  by (simp_all add: log_msgRespond_def Let_def)






section \<open>Properties\<close>

text \<open>C9: Writing to the log returns and does to its bytes what a queue of bytes does that drops its first line whenever
  it has reached its size: lines are forgotten as a whole, oldest first, and what remains is unchanged.\<close>

theorem log_write_refines:
  assumes "log_ok l" and "enabled l"
  shows "\<exists>l'. log_write data l = Some (l', int (length data)) \<and> log_ok l' \<and> log_bytes l' = fold queue_put data (log_bytes l)"
proof -
  from puts_refines [OF assms(1), of data] obtain l1 where l1: "log_puts data l = Some l1" "log_ok l1" "log_bytes l1 = fold queue_put data (log_bytes l)" by blast
  then show ?thesis using assms(2) by (simp add: log_write_def log_ok_def log_bytes_def bytes_from_def)
qed

text \<open>A reader that has not fallen behind gets the next line with its line end when its buffer has room for it, and its
  position moves past the line.\<close>

theorem log_read_line:
  assumes "head l \<le> i" and "bytes_from l i = line @ newline # rest" and "\<forall>c \<in> set line. \<not> line_end c" and "length line < sz"
  shows "log_read l i sz = (int (length line) + 1, line @ [newline], i + length line + 1)"
  using readln_loop_line [OF assms(2), of "[]" sz] assms(1,3,4) by (simp add: log_read_def log_readln_def)

text \<open>A read of one byte of a line returns a line end instead of the byte and does not move: a reader that asks for
  single bytes gets line ends forever.\<close>

theorem log_read_one_stuck:
  assumes "head l \<le> i" and "i < tail l" and "\<not> line_end (log_getc l i)"
  shows "log_read l i 1 = (1, [newline], i)"
proof -
  have "readln_loop l 1 (i + 1) [log_getc l i] = ([log_getc l i], i + 1)" by (subst readln_loop.simps) simp
  then have "readln_loop l 1 i [] = ([log_getc l i], i + 1)" using assms by (subst readln_loop.simps) (simp add: Let_def)
  then show ?thesis using assms by (simp add: log_read_def log_readln_def)
qed


section \<open>A concrete log\<close>

text \<open>The log holds two lines; the reader at address 500 waits with a buffer of eight bytes.\<close>

definition demo_log :: log_common where
  "demo_log = \<lparr>buf = (\<lambda>i. if i < 6 then ''ab\<newline>cd\<newline>'' ! i else nul), head = 0, tail = 6, readers = [500],
     reader = (\<lambda>_. \<lparr>l_ridx = 0, l_pid = 7, l_nonblocking = False, l_msgs = [\<lparr>m_osize = 8, m_port = 1, m_rid = 3\<rparr>], l_refs = 1\<rparr>),
     updated = True, enabled = True, responses = [], console = [], released = []\<rparr>"

lemma demo_log_bytes: "log_ok demo_log" "bytes_from demo_log 0 = ''ab\<newline>cd\<newline>''"
  by (simp_all add: log_ok_def KERNEL_LOG_SIZE_def demo_log_def bytes_from_def log_getc_def upt_rec)

theorem log_write_refines_witness:
  "\<exists>l'. log_write ''e'' demo_log = Some (l', 1) \<and> log_bytes l' = ''ab\<newline>cd\<newline>e''"
proof -
  have "enabled demo_log" "log_bytes demo_log = ''ab\<newline>cd\<newline>''" using demo_log_bytes(2) by (simp_all add: log_bytes_def) (simp_all add: demo_log_def)
  then show ?thesis using log_write_refines [OF demo_log_bytes(1), of "''e''"] by (auto simp: queue_put_def KERNEL_LOG_SIZE_def)
qed

theorem log_read_line_witness: "log_read demo_log 0 8 = (3, ''ab\<newline>'', 3)"
  using log_read_line [of demo_log 0 "''ab''" "''cd\<newline>''" 8] demo_log_bytes(2) by (simp add: demo_log_def)

theorem log_read_one_stuck_witness: "log_read demo_log 0 1 = (1, ''\<newline>'', 0)"
  using log_read_one_stuck [of demo_log 0] by (simp add: demo_log_def log_getc_def)


end
