(* ===== verification/Proc_Msg.thy ===== *)
theory Proc_Msg
  imports Proc_Port
begin

text \<open>
  Message passing between processes without an MMU, \<^verbatim>\<open>proc/msg-nommu.c\<close>: a sender queues its message at a port and
  waits, a receiver takes it and gets an identifier for the answer. The kernel's record of a message lives on the stack of
  the sender, at the address \<open>k\<close>; its queue is \<open>Qobj k\<close>, that of a port \<open>p\<close> is \<open>Qobj p\<close>. The sections under the spinlock of a
  port are single steps; a call that waits ends in \<open>Block\<close>, and the definition named \<open>_resume\<close> goes on with the value of
  the wait when the thread runs again.
\<close>

section \<open>Model\<close>

datatype msg_state = msg_rejected | msg_waiting | msg_received | msg_responded

text \<open>\<open>msg_t\<close>: the two fields the kernel sets, the answer \<open>o.raw\<close>, and the rest.\<close>

record msg_t =
  mg_pid :: int
  mg_priority :: nat
  mg_oraw :: "8 word list"
  mg_rest :: "8 word list"

record kmsg_t =
  k_msg :: addr
  k_src :: addr
  k_state :: msg_state

text \<open>The messages and the identifiers in the memory of the processes, by address.\<close>

record msgsys = portsys +
  kmsgs :: "addr \<Rightarrow> kmsg_t"
  msgmem :: "addr \<Rightarrow> msg_t"
  ridmem :: "addr \<Rightarrow> int"

definition upd_kmsg :: "addr \<Rightarrow> (kmsg_t \<Rightarrow> kmsg_t) \<Rightarrow> 'a msgsys_scheme \<Rightarrow> 'a msgsys_scheme" where
  "upd_kmsg k f st = st\<lparr>kmsgs := (kmsgs st)(k := f (kmsgs st k))\<rparr>"

definition upd_msg :: "addr \<Rightarrow> (msg_t \<Rightarrow> msg_t) \<Rightarrow> 'a msgsys_scheme \<Rightarrow> 'a msgsys_scheme" where
  "upd_msg m f st = st\<lparr>msgmem := (msgmem st)(m := f (msgmem st m))\<rparr>"

section \<open>Sending\<close>

definition send_finish :: "addr \<Rightarrow> addr \<Rightarrow> int \<Rightarrow> 'a msgsys_scheme \<Rightarrow> 'a msgsys_scheme outcome option" where
  "send_finish nil p err st = map_option (\<lambda>st. Return st err) (port_put nil p False st)"

text \<open>The value of the call once the loop is left.\<close>

definition send_result :: "addr \<Rightarrow> int \<Rightarrow> 'a msgsys_scheme \<Rightarrow> int" where
  "send_result k err st =
     (case k_state (kmsgs st k) of msg_responded \<Rightarrow> EOK | msg_rejected \<Rightarrow> - EINVAL | _ \<Rightarrow> err)"

definition send_interrupted :: "addr \<Rightarrow> addr \<Rightarrow> int \<Rightarrow> 'a msgsys_scheme \<Rightarrow> 'a msgsys_scheme option" where
  "send_interrupted p k err st =
     (if err \<noteq> EOK \<and> k_state (kmsgs st k) = msg_waiting
      then Some (upd_port p (\<lambda>x. x\<lparr>po_kmessages := LIST_REMOVE (po_kmessages x) k\<rparr>) st) else None)"

partial_function (option) send_loop :: "addr \<Rightarrow> nat \<Rightarrow> addr \<Rightarrow> addr \<Rightarrow> int \<Rightarrow> 'a msgsys_scheme \<Rightarrow> 'a msgsys_scheme outcome option" where
  "send_loop nil cpu p k err st =
     (if k_state (kmsgs st k) \<noteq> msg_responded \<and> k_state (kmsgs st k) \<noteq> msg_rejected then
        (case wait_outcome (proc_threadWaitInterruptible cpu (Qobj k) 0 st) of
           None \<Rightarrow> None
         | Some (Return st err) \<Rightarrow>
             (case send_interrupted p k err st of
                Some st \<Rightarrow> send_finish nil p (send_result k err st) st
              | None \<Rightarrow> send_loop nil cpu p k err st)
         | Some r \<Rightarrow> Some r)
      else send_finish nil p (send_result k err st) st)"

definition send_resume :: "addr \<Rightarrow> nat \<Rightarrow> addr \<Rightarrow> addr \<Rightarrow> int \<Rightarrow> 'a msgsys_scheme \<Rightarrow> 'a msgsys_scheme outcome option" where
  "send_resume nil cpu p k err st =
     (case send_interrupted p k err st of
        Some st \<Rightarrow> send_finish nil p (send_result k err st) st
      | None \<Rightarrow> send_loop nil cpu p k err st)"

definition proc_send :: "addr \<Rightarrow> nat \<Rightarrow> addr \<Rightarrow> 32 word \<Rightarrow> addr \<Rightarrow> 'a msgsys_scheme \<Rightarrow> 'a msgsys_scheme outcome option" where
  "proc_send nil cpu k port msg st = do {
     (st, p) \<leftarrow> proc_portGet port st;
     if p = NULL then Some (Return st (- EINVAL))
     else do {
       let sender = current st cpu;
       let process = t_process (thr st sender);
       let st = set_queue (Qobj k) (Queue []) (upd_kmsg k (\<lambda>x. \<lparr>k_msg = msg, k_src = process, k_state = msg_waiting\<rparr>) st);
       let st = upd_msg msg (\<lambda>x. x\<lparr>mg_pid := (if process \<noteq> NULL then p_pid (procs st process) else 0), mg_priority := t_priority (thr st sender)\<rparr>) st;
       if po_closed (ports st p) then send_finish nil p (- EINVAL) st
       else do {
         let st = upd_port p (\<lambda>x. x\<lparr>po_kmessages := LIST_ADD (po_kmessages x) k\<rparr>) st;
         let st = fst (proc_threadWakeup (Qobj p) st);
         send_loop nil cpu p k EOK st
       }
     }
   }"

section \<open>Receiving\<close>

text \<open>A message is given up and its sender woken.\<close>

definition reject :: "addr \<Rightarrow> 'a msgsys_scheme \<Rightarrow> 'a msgsys_scheme" where
  "reject k st = fst (proc_threadWakeup (Qobj k) (upd_kmsg k (\<lambda>x. x\<lparr>k_state := msg_rejected\<rparr>) st))"

text \<open>The rest of the call after the loop: the first message of the queue is taken, whatever ended the loop.\<close>

definition recv_take :: "addr \<Rightarrow> addr \<Rightarrow> addr \<Rightarrow> addr \<Rightarrow> int \<Rightarrow> 'a msgsys_scheme \<Rightarrow> 'a msgsys_scheme outcome option" where
  "recv_take nil p msg rid err st = do {
     let kmsg = (case po_kmessages (ports st p) of [] \<Rightarrow> NULL | k # _ \<Rightarrow> k);
     let st = (if kmsg \<noteq> NULL
               then upd_port p (\<lambda>x. x\<lparr>po_kmessages := LIST_REMOVE (po_kmessages x) kmsg\<rparr>) (upd_kmsg kmsg (\<lambda>x. x\<lparr>k_state := msg_received\<rparr>) st)
               else st);
     let (st, err) = (if po_closed (ports st p) then (if kmsg \<noteq> NULL then reject kmsg st else st, - EINVAL) else (st, err));
     if err < 0 then map_option (\<lambda>st. Return st err) (port_put nil p False st)
     else do {
       (st, i) \<leftarrow> proc_portRidAlloc p kmsg st;
       if i < 0 then map_option (\<lambda>st. Return st (- ENOMEM)) (port_put nil p False (reject kmsg st))
       else do {
         let st = st\<lparr>ridmem := (ridmem st)(rid := lib_idtreeId (po_rid (ports st p)) kmsg)\<rparr>;
         let st = upd_msg msg (\<lambda>_. msgmem st (k_msg (kmsgs st kmsg))) st;
         map_option (\<lambda>st. Return st EOK) (port_put nil p False st)
       }
     }
   }"

partial_function (option) recv_loop ::
    "addr \<Rightarrow> nat \<Rightarrow> addr \<Rightarrow> addr \<Rightarrow> addr \<Rightarrow> int \<Rightarrow> 'a msgsys_scheme \<Rightarrow> 'a msgsys_scheme outcome option" where
  "recv_loop nil cpu p msg rid err st =
     (if po_kmessages (ports st p) = [] \<and> \<not> po_closed (ports st p) \<and> err \<noteq> - EINTR then
        (case wait_outcome (proc_threadWaitInterruptible cpu (Qobj p) 0 st) of
           None \<Rightarrow> None
         | Some (Return st err) \<Rightarrow> recv_loop nil cpu p msg rid err st
         | Some r \<Rightarrow> Some r)
      else recv_take nil p msg rid err st)"

definition recv_resume :: "addr \<Rightarrow> nat \<Rightarrow> addr \<Rightarrow> addr \<Rightarrow> addr \<Rightarrow> int \<Rightarrow> 'a msgsys_scheme \<Rightarrow> 'a msgsys_scheme outcome option" where
  "recv_resume nil cpu p msg rid err st = recv_loop nil cpu p msg rid err st"

definition proc_recv :: "addr \<Rightarrow> nat \<Rightarrow> 32 word \<Rightarrow> addr \<Rightarrow> addr \<Rightarrow> 'a msgsys_scheme \<Rightarrow> 'a msgsys_scheme outcome option" where
  "proc_recv nil cpu port msg rid st = do {
     (st, p) \<leftarrow> proc_portGet port st;
     if p = NULL then Some (Return st (- EINVAL)) else recv_loop nil cpu p msg rid 0 st
   }"

section \<open>Responding\<close>

definition proc_respond :: "addr \<Rightarrow> nat \<Rightarrow> 32 word \<Rightarrow> addr \<Rightarrow> int \<Rightarrow> 'a msgsys_scheme \<Rightarrow> ('a msgsys_scheme \<times> int) option" where
  "proc_respond nil cpu port msg rid st = do {
     (st, p) \<leftarrow> proc_portGet port st;
     if p = NULL then Some (st, - EINVAL)
     else do {
       (st, kmsg) \<leftarrow> proc_portRidGet nil p rid st;
       if kmsg = NULL then Some (st, - ENOENT)
       else do {
         let st = upd_msg (k_msg (kmsgs st kmsg)) (\<lambda>x. x\<lparr>mg_oraw := mg_oraw (msgmem st msg)\<rparr>) st;
         let st = upd_kmsg kmsg (\<lambda>x. x\<lparr>k_state := msg_responded, k_src := my_process cpu st\<rparr>) st;
         let st = fst (proc_threadWakeup (Qobj kmsg) st);
         map_option (\<lambda>st. (st, 0)) (port_put nil p False st)
       }
     }
   }"

end
