(* ===== verification/Proc_Msg_Spec.thy ===== *)
theory Proc_Msg_Spec
  imports Proc_Msg Proc_Port_Spec
begin

text \<open>
  What message passing promises, delivery and answer, and where it fails: the reference an unsuccessful answer keeps, and
  the message an interrupted receiver loses.
\<close>

section \<open>Frames\<close>

lemma more_wakeup [simp]: "kernel.more (fst (proc_threadWakeup q st)) = kernel.more st"
  by (auto simp: proc_threadWakeup_def threadWakeup_def Let_def split: waitq.split list.split)

lemma more_msgsys:
  fixes a b :: "'a msgsys_scheme"
  assumes "kernel.more a = kernel.more b"
  shows "ports a = ports b" and "kmsgs a = kmsgs b" and "msgmem a = msgmem b" and "ridmem a = ridmem b" and "ptree a = ptree b"
  using assms by (cases a; cases b; simp)+

lemmas wakeup_frame = more_msgsys [OF more_wakeup]

lemma port_put_keeps: "po_refs (ports st p) \<noteq> 1 \<Longrightarrow> port_put nil p False st = Some (upd_port p (\<lambda>x. x\<lparr>po_refs := po_refs x - 1\<rparr>) st)"
  by (simp add: port_put_def port_release_def upd_port_def Let_def)

lemma portGet_found:
  assumes "lib_idtreeFind (ptree st) (sint i) = Some p" and "uint i \<le> MAX_ID" and "p \<noteq> NULL"
  shows "proc_portGet i st = Some (upd_port p (\<lambda>x. x\<lparr>po_refs := po_refs x + 1\<rparr>) st, p)"
  using assms by (simp add: proc_portGet_def)

lemma portGet_fields [simp]:
  "ports (upd_port p f st) = (ports st)(p := f (ports st p))" "kmsgs (upd_port p f st) = kmsgs st" "msgmem (upd_port p f st) = msgmem st"
  "ridmem (upd_port p f st) = ridmem st" "ptree (upd_port p f st) = ptree st"
  by (simp_all add: upd_port_def)

lemma upd_kmsg_fields [simp]:
  "kmsgs (upd_kmsg k g st) = (kmsgs st)(k := g (kmsgs st k))" "ports (upd_kmsg k g st) = ports st" "msgmem (upd_kmsg k g st) = msgmem st"
  "ridmem (upd_kmsg k g st) = ridmem st" "ptree (upd_kmsg k g st) = ptree st"
  by (simp_all add: upd_kmsg_def)

lemma upd_msg_fields [simp]:
  "msgmem (upd_msg m g st) = (msgmem st)(m := g (msgmem st m))" "ports (upd_msg m g st) = ports st" "kmsgs (upd_msg m g st) = kmsgs st"
  "ridmem (upd_msg m g st) = ridmem st" "ptree (upd_msg m g st) = ptree st"
  by (simp_all add: upd_msg_def)

section \<open>The two ends of an exchange\<close>

definition taken :: "addr \<Rightarrow> addr \<Rightarrow> 'a msgsys_scheme \<Rightarrow> 'a msgsys_scheme" where
  "taken p k st = upd_port p (\<lambda>x. x\<lparr>po_kmessages := LIST_REMOVE (po_kmessages x) k\<rparr>) (upd_kmsg k (\<lambda>x. x\<lparr>k_state := msg_received\<rparr>) st)"

definition received :: "addr \<Rightarrow> addr \<Rightarrow> addr \<Rightarrow> addr \<Rightarrow> 'a msgsys_scheme \<Rightarrow> 'a msgsys_scheme" where
  "received p k msg ridp st =
     upd_port p (\<lambda>x. x\<lparr>po_refs := po_refs x - 1\<rparr>)
       (upd_msg msg (\<lambda>_. msgmem st (k_msg (kmsgs st k))) (st\<lparr>ridmem := (ridmem st)(ridp := lib_idtreeId (po_rid (ports st p)) k)\<rparr>))"

lemma taken_fields [simp]:
  "ports (taken p k st) = (ports st)(p := (ports st p)\<lparr>po_kmessages := LIST_REMOVE (po_kmessages (ports st p)) k\<rparr>)"
  "kmsgs (taken p k st) = (kmsgs st)(k := (kmsgs st k)\<lparr>k_state := msg_received\<rparr>)"
  "msgmem (taken p k st) = msgmem st" "ridmem (taken p k st) = ridmem st" "ptree (taken p k st) = ptree st"
  by (simp_all add: taken_def)

lemma recv_takes:
  assumes "po_kmessages (ports st p) = k # ks" and "k \<noteq> NULL" and "\<not> po_closed (ports st p)"
  shows "recv_loop nil cpu p msg ridp err st =
    (if err < 0 then map_option (\<lambda>st. Return st err) (port_put nil p False (taken p k st))
     else do {
       (st, i) \<leftarrow> proc_portRidAlloc p k (taken p k st);
       if i < 0 then map_option (\<lambda>st. Return st (- ENOMEM)) (port_put nil p False (reject k st))
       else map_option (\<lambda>st. Return st EOK) (port_put nil p False
              (upd_msg msg (\<lambda>_. msgmem st (k_msg (kmsgs st k))) (st\<lparr>ridmem := (ridmem st)(ridp := lib_idtreeId (po_rid (ports st p)) k)\<rparr>)))
     })"
  using assms by (cases "proc_portRidAlloc p k (taken p k st)") (simp_all add: recv_loop.simps recv_take_def Let_def split_beta flip: taken_def)

lemma recv_returns:
  assumes "po_kmessages (ports st p) = k # ks" and "k \<noteq> NULL" and "\<not> po_closed (ports st p)" and "1 < po_refs (ports st p)"
    and "recv_loop nil cpu p msg ridp 0 st = Some (Return st' EOK)"
  obtains st1 rid where "proc_portRidAlloc p k (taken p k st) = Some (st1, rid)" "0 \<le> rid" "st' = received p k msg ridp st1"
proof -
  obtain st1 rid where a: "proc_portRidAlloc p k (taken p k st) = Some (st1, rid)"
    using assms(5) by (auto simp: recv_takes [OF assms(1-3)] bind_eq_Some_conv)
  have r: "0 \<le> rid" using assms(5) a by (auto simp: recv_takes [OF assms(1-3)] split: if_splits)
  have "po_refs (ports st1 p) = po_refs (ports st p)" using a by (auto simp: proc_portRidAlloc_def bind_eq_Some_conv)
  then have q: "po_refs (ports (upd_msg msg g (st1\<lparr>ridmem := f\<rparr>)) p) \<noteq> 1" for f g using assms(4) by auto
  have "st' = received p k msg ridp st1"
    using assms(5) a r by (simp add: recv_takes [OF assms(1-3)] port_put_keeps [OF q] received_def)
  then show thesis by (rule that [OF a r])
qed

lemma respond_found:
  assumes "lib_idtreeFind (ptree st) (sint i) = Some p" and "uint i \<le> MAX_ID" and "p \<noteq> NULL"
    and "lib_idtreeFind (po_rid (ports st p)) rid = Some k" and "k \<noteq> NULL" and "lib_idtreeRemove nil k (po_rid (ports st p)) = Some h"
    and "po_refs (ports st p) \<noteq> 0"
  shows "\<exists>st'. proc_respond nil cpu i m rid st = Some (st', 0) \<and>
    mg_oraw (msgmem st' (k_msg (kmsgs st k))) = mg_oraw (msgmem st m) \<and> k_state (kmsgs st' k) = msg_responded"
proof -
  define u where "u = upd_port p (\<lambda>x. x\<lparr>po_rid := h\<rparr>) (upd_port p (\<lambda>x. x\<lparr>po_refs := po_refs x + 1\<rparr>) st)"
  define v where "v = upd_kmsg k (\<lambda>x. x\<lparr>k_state := msg_responded, k_src := my_process cpu (upd_msg (k_msg (kmsgs u k)) (\<lambda>x. x\<lparr>mg_oraw := mg_oraw (msgmem u m)\<rparr>) u)\<rparr>)
    (upd_msg (k_msg (kmsgs u k)) (\<lambda>x. x\<lparr>mg_oraw := mg_oraw (msgmem u m)\<rparr>) u)"
  have g: "proc_portRidGet nil p rid (upd_port p (\<lambda>x. x\<lparr>po_refs := po_refs x + 1\<rparr>) st) = Some (u, k)"
    using assms(4-6) by (simp add: proc_portRidGet_def u_def)
  have "po_refs (ports (fst (proc_threadWakeup (Qobj k) v)) p) \<noteq> 1"
    using assms(7) by (simp add: wakeup_frame v_def u_def)
  note q = port_put_keeps [OF this, of nil]
  have "proc_respond nil cpu i m rid st = Some (upd_port p (\<lambda>x. x\<lparr>po_refs := po_refs x - 1\<rparr>) (fst (proc_threadWakeup (Qobj k) v)), 0)"
    using assms(3,5) q by (simp add: proc_respond_def portGet_found [OF assms(1-3)] g Let_def flip: v_def)
  then show ?thesis by (simp add: wakeup_frame v_def u_def)
qed

section \<open>Properties\<close>

text \<open>An answer with an identifier that no message has fails with \<open>-ENOENT\<close> but keeps the reference to the port that the
  call took: the port can never be freed any more.\<close>

theorem respond_unknown_leaks:
  assumes "lib_idtreeFind (ptree st) (sint i) = Some p" and "uint i \<le> MAX_ID" and "p \<noteq> NULL" and "lib_idtreeFind (po_rid (ports st p)) rid = Some NULL"
  shows "\<exists>st'. proc_respond nil cpu i msg rid st = Some (st', - ENOENT) \<and> po_refs (ports st' p) = po_refs (ports st p) + 1"
  using assms(3,4) by (simp add: proc_respond_def portGet_found [OF assms(1-3)] proc_portRidGet_def)

text \<open>A receiver that is interrupted while a message is queued takes the message and returns \<open>-EINTR\<close>: the message is
  in no queue and has no identifier, so nobody can answer it, and its state keeps the sender waiting even when it is
  interrupted.\<close>

theorem recv_interrupted_loses:
  assumes "po_kmessages (ports st p) = k # ks" and "k \<noteq> NULL" and "k \<notin> set ks" and "\<not> po_closed (ports st p)" and "po_refs (ports st p) \<noteq> 1"
  shows "\<exists>st'. recv_resume nil cpu p msg rid (- EINTR) st = Some (Return st' (- EINTR)) \<and> po_kmessages (ports st' p) = ks \<and>
    po_rid (ports st' p) = po_rid (ports st p) \<and> k_state (kmsgs st' k) = msg_received \<and> send_interrupted p k (- EINTR) st' = None"
proof -
  have "po_refs (ports (taken p k st) p) \<noteq> 1" using assms(5) by simp
  note q = port_put_keeps [OF this, of nil]
  have "recv_resume nil cpu p msg rid (- EINTR) st = Some (Return (upd_port p (\<lambda>x. x\<lparr>po_refs := po_refs x - 1\<rparr>) (taken p k st)) (- EINTR))"
    using q by (simp add: recv_resume_def recv_takes [OF assms(1,2,4)])
  then show ?thesis using assms(1,3) by (simp add: LIST_REMOVE_def send_interrupted_def)
qed

text \<open>C10: A receiver that finds a message gets a copy of it and an identifier; the answer given with this identifier goes to
  the buffer of the sender and marks the message as answered.\<close>

theorem message_answered:
  assumes "po_kmessages (ports st p) = k # ks" and "k \<noteq> NULL" and "\<not> po_closed (ports st p)" and "1 < po_refs (ports st p)"
    and "id_nodes (po_rid (ports st p)) xs" "k \<notin> set xs" and "nil \<noteq> NULL" "nil \<noteq> k" "nil \<notin> set xs"
    and "recv_loop nil cpu p msg ridp 0 st = Some (Return st' EOK)"
    and "lib_idtreeFind (ptree st) (sint i) = Some p" "uint i \<le> MAX_ID" "p \<noteq> NULL"
  shows "msgmem st' msg = msgmem st (k_msg (kmsgs st k)) \<and>
    (\<exists>st''. proc_respond nil cpu' i m (ridmem st' ridp) st' = Some (st'', 0) \<and>
      mg_oraw (msgmem st'' (k_msg (kmsgs st k))) = mg_oraw (msgmem st' m) \<and> k_state (kmsgs st'' k) = msg_responded)"
proof -
  obtain st1 rid where a: "proc_portRidAlloc p k (taken p k st) = Some (st1, rid)" "0 \<le> rid" and st': "st' = received p k msg ridp st1"
    using recv_returns [OF assms(1-4,10)] .
  have n: "id_nodes (po_rid (ports (taken p k st) p)) xs" using assms(5) by simp
  obtain h h' ys where st1: "st1 = upd_port p (\<lambda>x. x\<lparr>po_rid := h\<rparr>) (taken p k st)" and "idn h k = rid"
    and "lib_idtreeFind h rid = Some k" "lib_idtreeRemove nil k h = Some h'"
    using ridAlloc_nodes [OF n assms(2,6,7-9) a] by metis
  then have r: "ridmem st' ridp = rid" "lib_idtreeFind (po_rid (ports st' p)) rid = Some k" "lib_idtreeRemove nil k (po_rid (ports st' p)) = Some h'"
    "ptree st' = ptree st" "msgmem st' msg = msgmem st (k_msg (kmsgs st k))" "kmsgs st' k = (kmsgs st k)\<lparr>k_state := msg_received\<rparr>"
    "po_refs (ports st' p) = po_refs (ports st p) - 1"
    by (simp_all add: st' received_def lib_idtreeId_def)
  have "lib_idtreeFind (ptree st') (sint i) = Some p" using assms(11) r(4) by simp
  note respond_found [OF this assms(12,13) r(2) assms(2) r(3), of cpu' m]
  then show ?thesis using r(1,5-7) assms(4) by auto
qed

section \<open>Witnesses\<close>

text \<open>A port with two references and one queued message.\<close>

definition demo_msgs :: msgsys where
  "demo_msgs = upd_port 5 (\<lambda>x. x\<lparr>po_kmessages := [7]\<rparr>) (portsys.extend (demo_ports 2)
     (msgsys.fields (\<lambda>k. \<lparr>k_msg = 70, k_src = 0, k_state = msg_waiting\<rparr>) (\<lambda>m. \<lparr>mg_pid = 0, mg_priority = 4, mg_oraw = [], mg_rest = [of_nat m]\<rparr>) (\<lambda>_. 0)))"

lemma demo_msgs_simps:
  "ptree demo_msgs = id_sample" "po_refs (ports demo_msgs p) = 2" "\<not> po_closed (ports demo_msgs p)" "po_rid (ports demo_msgs p) = idheap0"
  "po_kmessages (ports demo_msgs 5) = [7]" "k_msg (kmsgs demo_msgs k) = 70" "mg_rest (msgmem demo_msgs m) = [of_nat m]"
  by (simp_all add: demo_msgs_def demo_ports_def portsys.defs objects.defs kernel.defs msgsys.defs)

lemma id_sample_find: "lib_idtreeFind id_sample 5 = Some 5"
  using idtreeFind_nodes [OF id_sample_nodes] by (simp add: node_of_id_def id_sample_def)

lemma idheap0_find: "id_nodes idheap0 []" "lib_idtreeFind idheap0 i = Some NULL"
proof -
  show n: "id_nodes idheap0 []" by (simp add: id_nodes_def idheap0_def rb_nodes_def rep_def rb_tree_def)
  show "lib_idtreeFind idheap0 i = Some NULL" using idtreeFind_nodes [OF n] by (simp add: node_of_id_def)
qed

theorem respond_unknown_leaks_witness: "\<exists>st'. proc_respond 90 0 5 70 3 demo_msgs = Some (st', - ENOENT) \<and> po_refs (ports st' 5) = 3"
  using respond_unknown_leaks [of demo_msgs 5 5 3 90 0 70] by (simp add: demo_msgs_simps id_sample_find idheap0_find MAX_ID_def)

theorem recv_interrupted_loses_witness:
  "\<exists>st'. recv_resume 90 0 5 80 81 (- EINTR) demo_msgs = Some (Return st' (- EINTR)) \<and> po_kmessages (ports st' 5) = [] \<and>
     k_state (kmsgs st' 7) = msg_received \<and> send_interrupted 5 7 (- EINTR) st' = None"
  using recv_interrupted_loses [of demo_msgs 5 7 "[]" 90 0 80 81] by (auto simp: demo_msgs_simps)

lemma demo_receives: "\<exists>st'. recv_loop 90 0 5 80 81 0 demo_msgs = Some (Return st' EOK)"
proof -
  have "(case lib_idtreeAlloc 7 0 idheap0 of Some (Returned (h, i)) \<Rightarrow> i = 0 | _ \<Rightarrow> False)" by code_simp
  then obtain h where "lib_idtreeAlloc 7 0 idheap0 = Some (Returned (h, 0))" by (auto split: option.splits asserted.splits)
  then have a: "proc_portRidAlloc 5 7 (taken 5 7 demo_msgs) = Some (upd_port 5 (\<lambda>x. x\<lparr>po_rid := h\<rparr>) (taken 5 7 demo_msgs), 0)"
    by (simp add: proc_portRidAlloc_def demo_msgs_simps)
  have k: "po_kmessages (ports demo_msgs 5) = [7]" "\<not> po_closed (ports demo_msgs 5)" by (simp_all add: demo_msgs_simps)
  show ?thesis using a by (simp add: recv_takes [OF k(1) _ k(2)] port_put_keeps demo_msgs_simps)
qed

theorem message_answered_witness:
  "\<exists>st' st''. recv_loop 90 0 5 80 81 0 demo_msgs = Some (Return st' EOK) \<and> mg_rest (msgmem st' 80) = [70] \<and>
     proc_respond 90 0 5 80 (ridmem st' 81) st' = Some (st'', 0) \<and> k_state (kmsgs st'' 7) = msg_responded"
proof -
  obtain st' where r: "recv_loop 90 0 5 80 81 0 demo_msgs = Some (Return st' EOK)" using demo_receives by auto
  show ?thesis using message_answered [OF _ _ _ _ _ _ _ _ _ r, of 7 "[]" "[]" 5 0 80] r
    by (auto simp: demo_msgs_simps id_sample_find idheap0_find MAX_ID_def)
qed

end
