(* ===== verification/Posix_File.thy ===== *)
theory Posix_File
  imports Proc_Resource Lib_RB_Spec Posix_Flags
begin

text \<open>
  The descriptors and open files of processes, \<^verbatim>\<open>posix/posix.c\<close>. A process has an entry \<open>process_info\<close> in a red-black tree
  ordered by the number of the process, the heap model of \<^verbatim>\<open>lib/rb.c\<close> with \<open>nil\<close> the sentinel of its removal. The table of
  descriptors of a process is a list, whose length is \<open>fdsz\<close>. Sections under a lock are single steps. Blocks from
  \<open>vm_kmalloc\<close> are arguments, \<open>NULL\<close> when it fails, and \<open>mem\<close> says whether the table of descriptors can be allocated; blocks
  given back are recorded in \<open>pfreed\<close>. What servers and \<^verbatim>\<open>posix/unix.c\<close> answer is an argument too, but for the
  answers to a close, which come from the field \<open>close_answers\<close>. A call that never returns is \<open>None\<close>. Offsets are integers.
\<close>

unbundle bit_operations_syntax

section \<open>Data\<close>

datatype ftype = ftRegular | ftPipe | ftFifo | ftInetSocket | ftUnixSocket | ftTty

type_synonym oid_t = "int \<times> int"

record open_file =
  f_ln :: oid_t
  f_oid :: oid_t
  f_refs :: "32 word"
  f_offset :: int
  f_status :: "32 word"
  f_type :: ftype

record fildes =
  fd_file :: addr
  fd_flags :: "32 word"

record process_info =
  i_process :: int
  i_parent :: int
  i_refs :: int
  i_exitcode :: int
  i_children :: "addr list"
  i_zombies :: "addr list"
  i_pgid :: int
  i_maxfd :: nat
  i_fds :: "fildes list"

record posixsys = kernel +
  pids :: rbheap
  pinfos :: "addr \<Rightarrow> process_info"
  files :: "addr \<Rightarrow> open_file"
  close_answers :: "addr \<Rightarrow> int list"
  pfreed :: "addr list"
  intmem :: "addr \<Rightarrow> int"
  sigs :: "(int \<times> int) list"

definition MAX_FD_COUNT :: nat where "MAX_FD_COUNT = 1024"
definition INITIAL_FD_COUNT :: nat where "INITIAL_FD_COUNT = 32"
definition US_PORT :: int where "US_PORT = -1"

definition upd_pinfo :: "addr \<Rightarrow> (process_info \<Rightarrow> process_info) \<Rightarrow> 'a posixsys_scheme \<Rightarrow> 'a posixsys_scheme" where
  "upd_pinfo p f st = st\<lparr>pinfos := (pinfos st)(p := f (pinfos st p))\<rparr>"

definition upd_file :: "addr \<Rightarrow> (open_file \<Rightarrow> open_file) \<Rightarrow> 'a posixsys_scheme \<Rightarrow> 'a posixsys_scheme" where
  "upd_file a f st = st\<lparr>files := (files st)(a := f (files st a))\<rparr>"

text \<open>\<open>p->fds[fd].file = f\<close> and \<open>p->fds[fd].flags = w\<close>.\<close>

definition set_fd :: "addr \<Rightarrow> nat \<Rightarrow> addr \<Rightarrow> 'a posixsys_scheme \<Rightarrow> 'a posixsys_scheme" where
  "set_fd p fd f st = upd_pinfo p (\<lambda>x. x\<lparr>i_fds := (i_fds x)[fd := (i_fds x ! fd)\<lparr>fd_file := f\<rparr>]\<rparr>) st"

definition set_flags :: "addr \<Rightarrow> nat \<Rightarrow> 32 word \<Rightarrow> 'a posixsys_scheme \<Rightarrow> 'a posixsys_scheme" where
  "set_flags p fd w st = upd_pinfo p (\<lambda>x. x\<lparr>i_fds := (i_fds x)[fd := (i_fds x ! fd)\<lparr>fd_flags := w\<rparr>]\<rparr>) st"

definition file_of :: "'a posixsys_scheme \<Rightarrow> addr \<Rightarrow> nat \<Rightarrow> addr" where
  "file_of st p fd = fd_file (i_fds (pinfos st p) ! fd)"

definition fdsz :: "'a posixsys_scheme \<Rightarrow> addr \<Rightarrow> nat" where
  "fdsz st p = length (i_fds (pinfos st p))"

definition pfree :: "addr \<Rightarrow> 'a posixsys_scheme \<Rightarrow> 'a posixsys_scheme" where
  "pfree a st = st\<lparr>pfreed := a # pfreed st\<rparr>"

text \<open>\<open>process_getPid(proc_current()->process)\<close>.\<close>

definition my_pid :: "nat \<Rightarrow> 'a posixsys_scheme \<Rightarrow> int" where
  "my_pid cpu st = p_pid (procs st (my_process cpu st))"

section \<open>Entries of processes\<close>

definition pinfo_cmp :: "process_info \<Rightarrow> process_info \<Rightarrow> int" where
  "pinfo_cmp p1 p2 = (if i_process p1 < i_process p2 then -1 else if i_process p1 > i_process p2 then 1 else 0)"

text \<open>\<open>_pinfo_find\<close>; the search compares with an entry on the stack that only has a number. \<open>pinfo_find\<close> is the same under
  the lock.\<close>

definition pinfo_find :: "int \<Rightarrow> 'a posixsys_scheme \<Rightarrow> ('a posixsys_scheme \<times> addr) option" where
  "pinfo_find pid st = do {
     r \<leftarrow> lib_rbFind (pids st) (\<lambda>n1 n2. pinfo_cmp (pinfos st n1) ((pinfos st NULL)\<lparr>i_process := pid\<rparr>)) NULL;
     Some (if r \<noteq> NULL then upd_pinfo r (\<lambda>x. x\<lparr>i_refs := i_refs x + 1\<rparr>) st else st, r)
   }"

definition pinfo_put :: "addr \<Rightarrow> addr \<Rightarrow> 'a posixsys_scheme \<Rightarrow> 'a posixsys_scheme option" where
  "pinfo_put nil p st = do {
     let st = upd_pinfo p (\<lambda>x. x\<lparr>i_refs := i_refs x - 1\<rparr>) st;
     if i_refs (pinfos st p) \<noteq> 0 then Some st
     else do {
       h \<leftarrow> lib_rbRemove no_augment nil p (pids st);
       Some (pfree p (st\<lparr>pids := h\<rparr>))
     }
   }"

section \<open>Open files\<close>

text \<open>\<open>do err = proc_close(...); while (err == -EINTR);\<close> over the answers that come in.\<close>

fun close_retry :: "int list \<Rightarrow> int option" where
  "close_retry [] = None"
| "close_retry (a # as) = (if a = - EINTR then close_retry as else Some a)"

definition posix_fileDeref :: "addr \<Rightarrow> 'a posixsys_scheme \<Rightarrow> ('a posixsys_scheme \<times> int) option" where
  "posix_fileDeref f st = do {
     let st = upd_file f (\<lambda>x. x\<lparr>f_refs := f_refs x - 1\<rparr>) st;
     if f_refs (files st f) = 0 then do {
       err \<leftarrow> (if f_type (files st f) = ftUnixSocket then (case close_answers st f of [] \<Rightarrow> None | a # _ \<Rightarrow> Some a) else close_retry (close_answers st f));
       Some (pfree f st, err)
     } else Some (st, EOK)
   }"

definition posix_putUnusedFile :: "addr \<Rightarrow> nat \<Rightarrow> 'a posixsys_scheme \<Rightarrow> 'a posixsys_scheme" where
  "posix_putUnusedFile p fd st = set_fd p fd NULL (pfree (file_of st p fd) st)"

definition posix_getOpenFile :: "addr \<Rightarrow> nat \<Rightarrow> int \<Rightarrow> 'a posixsys_scheme \<Rightarrow> ('a posixsys_scheme \<times> int \<times> addr) option" where
  "posix_getOpenFile nil cpu fd st = do {
     (st, p) \<leftarrow> pinfo_find (my_pid cpu st) st;
     if p = NULL then Some (st, - ENOSYS, NULL)
     else if fd < 0 \<or> fd \<ge> int (fdsz st p) \<or> file_of st p (nat fd) = NULL then do {
       st \<leftarrow> pinfo_put nil p st;
       Some (st, - EBADF, NULL)
     } else do {
       let f = file_of st p (nat fd);
       let st = upd_file f (\<lambda>x. x\<lparr>f_refs := f_refs x + 1\<rparr>) st;
       st \<leftarrow> pinfo_put nil p st;
       Some (st, 0, f)
     }
   }"

section \<open>Descriptors\<close>

partial_function (option) grow_size :: "nat \<Rightarrow> nat \<Rightarrow> nat option" where
  "grow_size fd nfdsz = (if fd \<ge> nfdsz then grow_size fd (nfdsz * 2) else Some nfdsz)"

definition no_fd :: fildes where
  "no_fd = \<lparr>fd_file = NULL, fd_flags = 0\<rparr>"

text \<open>The table after it was made larger for \<open>fd\<close>, or \<open>None\<close> inside when there is no memory for it.\<close>

definition grow_table :: "bool \<Rightarrow> nat \<Rightarrow> fildes list \<Rightarrow> nat \<Rightarrow> fildes list option option" where
  "grow_table mem maxfd fds fd = do {
     n \<leftarrow> grow_size fd (length fds);
     let nfdsz = (if n > maxfd then maxfd else n);
     Some (if mem then Some (fds @ replicate (nfdsz - length fds) no_fd) else None)
   }"

partial_function (option) allocfd_loop :: "bool \<Rightarrow> nat \<Rightarrow> fildes list \<Rightarrow> nat \<Rightarrow> (fildes list \<times> int) option" where
  "allocfd_loop mem maxfd fds fd =
     (if fd < maxfd then
        (case (if fd \<ge> length fds then grow_table mem maxfd fds fd else Some (Some fds)) of
           None \<Rightarrow> None
         | Some None \<Rightarrow> Some (fds, -1)
         | Some (Some fds) \<Rightarrow> if fd_file (fds ! fd) = NULL then Some (fds, int fd) else allocfd_loop mem maxfd fds (fd + 1))
      else Some (fds, -1))"

definition posix_allocfd :: "bool \<Rightarrow> addr \<Rightarrow> nat \<Rightarrow> 'a posixsys_scheme \<Rightarrow> ('a posixsys_scheme \<times> int) option" where
  "posix_allocfd mem p fd st =
     map_option (\<lambda>(fds, r). (upd_pinfo p (\<lambda>x. x\<lparr>i_fds := fds\<rparr>) st, r)) (allocfd_loop mem (i_maxfd (pinfos st p)) (i_fds (pinfos st p)) fd)"

definition posix_newFile :: "bool \<Rightarrow> addr \<Rightarrow> addr \<Rightarrow> nat \<Rightarrow> 'a posixsys_scheme \<Rightarrow> ('a posixsys_scheme \<times> int) option" where
  "posix_newFile mem f p fd st = do {
     (st, fd) \<leftarrow> posix_allocfd mem p fd st;
     if fd < 0 then Some (st, - ENFILE)
     else if f = NULL then Some (st, - ENOMEM)
     else do {
       let st = set_fd p (nat fd) f st;
       Some (upd_file f (\<lambda>_. \<lparr>f_ln = (0, 0), f_oid = (0, 0), f_refs = 1, f_offset = 0, f_status = 0, f_type = ftRegular\<rparr>) st, fd)
     }
   }"

definition posix_addOpenFile :: "bool \<Rightarrow> addr \<Rightarrow> addr \<Rightarrow> 32 word \<Rightarrow> 'a posixsys_scheme \<Rightarrow> ('a posixsys_scheme \<times> int) option" where
  "posix_addOpenFile mem p f flags st = do {
     (st, fd) \<leftarrow> posix_allocfd mem p 0 st;
     if fd < 0 then Some (st, - ENFILE) else Some (set_flags p (nat fd) flags (set_fd p (nat fd) f st), fd)
   }"

section \<open>Calls\<close>

text \<open>What the servers answer to the calls of \<open>posix_open\<close>: the port of the pipe server, the look-up with its two objects, the
  creation with its object, the opening, and the size of the file.\<close>

record open_answers =
  a_pipes :: int
  a_lookup :: int
  a_ln :: oid_t
  a_oid :: oid_t
  a_create :: int
  a_created :: oid_t
  a_open :: int
  a_size :: int

text \<open>The objects found or created, or the error.\<close>

definition open_object :: "32 word \<Rightarrow> open_answers \<Rightarrow> int + (oid_t \<times> oid_t)" where
  "open_object oflag a =
     (if a_lookup a = - ENOENT \<and> oflag AND O_CREAT \<noteq> 0 then
        (if a_create a < 0 then Inl (- EIO) else Inr (a_created a, a_created a))
      else if a_lookup a < 0 then Inl (a_lookup a)
      else Inr (a_ln a, a_oid a))"

text \<open>The value of \<open>err\<close> after the opening; a unix socket keeps that of the look-up.\<close>

definition open_err :: "open_answers \<Rightarrow> oid_t \<Rightarrow> int" where
  "open_err a oid = (if fst oid \<noteq> US_PORT then a_open a else a_lookup a)"

definition open_fill :: "32 word \<Rightarrow> open_answers \<Rightarrow> oid_t \<Rightarrow> oid_t \<Rightarrow> open_file \<Rightarrow> open_file" where
  "open_fill oflag a ln oid x =
     x\<lparr>f_oid := (if open_err a oid = 0 then oid else (fst oid, open_err a oid)),
       f_ln := ln,
       f_refs := 1,
       f_type := (if fst oid = US_PORT then ftUnixSocket else if fst oid = a_pipes a then ftPipe else ftRegular),
       f_offset := (if oflag AND O_APPEND \<noteq> 0 then a_size a else 0),
       f_status := oflag AND NOT (O_CREAT OR O_EXCL OR O_NOCTTY OR O_TRUNC OR O_CLOEXEC)\<rparr>"

text \<open>The descriptor is taken with its file before the look-up; after an error it is given back.\<close>

definition open_taken :: "addr \<Rightarrow> 32 word \<Rightarrow> open_answers \<Rightarrow> addr \<Rightarrow> nat \<Rightarrow> addr \<Rightarrow> 'a posixsys_scheme \<Rightarrow> ('a posixsys_scheme \<times> int) option" where
  "open_taken nil oflag a p fd f st = do {
     let st = set_fd p fd f st;
     (case open_object oflag a of
        Inr (ln, oid) \<Rightarrow>
          if fst oid \<noteq> US_PORT \<and> a_open a < 0 then do {
            st \<leftarrow> pinfo_put nil p (pfree f (set_fd p fd NULL st));
            Some (st, a_open a)
          } else do {
            let st = set_flags p fd (if oflag AND O_CLOEXEC \<noteq> 0 then FD_CLOEXEC else 0) st;
            st \<leftarrow> pinfo_put nil p (upd_file f (open_fill oflag a ln oid) st);
            Some (st, int fd)
          }
      | Inl err \<Rightarrow> do {
          st \<leftarrow> pinfo_put nil p (pfree f (set_fd p fd NULL st));
          Some (st, err)
        })
   }"

definition posix_open :: "addr \<Rightarrow> nat \<Rightarrow> bool \<Rightarrow> addr \<Rightarrow> 32 word \<Rightarrow> open_answers \<Rightarrow> 'a posixsys_scheme \<Rightarrow> ('a posixsys_scheme \<times> int) option" where
  "posix_open nil cpu mem f oflag a st = do {
     (st, p) \<leftarrow> pinfo_find (my_pid cpu st) st;
     if p = NULL then Some (st, -1)
     else do {
       (st, fd) \<leftarrow> posix_allocfd mem p 0 st;
       if fd < 0 then map_option (\<lambda>st. (st, - EBADF)) (pinfo_put nil p st)
       else if f = NULL then map_option (\<lambda>st. (st, - ENOMEM)) (pinfo_put nil p st)
       else open_taken nil oflag a p (nat fd) f st
     }
   }"

definition posix_close :: "addr \<Rightarrow> nat \<Rightarrow> int \<Rightarrow> 'a posixsys_scheme \<Rightarrow> ('a posixsys_scheme \<times> int) option" where
  "posix_close nil cpu fd st = do {
     (st, p) \<leftarrow> pinfo_find (my_pid cpu st) st;
     if p = NULL then Some (st, -1)
     else if fd < 0 \<or> fd \<ge> int (fdsz st p) \<or> file_of st p (nat fd) = NULL then map_option (\<lambda>st. (st, - EBADF)) (pinfo_put nil p st)
     else do {
       let f = file_of st p (nat fd);
       st \<leftarrow> pinfo_put nil p (set_fd p (nat fd) NULL st);
       posix_fileDeref f st
     }
   }"

text \<open>\<open>posix_read\<close> and \<open>posix_write\<close>; \<open>ans\<close> gives the answer to the request at the offset and with the status of the file.\<close>

definition posix_transfer :: "32 word \<Rightarrow> addr \<Rightarrow> nat \<Rightarrow> int \<Rightarrow> (open_file \<Rightarrow> int) \<Rightarrow> 'a posixsys_scheme \<Rightarrow> ('a posixsys_scheme \<times> int) option" where
  "posix_transfer refused nil cpu fd ans st = do {
     (st, err, f) \<leftarrow> posix_getOpenFile nil cpu fd st;
     if err < 0 then Some (st, err)
     else if f_status (files st f) AND refused \<noteq> 0 then do {
       (st, _) \<leftarrow> posix_fileDeref f st;
       Some (st, - EBADF)
     } else do {
       let rcnt = ans (files st f);
       let st = (if rcnt > 0 then upd_file f (\<lambda>x. x\<lparr>f_offset := f_offset x + rcnt\<rparr>) st else st);
       (st, _) \<leftarrow> posix_fileDeref f st;
       Some (st, rcnt)
     }
   }"

definition posix_read :: "addr \<Rightarrow> nat \<Rightarrow> int \<Rightarrow> (open_file \<Rightarrow> int) \<Rightarrow> 'a posixsys_scheme \<Rightarrow> ('a posixsys_scheme \<times> int) option" where
  "posix_read = posix_transfer O_WRONLY"

definition posix_write :: "addr \<Rightarrow> nat \<Rightarrow> int \<Rightarrow> (open_file \<Rightarrow> int) \<Rightarrow> 'a posixsys_scheme \<Rightarrow> ('a posixsys_scheme \<times> int) option" where
  "posix_write = posix_transfer O_RDONLY"

definition posix_getOid :: "addr \<Rightarrow> nat \<Rightarrow> int \<Rightarrow> 'a posixsys_scheme \<Rightarrow> ('a posixsys_scheme \<times> int \<times> oid_t option) option" where
  "posix_getOid nil cpu fd st = do {
     (st, err, f) \<leftarrow> posix_getOpenFile nil cpu fd st;
     if err < 0 then Some (st, err, None)
     else do {
       let oid = f_oid (files st f);
       (st, _) \<leftarrow> posix_fileDeref f st;
       Some (st, EOK, Some oid)
     }
   }"

definition posix_dup :: "addr \<Rightarrow> nat \<Rightarrow> bool \<Rightarrow> int \<Rightarrow> 'a posixsys_scheme \<Rightarrow> ('a posixsys_scheme \<times> int) option" where
  "posix_dup nil cpu mem fd st = do {
     (st, p) \<leftarrow> pinfo_find (my_pid cpu st) st;
     if p = NULL then Some (st, -1)
     else if fd < 0 \<or> fd \<ge> int (fdsz st p) \<or> file_of st p (nat fd) = NULL then map_option (\<lambda>st. (st, - EBADF)) (pinfo_put nil p st)
     else do {
       let f = file_of st p (nat fd);
       (st, newfd) \<leftarrow> posix_allocfd mem p 0 st;
       if newfd < 0 then map_option (\<lambda>st. (st, - EBADF)) (pinfo_put nil p st)
       else do {
         let st = upd_file f (\<lambda>x. x\<lparr>f_refs := f_refs x + 1\<rparr>) (set_flags p (nat newfd) 0 (set_fd p (nat newfd) f st));
         map_option (\<lambda>st. (st, newfd)) (pinfo_put nil p st)
       }
     }
   }"

text \<open>The part of \<open>_posix_dup2\<close> after the checks.\<close>

definition dup2_replace :: "addr \<Rightarrow> nat \<Rightarrow> nat \<Rightarrow> 'a posixsys_scheme \<Rightarrow> ('a posixsys_scheme \<times> int) option" where
  "dup2_replace p fd fd2 st = do {
     let f = file_of st p fd;
     let f2 = file_of st p fd2;
     st \<leftarrow> (if f2 \<noteq> NULL then map_option fst (posix_fileDeref f2 (set_fd p fd2 NULL st)) else Some st);
     Some (upd_file f (\<lambda>x. x\<lparr>f_refs := f_refs x + 1\<rparr>) (set_flags p fd2 0 (set_fd p fd2 f st)), int fd2)
   }"

definition posix_dup2_table :: "bool \<Rightarrow> addr \<Rightarrow> int \<Rightarrow> int \<Rightarrow> 'a posixsys_scheme \<Rightarrow> ('a posixsys_scheme \<times> int) option" where
  "posix_dup2_table mem p fd fd2 st =
     (if fd < 0 \<or> fd \<ge> int (fdsz st p) then Some (st, - EBADF)
      else if fd2 < 0 \<or> fd2 \<ge> int (i_maxfd (pinfos st p)) then Some (st, - EBADF)
      else if file_of st p (nat fd) = NULL then Some (st, - EBADF)
      else do {
        (st, nfd2) \<leftarrow> (if fd2 \<ge> int (fdsz st p) then posix_allocfd mem p (nat fd2) st else Some (st, fd2));
        if nfd2 \<noteq> fd2 then Some (st, - EFAULT) else dup2_replace p (nat fd) (nat fd2) st
      })"

definition posix_dup2 :: "addr \<Rightarrow> nat \<Rightarrow> bool \<Rightarrow> int \<Rightarrow> int \<Rightarrow> 'a posixsys_scheme \<Rightarrow> ('a posixsys_scheme \<times> int) option" where
  "posix_dup2 nil cpu mem fd fd2 st = do {
     (st, p) \<leftarrow> pinfo_find (my_pid cpu st) st;
     if p = NULL then Some (st, -1)
     else do {
       (st, r) \<leftarrow> posix_dup2_table mem p fd fd2 st;
       map_option (\<lambda>st. (st, r)) (pinfo_put nil p st)
     }
   }"

text \<open>The two ends of a pipe, \<open>fildes[0]\<close> for reading and \<open>fildes[1]\<close> for writing.\<close>

definition pipe_end :: "oid_t \<Rightarrow> 32 word \<Rightarrow> open_file \<Rightarrow> open_file" where
  "pipe_end oid status x = x\<lparr>f_oid := oid, f_refs := 1, f_offset := 0, f_type := ftPipe, f_status := status\<rparr>"

text \<open>The part of \<open>posix_pipe\<close> after the server has made the pipe and the two files are allocated.\<close>

definition pipe_install :: "addr \<Rightarrow> bool \<Rightarrow> bool \<Rightarrow> oid_t \<Rightarrow> addr \<Rightarrow> addr \<Rightarrow> addr \<Rightarrow> 'a posixsys_scheme \<Rightarrow> ('a posixsys_scheme \<times> int \<times> int \<times> int) option" where
  "pipe_install nil mem mem2 oid p fo fi st = do {
     (st, fd0) \<leftarrow> posix_allocfd mem p 0 st;
     (st, fd1) \<leftarrow> (if fd0 \<ge> 0 then posix_allocfd mem2 p (nat fd0 + 1) st else Some (st, -1));
     if fd0 < 0 \<or> fd1 < 0 then do {
       st \<leftarrow> pinfo_put nil p (pfree fi (pfree fo st));
       Some (st, - EMFILE, fd0, fd1)
     } else do {
       let st = set_flags p (nat fd0) 0 (set_flags p (nat fd1) 0 st);
       let st = upd_file fo (pipe_end oid O_RDONLY) (set_fd p (nat fd0) fo st);
       let st = upd_file fi (pipe_end oid O_WRONLY) (set_fd p (nat fd1) fi st);
       st \<leftarrow> pinfo_put nil p st;
       Some (st, 0, fd0, fd1)
     }
   }"

text \<open>\<open>lookup\<close> and \<open>create\<close> are the answers to the look-up of the pipe server and to the creation, \<open>oid\<close> the object created. The
  result is the error with the two descriptors.\<close>

definition posix_pipe :: "addr \<Rightarrow> nat \<Rightarrow> int \<Rightarrow> int \<Rightarrow> oid_t \<Rightarrow> addr \<Rightarrow> addr \<Rightarrow> bool \<Rightarrow> bool \<Rightarrow> 'a posixsys_scheme \<Rightarrow>
    ('a posixsys_scheme \<times> int \<times> int \<times> int) option" where
  "posix_pipe nil cpu lookup create oid fo fi mem mem2 st = do {
     (st, p) \<leftarrow> pinfo_find (my_pid cpu st) st;
     if p = NULL then Some (st, -1, -1, -1)
     else if lookup < 0 then map_option (\<lambda>st. (st, if lookup = - EINTR then lookup else - ENOSYS, -1, -1)) (pinfo_put nil p st)
     else if create < 0 then map_option (\<lambda>st. (st, create, -1, -1)) (pinfo_put nil p st)
     else if fo = NULL then map_option (\<lambda>st. (st, - ENOMEM, -1, -1)) (pinfo_put nil p st)
     else if fi = NULL then map_option (\<lambda>st. (st, - ENOMEM, -1, -1)) (pinfo_put nil p (pfree fo st))
     else pipe_install nil mem mem2 oid p fo fi st
   }"

datatype whence = SEEK_SET | SEEK_CUR | SEEK_END | SEEK_OTHER

definition seek_to :: "whence \<Rightarrow> int \<Rightarrow> int \<Rightarrow> int \<Rightarrow> int" where
  "seek_to whence sz pos offset =
     (case whence of SEEK_SET \<Rightarrow> offset | SEEK_CUR \<Rightarrow> pos + offset | SEEK_END \<Rightarrow> sz + offset | SEEK_OTHER \<Rightarrow> -1)"

text \<open>\<open>sz\<close> is what \<open>proc_size\<close> answers; the result is the error with the new value of \<open>*offset\<close>.\<close>

definition posix_lseek :: "addr \<Rightarrow> nat \<Rightarrow> int \<Rightarrow> int \<Rightarrow> whence \<Rightarrow> int \<Rightarrow> 'a posixsys_scheme \<Rightarrow> ('a posixsys_scheme \<times> int \<times> int) option" where
  "posix_lseek nil cpu fd offset whence sz st = do {
     (st, err, f) \<leftarrow> posix_getOpenFile nil cpu fd st;
     if err \<noteq> 0 then Some (st, err, offset)
     else if sz < 0 then do {
       (st, _) \<leftarrow> posix_fileDeref f st;
       Some (st, - ESPIPE, offset)
     } else do {
       let scnt = seek_to whence sz (f_offset (files st f)) offset;
       let st = (if scnt \<ge> 0 then upd_file f (\<lambda>x. x\<lparr>f_offset := scnt\<rparr>) st else st);
       (st, _) \<leftarrow> posix_fileDeref f st;
       Some (st, if scnt \<ge> 0 then 0 else - EINVAL, scnt)
     }
   }"

definition posix_fcntlDup :: "addr \<Rightarrow> nat \<Rightarrow> bool \<Rightarrow> int \<Rightarrow> int \<Rightarrow> bool \<Rightarrow> 'a posixsys_scheme \<Rightarrow> ('a posixsys_scheme \<times> int) option" where
  "posix_fcntlDup nil cpu mem fd fd2 cloexec st = do {
     (st, p) \<leftarrow> pinfo_find (my_pid cpu st) st;
     if p = NULL then Some (st, -1)
     else if fd < 0 \<or> fd \<ge> int (fdsz st p) \<or> fd2 < 0 \<or> fd2 \<ge> int (i_maxfd (pinfos st p)) then map_option (\<lambda>st. (st, - EBADF)) (pinfo_put nil p st)
     else do {
       (st, fd2) \<leftarrow> posix_allocfd mem p (nat fd2) st;
       (st, err) \<leftarrow> posix_dup2_table mem p fd fd2 st;
       let st = (if err = fd2 \<and> cloexec then set_flags p (nat fd2) FD_CLOEXEC st else st);
       map_option (\<lambda>st. (st, err)) (pinfo_put nil p st)
     }
   }"

definition posix_fcntlSetFd :: "addr \<Rightarrow> nat \<Rightarrow> int \<Rightarrow> 32 word \<Rightarrow> 'a posixsys_scheme \<Rightarrow> ('a posixsys_scheme \<times> int) option" where
  "posix_fcntlSetFd nil cpu fd flags st = do {
     (st, p) \<leftarrow> pinfo_find (my_pid cpu st) st;
     if p = NULL then Some (st, - ENOSYS)
     else if fd < 0 \<or> fd \<ge> int (fdsz st p) then map_option (\<lambda>st. (st, - EBADF)) (pinfo_put nil p st)
     else if file_of st p (nat fd) \<noteq> NULL then map_option (\<lambda>st. (st, EOK)) (pinfo_put nil p (set_flags p (nat fd) flags st))
     else map_option (\<lambda>st. (st, - EBADF)) (pinfo_put nil p st)
   }"

definition posix_fcntlGetFd :: "addr \<Rightarrow> nat \<Rightarrow> int \<Rightarrow> 'a posixsys_scheme \<Rightarrow> ('a posixsys_scheme \<times> int) option" where
  "posix_fcntlGetFd nil cpu fd st = do {
     (st, p) \<leftarrow> pinfo_find (my_pid cpu st) st;
     if p = NULL then Some (st, - ENOSYS)
     else if fd < 0 \<or> fd \<ge> int (fdsz st p) then map_option (\<lambda>st. (st, - EBADF)) (pinfo_put nil p st)
     else do {
       let err = (if file_of st p (nat fd) \<noteq> NULL then sint (fd_flags (i_fds (pinfos st p) ! nat fd)) else - EBADF);
       map_option (\<lambda>st. (st, err)) (pinfo_put nil p st)
     }
   }"

text \<open>For a socket the answer of \<open>inet_setfl\<close> or \<open>unix_setfl\<close> is an argument.\<close>

definition posix_fcntlSetFl :: "addr \<Rightarrow> nat \<Rightarrow> int \<Rightarrow> 32 word \<Rightarrow> int \<Rightarrow> 'a posixsys_scheme \<Rightarrow> ('a posixsys_scheme \<times> int) option" where
  "posix_fcntlSetFl nil cpu fd val ans st = do {
     let ignorefl = O_CREAT OR O_EXCL OR O_NOCTTY OR O_TRUNC OR O_RDONLY OR O_RDWR OR O_WRONLY;
     (st, err, f) \<leftarrow> posix_getOpenFile nil cpu fd st;
     if err \<noteq> 0 then Some (st, err)
     else do {
       let (st, err) = (if f_type (files st f) = ftInetSocket \<or> f_type (files st f) = ftUnixSocket then (st, ans)
                        else (upd_file f (\<lambda>x. x\<lparr>f_status := (val AND NOT ignorefl) OR (f_status x AND ignorefl)\<rparr>) st, err));
       (st, _) \<leftarrow> posix_fileDeref f st;
       Some (st, err)
     }
   }"

definition posix_fcntlGetFl :: "addr \<Rightarrow> nat \<Rightarrow> int \<Rightarrow> int \<Rightarrow> 'a posixsys_scheme \<Rightarrow> ('a posixsys_scheme \<times> int) option" where
  "posix_fcntlGetFl nil cpu fd ans st = do {
     (st, err, f) \<leftarrow> posix_getOpenFile nil cpu fd st;
     if err \<noteq> 0 then Some (st, err)
     else do {
       let err = (if f_type (files st f) = ftInetSocket \<or> f_type (files st f) = ftUnixSocket then ans else sint (f_status (files st f)));
       (st, _) \<leftarrow> posix_fileDeref f st;
       Some (st, err)
     }
   }"

datatype fcntl_cmd = F_DUPFD int | F_DUPFD_CLOEXEC int | F_GETFD | F_SETFD "32 word" | F_GETFL | F_SETFL "32 word" | F_LOCKS | F_OTHER

text \<open>\<open>posix_fcntl\<close>; the commands carry the argument that is read from the stack. The three commands for locks do nothing.\<close>

definition posix_fcntl :: "addr \<Rightarrow> nat \<Rightarrow> bool \<Rightarrow> int \<Rightarrow> int \<Rightarrow> fcntl_cmd \<Rightarrow> 'a posixsys_scheme \<Rightarrow> ('a posixsys_scheme \<times> int) option" where
  "posix_fcntl nil cpu mem ans fd cmd st =
     (case cmd of
        F_DUPFD_CLOEXEC fd2 \<Rightarrow> posix_fcntlDup nil cpu mem fd fd2 True st
      | F_DUPFD fd2 \<Rightarrow> posix_fcntlDup nil cpu mem fd fd2 False st
      | F_GETFD \<Rightarrow> posix_fcntlGetFd nil cpu fd st
      | F_SETFD arg \<Rightarrow> posix_fcntlSetFd nil cpu fd arg st
      | F_GETFL \<Rightarrow> posix_fcntlGetFl nil cpu fd ans st
      | F_SETFL arg \<Rightarrow> posix_fcntlSetFl nil cpu fd arg ans st
      | F_LOCKS \<Rightarrow> Some (st, EOK)
      | F_OTHER \<Rightarrow> Some (st, - EINVAL))"

end
