(* ===== verification/Posix_Proc.thy ===== *)
theory Posix_Proc
  imports Posix_File
begin

text \<open>
  Processes and their families, \<^verbatim>\<open>posix/posix.c\<close>: creation with a copy of the descriptors of the parent, the end of a process,
  which becomes a zombie until its parent asks for its exit code, process groups, and waiting for children. A call that
  waits ends in \<open>Block\<close>, and \<open>waitpid_resume\<close> goes on with the value of the wait. Signals to be sent are recorded in \<open>sigs\<close>.
\<close>

section \<open>Creation\<close>

text \<open>\<open>++f->refs\<close> for the files of a table.\<close>

fun share_files :: "addr list \<Rightarrow> 'a posixsys_scheme \<Rightarrow> 'a posixsys_scheme" where
  "share_files [] st = st"
| "share_files (f # fs) st = share_files fs (if f \<noteq> NULL then upd_file f (\<lambda>x. x\<lparr>f_refs := f_refs x + 1\<rparr>) st else st)"

text \<open>The three files on the console of a process without a parent, on the blocks that are left; \<open>False\<close> when memory runs out and
  the files made so far were given back.\<close>

fun undo_files :: "addr \<Rightarrow> nat \<Rightarrow> 'a posixsys_scheme \<Rightarrow> 'a posixsys_scheme" where
  "undo_files p 0 st = st"
| "undo_files p (Suc i) st = undo_files p i (posix_putUnusedFile p i st)"

fun console_files :: "addr \<Rightarrow> nat \<Rightarrow> addr list \<Rightarrow> 'a posixsys_scheme \<Rightarrow> 'a posixsys_scheme \<times> bool" where
  "console_files p i [] st = (st, True)"
| "console_files p i (f # fs) st =
     (let st = set_fd p i f st
      in if f = NULL then (undo_files p i st, False)
         else console_files p (i + 1) fs
                (set_flags p i 0 (upd_file f (\<lambda>x. x\<lparr>f_refs := 1, f_offset := 0, f_type := ftTty, f_oid := (0, 0)\<rparr>) st)))"

definition console_status :: "addr \<Rightarrow> 'a posixsys_scheme \<Rightarrow> 'a posixsys_scheme" where
  "console_status p st =
     upd_file (file_of st p 2) (\<lambda>x. x\<lparr>f_status := O_WRONLY\<rparr>)
       (upd_file (file_of st p 1) (\<lambda>x. x\<lparr>f_status := O_WRONLY\<rparr>)
         (upd_file (file_of st p 0) (\<lambda>x. x\<lparr>f_status := O_RDONLY\<rparr>) st))"

text \<open>\<open>lib_rbInsert(&posix_common.pid, &p->linkage)\<close>, whose result is ignored.\<close>

definition pinfo_insert :: "addr \<Rightarrow> 'a posixsys_scheme \<Rightarrow> 'a posixsys_scheme option" where
  "pinfo_insert p st =
     map_option (\<lambda>(t, e). st\<lparr>pids := t\<rparr>) (lib_rbInsert no_augment (\<lambda>a b. pinfo_cmp (pinfos st a) (pinfos st b)) p (pids st))"

text \<open>A process with the parent \<open>pp\<close>, whose lock is held, and one without.\<close>

definition clone_child :: "addr \<Rightarrow> bool \<Rightarrow> int \<Rightarrow> addr \<Rightarrow> addr \<Rightarrow> int \<Rightarrow> 'a posixsys_scheme \<Rightarrow> ('a posixsys_scheme \<times> int) option" where
  "clone_child nil mem pid p pp ppid st = do {
     let st = upd_pinfo p (\<lambda>x. x\<lparr>i_maxfd := i_maxfd (pinfos st pp)\<rparr>) st;
     let st = upd_pinfo pp (\<lambda>x. x\<lparr>i_children := LIST_ADD (i_children x) p\<rparr>) st;
     let st = upd_pinfo p (\<lambda>x. x\<lparr>i_parent := ppid, i_process := pid\<rparr>) st;
     if \<not> mem then map_option (\<lambda>st. (st, - ENOMEM)) (pinfo_put nil pp (pfree p st))
     else do {
       let st = upd_pinfo p (\<lambda>x. x\<lparr>i_fds := i_fds (pinfos st pp)\<rparr>) st;
       let st = share_files (map fd_file (i_fds (pinfos st p))) st;
       st \<leftarrow> pinfo_put nil pp (upd_pinfo p (\<lambda>x. x\<lparr>i_pgid := i_pgid (pinfos st pp)\<rparr>) st);
       map_option (\<lambda>st. (st, EOK)) (pinfo_insert p st)
     }
   }"

definition clone_first :: "bool \<Rightarrow> addr list \<Rightarrow> int \<Rightarrow> addr \<Rightarrow> 'a posixsys_scheme \<Rightarrow> ('a posixsys_scheme \<times> int) option" where
  "clone_first mem fs pid p st = do {
     let st = upd_pinfo p (\<lambda>x. x\<lparr>i_parent := 0, i_maxfd := MAX_FD_COUNT, i_process := pid\<rparr>) st;
     if \<not> mem then Some (pfree p st, - ENOMEM)
     else do {
       let st = upd_pinfo p (\<lambda>x. x\<lparr>i_fds := replicate INITIAL_FD_COUNT no_fd\<rparr>) st;
       let (st, ok) = console_files p 0 (take 3 fs) st;
       if \<not> ok then Some (pfree p st, - ENOMEM)
       else map_option (\<lambda>st. (st, EOK)) (pinfo_insert p (upd_pinfo p (\<lambda>x. x\<lparr>i_pgid := pid\<rparr>) (console_status p st)))
     }
   }"

text \<open>\<open>posix_clone\<close>; \<open>p\<close> is the block for the entry and \<open>fs\<close> those for the files on the console.\<close>

definition posix_clone :: "addr \<Rightarrow> nat \<Rightarrow> bool \<Rightarrow> addr list \<Rightarrow> addr \<Rightarrow> int \<Rightarrow> 'a posixsys_scheme \<Rightarrow> ('a posixsys_scheme \<times> int) option" where
  "posix_clone nil cpu mem fs p ppid st =
     (if p = NULL then Some (st, - ENOMEM)
      else do {
        let st = set_queue (Qobj p) (Queue []) (upd_pinfo p (\<lambda>x. x\<lparr>i_children := [], i_zombies := [], i_refs := 1\<rparr>) st);
        (st, pp) \<leftarrow> pinfo_find ppid st;
        if pp \<noteq> NULL then clone_child nil mem (my_pid cpu st) p pp ppid st else clone_first mem fs (my_pid cpu st) p st
      })"

section \<open>Exec and exit\<close>

text \<open>The loops over the descriptors below \<open>fdsz\<close>, from the descriptor \<open>fd\<close> on for \<open>n\<close> more.\<close>

fun exec_close :: "addr \<Rightarrow> nat \<Rightarrow> nat \<Rightarrow> 'a posixsys_scheme \<Rightarrow> 'a posixsys_scheme option" where
  "exec_close p fd 0 st = Some st"
| "exec_close p fd (Suc n) st = do {
     st \<leftarrow> (if file_of st p fd \<noteq> NULL \<and> fd_flags (i_fds (pinfos st p) ! fd) AND FD_CLOEXEC \<noteq> 0
            then map_option (\<lambda>(st, _). set_fd p fd NULL st) (posix_fileDeref (file_of st p fd) st) else Some st);
     exec_close p (fd + 1) n st
   }"

definition posix_exec :: "addr \<Rightarrow> nat \<Rightarrow> 'a posixsys_scheme \<Rightarrow> ('a posixsys_scheme \<times> int) option" where
  "posix_exec nil cpu st = do {
     (st, p) \<leftarrow> pinfo_find (my_pid cpu st) st;
     if p = NULL then Some (st, -1)
     else do {
       st \<leftarrow> exec_close p 0 (fdsz st p) st;
       map_option (\<lambda>st. (st, 0)) (pinfo_put nil p st)
     }
   }"

fun exit_close :: "addr \<Rightarrow> nat \<Rightarrow> nat \<Rightarrow> 'a posixsys_scheme \<Rightarrow> 'a posixsys_scheme option" where
  "exit_close p fd 0 st = Some st"
| "exit_close p fd (Suc n) st = do {
     st \<leftarrow> (if file_of st p fd \<noteq> NULL then map_option fst (posix_fileDeref (file_of st p fd) st) else Some st);
     exit_close p (fd + 1) n st
   }"

definition posix_exit :: "addr \<Rightarrow> int \<Rightarrow> 'a posixsys_scheme \<Rightarrow> ('a posixsys_scheme \<times> int) option" where
  "posix_exit p code st = do {
     let st = upd_pinfo p (\<lambda>x. x\<lparr>i_exitcode := code\<rparr>) st;
     map_option (\<lambda>st. (st, 0)) (exit_close p 0 (fdsz st p) st)
   }"

section \<open>Process groups\<close>

definition posix_setpgid :: "addr \<Rightarrow> nat \<Rightarrow> int \<Rightarrow> int \<Rightarrow> 'a posixsys_scheme \<Rightarrow> ('a posixsys_scheme \<times> int) option" where
  "posix_setpgid nil cpu pid pgid st =
     (if pid < 0 \<or> pgid < 0 then Some (st, - EINVAL)
      else do {
        let pid = (if pid = 0 then my_pid cpu st else pid);
        let pgid = (if pgid = 0 then pid else pgid);
        (st, p) \<leftarrow> pinfo_find pid st;
        if p = NULL then Some (st, - ESRCH)
        else map_option (\<lambda>st. (st, EOK)) (pinfo_put nil p (upd_pinfo p (\<lambda>x. x\<lparr>i_pgid := pgid\<rparr>) st))
      })"

definition posix_getpgid :: "addr \<Rightarrow> nat \<Rightarrow> int \<Rightarrow> 'a posixsys_scheme \<Rightarrow> ('a posixsys_scheme \<times> int) option" where
  "posix_getpgid nil cpu pid st =
     (if pid < 0 then Some (st, - EINVAL)
      else do {
        let pid = (if pid = 0 then my_pid cpu st else pid);
        (st, p) \<leftarrow> pinfo_find pid st;
        if p = NULL then Some (st, - ESRCH)
        else map_option (\<lambda>st'. (st', i_pgid (pinfos st p))) (pinfo_put nil p st)
      })"

definition posix_setsid :: "addr \<Rightarrow> nat \<Rightarrow> 'a posixsys_scheme \<Rightarrow> ('a posixsys_scheme \<times> int) option" where
  "posix_setsid nil cpu st = do {
     let pid = my_pid cpu st;
     (st, p) \<leftarrow> pinfo_find pid st;
     if p = NULL then Some (st, - EPERM)
     else if i_pgid (pinfos st p) = pid then map_option (\<lambda>st. (st, - EPERM)) (pinfo_put nil p st)
     else map_option (\<lambda>st. (st, pid)) (pinfo_put nil p (upd_pinfo p (\<lambda>x. x\<lparr>i_pgid := pid\<rparr>) st))
   }"

definition posix_getppid :: "addr \<Rightarrow> int \<Rightarrow> 'a posixsys_scheme \<Rightarrow> ('a posixsys_scheme \<times> int) option" where
  "posix_getppid nil pid st = do {
     (st, p) \<leftarrow> pinfo_find pid st;
     if p = NULL then Some (st, - ENOSYS)
     else map_option (\<lambda>st'. (st', i_parent (pinfos st p))) (pinfo_put nil p st)
   }"

section \<open>Waiting for children\<close>

definition waitpid_match :: "int \<Rightarrow> int \<Rightarrow> process_info \<Rightarrow> bool" where
  "waitpid_match child pgid c \<longleftrightarrow>
     child = -1 \<or> child = 0 \<and> i_pgid c = pgid \<or> child < 0 \<and> i_pgid c = - child \<or> child = i_process c"

text \<open>The inner loop: the first zombie from the head on that matches.\<close>

definition waitpid_scan :: "addr \<Rightarrow> int \<Rightarrow> 'a posixsys_scheme \<Rightarrow> addr option" where
  "waitpid_scan p child st = find (\<lambda>c. waitpid_match child (i_pgid (pinfos st p)) (pinfos st c)) (i_zombies (pinfos st p))"

text \<open>The end of the call without and with a zombie.\<close>

definition waitpid_none :: "addr \<Rightarrow> addr \<Rightarrow> int \<Rightarrow> 'a posixsys_scheme \<Rightarrow> 'a posixsys_scheme outcome option" where
  "waitpid_none nil p err st = map_option (\<lambda>st. Return st err) (pinfo_put nil p st)"

definition waitpid_found :: "addr \<Rightarrow> addr \<Rightarrow> addr \<Rightarrow> addr \<Rightarrow> 'a posixsys_scheme \<Rightarrow> 'a posixsys_scheme outcome option" where
  "waitpid_found nil p c status st = do {
     let st = upd_pinfo p (\<lambda>x. x\<lparr>i_zombies := LIST_REMOVE (i_zombies x) c\<rparr>) st;
     let err = i_process (pinfos st c);
     let st = (if status \<noteq> NULL then st\<lparr>intmem := (intmem st)(status := i_exitcode (pinfos st c))\<rparr> else st);
     st \<leftarrow> pinfo_put nil c st;
     map_option (\<lambda>st. Return st err) (pinfo_put nil p st)
   }"

text \<open>The outer loop without a wait: another round when nothing matches and the caller did not ask to return at once.\<close>

partial_function (option) waitpid_search :: "addr \<Rightarrow> addr \<Rightarrow> int \<Rightarrow> addr \<Rightarrow> bool \<Rightarrow> 'a posixsys_scheme \<Rightarrow> 'a posixsys_scheme outcome option" where
  "waitpid_search nil p child status nohang st =
     (case waitpid_scan p child st of
        Some c \<Rightarrow> waitpid_found nil p c status st
      | None \<Rightarrow> if nohang then waitpid_none nil p EOK st else waitpid_search nil p child status nohang st)"

text \<open>What follows a wait that ended with \<open>err\<close>, up to the next wait.\<close>

partial_function (option) waitpid_resume ::
    "addr \<Rightarrow> nat \<Rightarrow> addr \<Rightarrow> int \<Rightarrow> addr \<Rightarrow> int \<Rightarrow> 'a posixsys_scheme \<Rightarrow> 'a posixsys_scheme outcome option" where
  "waitpid_resume nil cpu p child status err st =
     (if i_zombies (pinfos st p) = [] \<and> err = EOK then
        (case wait_outcome (proc_threadWaitInterruptible cpu (Qobj p) 0 st) of
           None \<Rightarrow> None
         | Some (Return st err) \<Rightarrow> waitpid_resume nil cpu p child status err st
         | Some r \<Rightarrow> Some r)
      else if err = - EINTR then waitpid_none nil p (- EINTR) st
      else if err \<noteq> 0 then waitpid_none nil p err st
      else waitpid_search nil p child status False st)"

definition posix_waitpid :: "addr \<Rightarrow> nat \<Rightarrow> int \<Rightarrow> addr \<Rightarrow> bool \<Rightarrow> 'a posixsys_scheme \<Rightarrow> 'a posixsys_scheme outcome option" where
  "posix_waitpid nil cpu child status nohang st = do {
     (st, p) \<leftarrow> pinfo_find (my_pid cpu st) st;
     if p = NULL then None
     else if i_zombies (pinfos st p) \<noteq> [] then waitpid_search nil p child status nohang st
     else if i_children (pinfos st p) = [] then waitpid_none nil p (- ECHILD) st
     else if nohang then waitpid_none nil p EOK st
     else waitpid_resume nil cpu p child status EOK st
   }"

section \<open>The end of a process\<close>

definition SIGCHLD :: int where "SIGCHLD = 20"

text \<open>The zombie goes to its parent, if that is there, is not the first process and has it as a child. The result says whether
  it did, with the number of threads that waited.\<close>

definition died_parent :: "addr \<Rightarrow> addr \<Rightarrow> addr \<Rightarrow> addr \<Rightarrow> 'a posixsys_scheme \<Rightarrow> ('a posixsys_scheme \<times> int option) option" where
  "died_parent nil p pp init st =
     (if pp = NULL then Some (st, None)
      else do {
        (st, r) \<leftarrow> (if pp \<noteq> init \<and> p \<in> set (i_children (pinfos st pp)) then do {
                      let st = upd_pinfo pp (\<lambda>x. x\<lparr>i_children := LIST_REMOVE (i_children x) p, i_zombies := LIST_ADD (i_zombies x) p\<rparr>) st;
                      (st, waited) \<leftarrow> proc_threadBroadcast (Qobj pp) st;
                      Some (st, Some waited)
                    } else Some (st, None));
        map_option (\<lambda>st. (st, r)) (pinfo_put nil pp st)
      })"

text \<open>The first process adopts the children, one at a time from the head of the list.\<close>

partial_function (option) adopt_children :: "addr \<Rightarrow> addr \<Rightarrow> 'a posixsys_scheme \<Rightarrow> 'a posixsys_scheme option" where
  "adopt_children p init st =
     (case i_children (pinfos st p) of
        [] \<Rightarrow> Some st
      | c # _ \<Rightarrow>
          (let st = upd_pinfo p (\<lambda>x. x\<lparr>i_children := LIST_REMOVE (i_children x) c\<rparr>) st;
               st = upd_pinfo c (\<lambda>x. x\<lparr>i_parent := 1\<rparr>) st
           in adopt_children p init (upd_pinfo init (\<lambda>x. x\<lparr>i_children := LIST_ADD (i_children x) c\<rparr>) st)))"

fun reap_zombies :: "addr \<Rightarrow> addr list \<Rightarrow> 'a posixsys_scheme \<Rightarrow> 'a posixsys_scheme option" where
  "reap_zombies nil [] st = Some st"
| "reap_zombies nil (z # zs) st = do { st \<leftarrow> pinfo_put nil z st; reap_zombies nil zs st }"

text \<open>The section under the two locks, with the zombies that nobody will ask for.\<close>

definition died_orphans :: "addr \<Rightarrow> addr \<Rightarrow> bool \<Rightarrow> 'a posixsys_scheme \<Rightarrow> ('a posixsys_scheme \<times> addr list) option" where
  "died_orphans p init adopted st = do {
     let zombies = i_zombies (pinfos st p);
     st \<leftarrow> adopt_children p init (upd_pinfo p (\<lambda>x. x\<lparr>i_zombies := []\<rparr>) st);
     Some (if adopted then (upd_pinfo init (\<lambda>x. x\<lparr>i_children := LIST_REMOVE (i_children x) p\<rparr>) st, LIST_ADD zombies p) else (st, zombies))
   }"

definition posix_sigchild :: "int \<Rightarrow> 'a posixsys_scheme \<Rightarrow> 'a posixsys_scheme" where
  "posix_sigchild ppid st = st\<lparr>sigs := sigs st @ [(ppid, SIGCHLD)]\<rparr>"

text \<open>\<open>posix_died\<close>; \<open>None\<close> is a failed assertion, which stops the kernel, or a call that does not return.\<close>

definition posix_died :: "addr \<Rightarrow> int \<Rightarrow> int \<Rightarrow> 'a posixsys_scheme \<Rightarrow> 'a posixsys_scheme option" where
  "posix_died nil pid code st = do {
     (st, p) \<leftarrow> pinfo_find pid st;
     if p = NULL then None
     else do {
       (st, init) \<leftarrow> pinfo_find 1 st;
       if init = NULL then None
       else do {
         (st, pp) \<leftarrow> pinfo_find (i_parent (pinfos st p)) st;
         (st, _) \<leftarrow> posix_exit p code st;
         (st, waited) \<leftarrow> died_parent nil p pp init st;
         (st, zombies) \<leftarrow> died_orphans p init (waited = None) st;
         st \<leftarrow> pinfo_put nil init st;
         st \<leftarrow> reap_zombies nil zombies st;
         let st = (if waited = Some 0 then posix_sigchild (i_parent (pinfos st p)) st else st);
         pinfo_put nil p st
       }
     }
   }"

definition posix_init :: "'a posixsys_scheme \<Rightarrow> 'a posixsys_scheme" where
  "posix_init st = st\<lparr>pids := (pids st)\<lparr>rb_root := NULL\<rparr>\<rparr>"

end
