(* ===== verification/Syscalls_Path.thy ===== *)
theory Syscalls_Path
  imports Posix_Proc
begin

text \<open>
  The system calls this project adds to the kernel, \<^verbatim>\<open>syscalls.c\<close>: a variable shared by all processes, and the search for the
  process with the longest chain of ancestors. The argument on the stack of the caller is an argument here; \<open>None\<close> is a
  call that never returns.
\<close>

section \<open>The shared variable\<close>

definition syscalls_setVariable :: "32 word \<Rightarrow> 32 word \<Rightarrow> 32 word" where
  "syscalls_setVariable arg variable = arg"

definition syscalls_getVariable :: "32 word \<Rightarrow> 32 word" where
  "syscalls_getVariable variable = variable"

section \<open>The longest chain of ancestors\<close>

text \<open>The loop that follows the parents from \<open>currentPid\<close> on; the inner test compares the process the walk began with. The
  result is the length, or \<open>None\<close> inside for a walk that was broken off.\<close>

partial_function (option) path_loop ::
    "addr \<Rightarrow> int \<Rightarrow> int \<Rightarrow> int \<Rightarrow> int \<Rightarrow> 'a posixsys_scheme \<Rightarrow> ('a posixsys_scheme \<times> int option) option" where
  "path_loop nil i ignoredPid currentPid pathLength st =
     (if currentPid \<noteq> 0 then
        (if i = ignoredPid then Some (st, None)
         else (case posix_getppid nil currentPid st of
                 None \<Rightarrow> None
               | Some (st, ppid) \<Rightarrow> path_loop nil i ignoredPid ppid (pathLength + 1) st))
      else Some (st, Some pathLength))"

text \<open>One round of the search, with the best process so far and its length.\<close>

definition path_round :: "addr \<Rightarrow> int \<Rightarrow> int \<Rightarrow> int \<times> int \<Rightarrow> 'a posixsys_scheme \<Rightarrow> ('a posixsys_scheme \<times> int \<times> int) option" where
  "path_round nil ignoredPid i best st = do {
     (st, curr_proc) \<leftarrow> pinfo_find i st;
     if curr_proc = NULL then Some (st, best)
     else do {
       (st, len) \<leftarrow> path_loop nil i ignoredPid i 0 st;
       Some (st, case len of None \<Rightarrow> best | Some pathLength \<Rightarrow> if pathLength > snd best then (i, pathLength) else best)
     }
   }"

fun path_search :: "addr \<Rightarrow> int \<Rightarrow> int list \<Rightarrow> int \<times> int \<Rightarrow> 'a posixsys_scheme \<Rightarrow> ('a posixsys_scheme \<times> int \<times> int) option" where
  "path_search nil ignoredPid [] best st = Some (st, best)"
| "path_search nil ignoredPid (i # is) best st = do {
     (st, best) \<leftarrow> path_round nil ignoredPid i best st;
     path_search nil ignoredPid is best st
   }"

definition syscalls_getLongestPathPid :: "addr \<Rightarrow> int \<Rightarrow> 'a posixsys_scheme \<Rightarrow> ('a posixsys_scheme \<times> int) option" where
  "syscalls_getLongestPathPid nil ignoredPid st =
     map_option (\<lambda>(st, best). (st, fst best)) (path_search nil ignoredPid [1..14] (-1, -1) st)"

text \<open>\<open>syscalls_getPathLength\<close> goes over the first \<open>numProcesses\<close> entries of the table \<open>processes\<close>, here the list of their
  numbers. \<open>calculatePathLength\<close> is a parameter: its body reads a stack pointer that is not in scope.\<close>

fun path_lengths :: "(int \<Rightarrow> int) \<Rightarrow> int \<Rightarrow> int list \<Rightarrow> int \<Rightarrow> int" where
  "path_lengths calculate ignoredPid [] pathLength = pathLength"
| "path_lengths calculate ignoredPid (pid # ps) pathLength =
     (if pid = ignoredPid then path_lengths calculate ignoredPid ps pathLength
      else path_lengths calculate ignoredPid ps (if calculate pid > pathLength then calculate pid else pathLength))"

definition syscalls_getPathLength :: "(int \<Rightarrow> int) \<Rightarrow> int \<Rightarrow> int list \<Rightarrow> int" where
  "syscalls_getPathLength calculate ignoredPid processes = path_lengths calculate ignoredPid processes (-1)"

end
