(* ===== verification/Posix_Pids.thy ===== *)
theory Posix_Pids
  imports Posix_Proc
begin

text \<open>
  The tree of the processes: what looking an entry up and dropping it do, on the sequence of the entries of the tree.
\<close>

text \<open>The entries of the tree in order, each with a reference.\<close>

definition pids_ok :: "'a posixsys_scheme \<Rightarrow> addr list \<Rightarrow> bool" where
  "pids_ok st xs \<longleftrightarrow> rb_nodes (pids st) xs \<and> sorted_wrt (\<lambda>a b. i_process (pinfos st a) < i_process (pinfos st b)) xs \<and>
     (\<forall>p \<in> set xs. i_refs (pinfos st p) > 0)"

definition numbers :: "'a posixsys_scheme \<Rightarrow> addr list \<Rightarrow> int set" where
  "numbers st xs = (\<lambda>p. i_process (pinfos st p)) ` set xs"

lemma pids_ok_nodes: "pids_ok st xs \<Longrightarrow> p \<in> set xs \<Longrightarrow> p \<noteq> NULL"
  unfolding pids_ok_def using rb_nodes_distinct [of "pids st" xs] by metis

lemma pids_ok_refs: "pids_ok st xs \<Longrightarrow> p \<in> set xs \<Longrightarrow> i_refs (pinfos st p) > 0"
  by (simp add: pids_ok_def)

lemma pids_ok_inj: "pids_ok st xs \<Longrightarrow> inj_on (\<lambda>p. i_process (pinfos st p)) (set xs)"
  by (simp add: pids_ok_def inj_on_strict_sorted)

lemma rbFind_pids:
  assumes "pids_ok st xs"
  shows "lib_rbFind (pids st) (\<lambda>n1 n2. pinfo_cmp (pinfos st n1) ((pinfos st NULL)\<lparr>i_process := pid\<rparr>)) NULL =
    Some (case find (\<lambda>p. i_process (pinfos st p) = pid) xs of None \<Rightarrow> NULL | Some p \<Rightarrow> p)"
proof -
  let ?c = "\<lambda>n1 n2. pinfo_cmp (pinfos st n1) ((pinfos st NULL)\<lparr>i_process := pid\<rparr>)"
  have "search_cut ?c NULL xs" unfolding search_cut_def
    by (rule sorted_wrt_mono_rel [of _ "\<lambda>a b. i_process (pinfos st a) < i_process (pinfos st b)"]) (use assms in \<open>auto simp: pids_ok_def pinfo_cmp_def split: if_splits\<close>)
  moreover have "(\<lambda>a. ?c a NULL = 0) = (\<lambda>p. i_process (pinfos st p) = pid)" by (auto simp: pinfo_cmp_def fun_eq_iff)
  ultimately show ?thesis using rb_nodes_find [of "pids st" xs ?c NULL] assms by (simp add: pids_ok_def)
qed

lemma pinfo_find_found:
  assumes "pids_ok st xs" and "p \<in> set xs" and "i_process (pinfos st p) = pid"
  shows "pinfo_find pid st = Some (upd_pinfo p (\<lambda>x. x\<lparr>i_refs := i_refs x + 1\<rparr>) st, p)"
proof -
  have "find (\<lambda>p. i_process (pinfos st p) = pid) xs = Some p"
  proof (cases "find (\<lambda>p. i_process (pinfos st p) = pid) xs")
    case (Some q)
    then have "q \<in> set xs" "i_process (pinfos st q) = pid" by (auto simp: find_Some_iff)
    then show ?thesis using Some assms inj_onD [OF pids_ok_inj [OF assms(1)], of q p] by simp
  qed (use assms in \<open>auto simp: find_None_iff\<close>)
  then show ?thesis using rbFind_pids [OF assms(1), of pid] pids_ok_nodes [OF assms(1,2)] by (simp add: pinfo_find_def)
qed

lemma pinfo_find_none:
  assumes "pids_ok st xs" and "pid \<notin> numbers st xs"
  shows "pinfo_find pid st = Some (st, NULL)"
proof -
  have "find (\<lambda>p. i_process (pinfos st p) = pid) xs = None" using assms(2) by (auto simp: numbers_def find_None_iff)
  then show ?thesis using rbFind_pids [OF assms(1), of pid] by (simp add: pinfo_find_def)
qed

lemma upd_pinfo_simps [simp]:
  "pinfos (upd_pinfo p f st) = (pinfos st)(p := f (pinfos st p))" "pids (upd_pinfo p f st) = pids st" "files (upd_pinfo p f st) = files st"
  "pfreed (upd_pinfo p f st) = pfreed st" "close_answers (upd_pinfo p f st) = close_answers st" "sigs (upd_pinfo p f st) = sigs st"
  "intmem (upd_pinfo p f st) = intmem st"
  by (simp_all add: upd_pinfo_def)

lemma upd_pinfo_twice: "upd_pinfo p f (upd_pinfo p g st) = upd_pinfo p (\<lambda>x. f (g x)) st"
  by (simp add: upd_pinfo_def)

lemma upd_pinfo_same: "f (pinfos st p) = pinfos st p \<Longrightarrow> upd_pinfo p f st = st"
  by (simp add: upd_pinfo_def)

lemma pinfo_put_keeps: "i_refs (pinfos st p) \<noteq> 1 \<Longrightarrow> pinfo_put nil p st = Some (upd_pinfo p (\<lambda>x. x\<lparr>i_refs := i_refs x - 1\<rparr>) st)"
  by (simp add: pinfo_put_def Let_def)

text \<open>A reference that is dropped again at once leaves no trace.\<close>

lemma find_put_same:
  "pids_ok st xs \<Longrightarrow> p \<in> set xs \<Longrightarrow> pinfo_put nil p (upd_pinfo p (\<lambda>x. x\<lparr>i_refs := i_refs x + 1\<rparr>) st) = Some st"
  using pids_ok_refs [of st xs p] by (simp add: pinfo_put_keeps upd_pinfo_twice upd_pinfo_same)

lemma pids_ok_more_refs:
  "pids_ok st xs \<Longrightarrow> pids_ok (upd_pinfo p (\<lambda>x. x\<lparr>i_refs := i_refs x + 1\<rparr>) st) xs"
  by (auto simp: pids_ok_def elim!: sorted_wrt_mono_rel [rotated])

lemma numbers_more_refs [simp]: "numbers (upd_pinfo p (\<lambda>x. x\<lparr>i_refs := g x\<rparr>) st) xs = numbers st xs"
  by (auto simp: numbers_def image_def)

lemma getppid_found:
  assumes "pids_ok st xs" and "p \<in> set xs" and "i_process (pinfos st p) = pid"
  shows "posix_getppid nil pid st = Some (st, i_parent (pinfos st p))"
  using pids_ok_nodes [OF assms(1,2)] by (simp add: posix_getppid_def pinfo_find_found [OF assms] find_put_same [OF assms(1,2)])

lemma getppid_none: "pids_ok st xs \<Longrightarrow> pid \<notin> numbers st xs \<Longrightarrow> posix_getppid nil pid st = Some (st, - ENOSYS)"
  by (simp add: posix_getppid_def pinfo_find_none)

end
