(* ===== verification/Syscalls_Path_Spec.thy ===== *)
theory Syscalls_Path_Spec
  imports Syscalls_Path Posix_Pids Proc_Sched_Spec
begin

text \<open>
  What the search for the longest chain of ancestors returns when every chain ends, what it leaves behind, and when it
  never returns.
\<close>

section \<open>Chains of ancestors\<close>

text \<open>\<open>chain st xs pid n\<close>: the parents of \<open>pid\<close> lead to 0 in \<open>n\<close> steps through entries of the tree.\<close>

inductive chain :: "'a posixsys_scheme \<Rightarrow> addr list \<Rightarrow> int \<Rightarrow> nat \<Rightarrow> bool" for st xs where
  chain_end: "chain st xs 0 0"
| chain_step: "p \<in> set xs \<Longrightarrow> i_process (pinfos st p) = pid \<Longrightarrow> pid \<noteq> 0 \<Longrightarrow> chain st xs (i_parent (pinfos st p)) n \<Longrightarrow> chain st xs pid (Suc n)"

lemma chain_more_refs:
  assumes "chain st xs pid n"
  shows "chain (upd_pinfo p (\<lambda>x. x\<lparr>i_refs := g x\<rparr>) st) xs pid n"
  using assms
proof induction
  case (chain_step q pid n)
  then show ?case by (intro chain.chain_step [of q]) auto
qed (rule chain_end)

lemma path_loop_chain:
  assumes "chain st xs c n" and "pids_ok st xs" and "i \<noteq> ign"
  shows "path_loop nil i ign c len st = Some (st, Some (len + int n))"
  using assms
proof (induction arbitrary: len)
  case chain_end
  then show ?case by (simp add: path_loop.simps)
next
  case (chain_step p pid n)
  then show ?case by (subst path_loop.simps) (simp add: getppid_found algebra_simps)
qed

lemma path_loop_ignored: "c \<noteq> 0 \<Longrightarrow> path_loop nil i i c len st = Some (st, None)"
  by (simp add: path_loop.simps)


text \<open>A walk that ends has not changed anything.\<close>

lemma path_loop_same:
  assumes "path_loop nil i ign c len st = Some (st', r)" and "pids_ok st xs"
  shows "st' = st"
proof -
  have "pids_ok st xs \<longrightarrow> fst (st', r) = st"
  proof (rule path_loop.raw_induct [OF _ assms(1), where P = "\<lambda>nil i ign c len st y. pids_ok st xs \<longrightarrow> fst y = st"])
    fix loop nil i ign c len and st :: "'a posixsys_scheme" and y
    assume IH: "\<And>nil i ign c len st y. loop nil i ign c len st = Some y \<Longrightarrow> pids_ok st xs \<longrightarrow> fst y = st"
      and step: "(if c \<noteq> 0 then if i = ign then Some (st, None) else case posix_getppid nil c st of None \<Rightarrow> None | Some (st, ppid) \<Rightarrow> loop nil i ign ppid (len + 1) st
        else Some (st, Some len)) = Some y"
    show "pids_ok st xs \<longrightarrow> fst y = st"
    proof
      assume ok: "pids_ok st xs"
      have "\<exists>q. posix_getppid nil c st = Some (st, q)"
        by (cases "c \<in> numbers st xs") (use ok in \<open>auto simp: getppid_none numbers_def dest: getppid_found\<close>)
      then show "fst y = st" using step IH ok by (auto split: if_splits)
    qed
  qed
  then show ?thesis using assms(2) by simp
qed

section \<open>The search\<close>

text \<open>One more reference to every entry with a number of the list.\<close>

definition leaked :: "addr list \<Rightarrow> int set \<Rightarrow> 'a posixsys_scheme \<Rightarrow> 'a posixsys_scheme \<Rightarrow> bool" where
  "leaked xs I st st' \<longleftrightarrow> pids_ok st' xs \<and>
     (\<forall>p. pinfos st' p = (pinfos st p)\<lparr>i_refs := i_refs (pinfos st p) + (if p \<in> set xs \<and> i_process (pinfos st p) \<in> I then 1 else 0)\<rparr>)"

lemma leaked_fields:
  assumes "leaked xs I st st'"
  shows "pids_ok st' xs" and "i_process (pinfos st' p) = i_process (pinfos st p)" and "i_parent (pinfos st' p) = i_parent (pinfos st p)"
    and "numbers st' xs = numbers st xs"
  using assms by (auto simp: leaked_def numbers_def)

lemma leaked_chain:
  assumes "chain st xs pid n" and "leaked xs I st st'"
  shows "chain st' xs pid n"
  using assms(1)
proof induction
  case (chain_step q pid n)
  then show ?case using leaked_fields [OF assms(2)] by (intro chain.chain_step [of q]) auto
qed (rule chain_end)

lemma leaked_empty: "pids_ok st xs \<Longrightarrow> leaked xs {} st st"
  by (simp add: leaked_def)

lemma leaked_absent: "leaked xs I st st' \<Longrightarrow> i \<notin> numbers st xs \<Longrightarrow> leaked xs (insert i I) st st'"
  by (auto simp: leaked_def numbers_def)

lemma leaked_present:
  assumes "leaked xs I st st'" and "q \<in> set xs" and "i_process (pinfos st q) = i" and "i \<notin> I" and "pids_ok st xs"
  shows "leaked xs (insert i I) st (upd_pinfo q (\<lambda>x. x\<lparr>i_refs := i_refs x + 1\<rparr>) st')"
proof -
  have u: "p = q" if "p \<in> set xs" "i_process (pinfos st p) = i" for p
    using inj_onD [OF pids_ok_inj [OF assms(5)], of p q] that assms(2,3) by simp
  have st': "pinfos st' p = (pinfos st p)\<lparr>i_refs := i_refs (pinfos st p) + (if p \<in> set xs \<and> i_process (pinfos st p) \<in> I then 1 else 0)\<rparr>" for p
    using assms(1) by (simp add: leaked_def)
  show ?thesis unfolding leaked_def
  proof (intro conjI allI)
    show "pids_ok (upd_pinfo q (\<lambda>x. x\<lparr>i_refs := i_refs x + 1\<rparr>) st') xs" by (rule pids_ok_more_refs [OF leaked_fields(1) [OF assms(1)]])
    show "pinfos (upd_pinfo q (\<lambda>x. x\<lparr>i_refs := i_refs x + 1\<rparr>) st') p =
      (pinfos st p)\<lparr>i_refs := i_refs (pinfos st p) + (if p \<in> set xs \<and> i_process (pinfos st p) \<in> insert i I then 1 else 0)\<rparr>" for p
      using u [of p] assms(2-4) by (cases "p = q") (simp_all add: st', blast)
  qed
qed

text \<open>The entry found by a round.\<close>

lemma find_leaked:
  assumes "leaked xs I st st'" and "pids_ok st xs" and "i \<in> numbers st xs" and "i \<notin> I"
  obtains q st1 where "pinfo_find i st' = Some (st1, q)" and "q \<noteq> NULL" and "leaked xs (insert i I) st st1"
proof -
  obtain q where q: "q \<in> set xs" "i_process (pinfos st q) = i" using assms(3) by (auto simp: numbers_def)
  then have "i_process (pinfos st' q) = i" using leaked_fields(2) [OF assms(1)] by simp
  from that [OF pinfo_find_found [OF leaked_fields(1) [OF assms(1)] q(1) this] pids_ok_nodes [OF assms(2) q(1)] leaked_present [OF assms(1) q assms(4,2)]]
  show thesis .
qed

text \<open>The best among the processes seen: the first of those with the longest chain.\<close>

definition best_of :: "(int \<Rightarrow> nat) \<Rightarrow> int set \<Rightarrow> int \<times> int \<Rightarrow> bool" where
  "best_of d C b \<longleftrightarrow>
     (if C = {} then b = (-1, -1)
      else fst b \<in> C \<and> snd b = int (d (fst b)) \<and> (\<forall>j \<in> C. d j \<le> d (fst b) \<and> (d j = d (fst b) \<longrightarrow> fst b \<le> j)))"

lemma best_of_insert:
  assumes "best_of d C b" and "\<forall>j \<in> C. j < i"
  shows "best_of d (insert i C) (if int (d i) > snd b then (i, int (d i)) else b)"
proof (cases "C = {}")
  case False
  then have b: "fst b \<in> C" "snd b = int (d (fst b))" "\<And>j. j \<in> C \<Longrightarrow> d j \<le> d (fst b) \<and> (d j = d (fst b) \<longrightarrow> fst b \<le> j)"
    using assms(1) by (auto simp: best_of_def)
  show ?thesis
  proof (cases "d i > d (fst b)")
    case True
    then show ?thesis using b(2,3) by (fastforce simp: best_of_def)
  next
    case False
    then show ?thesis using b assms(2) by (auto simp: best_of_def less_imp_le)
  qed
qed (use assms(1) in \<open>simp add: best_of_def\<close>)

definition candidates :: "'a posixsys_scheme \<Rightarrow> addr list \<Rightarrow> int \<Rightarrow> int set \<Rightarrow> int set" where
  "candidates st xs ign I = {i \<in> I. i \<in> numbers st xs \<and> i \<noteq> ign}"

lemma candidates_insert:
  "candidates st xs ign (insert i I) = (if i \<in> numbers st xs \<and> i \<noteq> ign then insert i (candidates st xs ign I) else candidates st xs ign I)"
  by (auto simp: candidates_def)

lemma path_round_correct:
  assumes "leaked xs I st st'" and "pids_ok st xs" and "best_of d (candidates st xs ign I) b" and "i \<notin> I" and "\<forall>j \<in> I. j < i" and "0 < i"
    and "i \<in> candidates st xs ign {i} \<Longrightarrow> chain st xs i (d i)"
  obtains st1 b1 where "path_round nil ign i b st' = Some (st1, b1)" and "leaked xs (insert i I) st st1" and "best_of d (candidates st xs ign (insert i I)) b1"
proof (cases "i \<in> numbers st xs")
  case False
  then have "path_round nil ign i b st' = Some (st', b)"
    using leaked_fields(1,4) [OF assms(1)] by (simp add: path_round_def pinfo_find_none)
  from that [OF this leaked_absent [OF assms(1) False]] show thesis using False assms(3) by (simp add: candidates_insert)
next
  case True
  obtain q st1 where q: "pinfo_find i st' = Some (st1, q)" "q \<noteq> NULL" and st1: "leaked xs (insert i I) st st1"
    using find_leaked [OF assms(1,2) True assms(4)] .
  show thesis
  proof (cases "i = ign")
    case ign: True
    then have "path_round nil ign i b st' = Some (st1, b)"
      using q assms(6) by (simp add: path_round_def path_loop_ignored)
    from that [OF this st1] show thesis using ign assms(3) by (simp add: candidates_insert)
  next
    case False
    then have "chain st1 xs i (d i)" using assms(7) True leaked_chain [OF _ st1] by (simp add: candidates_def)
    from path_loop_chain [OF this leaked_fields(1) [OF st1] False]
    have "path_round nil ign i b st' = Some (st1, if int (d i) > snd b then (i, int (d i)) else b)"
      using q by (simp add: path_round_def)
    moreover have "\<forall>j \<in> candidates st xs ign I. j < i" using assms(5) by (simp add: candidates_def)
    from best_of_insert [OF assms(3) this]
    have "best_of d (candidates st xs ign (insert i I)) (if int (d i) > snd b then (i, int (d i)) else b)"
      using True False by (simp add: candidates_insert)
    ultimately show thesis using that st1 by blast
  qed
qed

lemma path_search_correct:
  assumes "pids_ok st xs" and "\<And>i. i \<in> set is \<Longrightarrow> i \<in> candidates st xs ign {i} \<Longrightarrow> chain st xs i (d i)"
    and "sorted_wrt (<) is" and "\<forall>i \<in> set is. 0 < i \<and> (\<forall>j \<in> I. j < i)" and "leaked xs I st st'" and "best_of d (candidates st xs ign I) b"
  shows "\<exists>st1 b1. path_search nil ign is b st' = Some (st1, b1) \<and> leaked xs (I \<union> set is) st st1 \<and> best_of d (candidates st xs ign (I \<union> set is)) b1"
  using assms
proof (induction "is" arbitrary: I st' b)
  case Nil
  then show ?case by simp
next
  case (Cons i "is")
  have i: "i \<notin> I" "\<forall>j \<in> I. j < i" "0 < i" using Cons.prems(4) by auto
  have c: "i \<in> candidates st xs ign {i} \<Longrightarrow> chain st xs i (d i)" by (rule Cons.prems(2)) auto
  obtain st2 b2 where r: "path_round nil ign i b st' = Some (st2, b2)" "leaked xs (insert i I) st st2" "best_of d (candidates st xs ign (insert i I)) b2"
    using path_round_correct [OF Cons.prems(5,1,6) i c, of nil] .
  have "\<forall>k \<in> set is. 0 < k \<and> (\<forall>j \<in> insert i I. j < k)" using Cons.prems(3,4) by auto
  from Cons.IH [OF Cons.prems(1,2) _ this r(2,3)] Cons.prems(3) show ?case using r(1) by simp
qed

text \<open>A round that returns has left one reference behind; a round for a process whose parent is gone does not return.\<close>

lemma path_round_leaked:
  assumes "leaked xs I st st'" and "pids_ok st xs" and "i \<notin> I" and "path_round nil ign i b st' = Some (st1, b1)"
  shows "leaked xs (insert i I) st st1"
proof (cases "i \<in> numbers st xs")
  case False
  then have "path_round nil ign i b st' = Some (st', b)"
    using leaked_fields(1,4) [OF assms(1)] by (simp add: path_round_def pinfo_find_none)
  then show ?thesis using leaked_absent [OF assms(1) False] assms(4) by simp
next
  case True
  obtain q st2 where q: "pinfo_find i st' = Some (st2, q)" "q \<noteq> NULL" and st2: "leaked xs (insert i I) st st2"
    using find_leaked [OF assms(1,2) True assms(3)] .
  then obtain r where "path_loop nil i ign i 0 st2 = Some (st1, r)" using assms(4) by (auto simp: path_round_def bind_eq_Some_conv)
  from path_loop_same [OF this leaked_fields(1) [OF st2]] show ?thesis using st2 by simp
qed




section \<open>Properties\<close>

lemma pids_1_14: "sorted_wrt (<) [1..14 :: int]" "distinct [1..14 :: int]"
  by (simp_all add: upto_rec1)

lemma path_search_all:
  assumes "pids_ok st xs" and "\<And>i. i \<in> candidates st xs ign {1..14} \<Longrightarrow> chain st xs i (d i)"
  shows "\<exists>st1 b1. path_search nil ign [1..14] (-1, -1) st = Some (st1, b1) \<and> best_of d (candidates st xs ign {1..14}) b1"
proof -
  have "chain st xs i (d i)" if "i \<in> set [1..14]" "i \<in> candidates st xs ign {i}" for i
    using assms(2) [of i] that by (simp add: candidates_def)
  moreover have "best_of d (candidates st xs ign {}) (-1, -1)" by (simp add: best_of_def candidates_def)
  ultimately show ?thesis
    using path_search_correct [OF assms(1) _ pids_1_14(1) _ leaked_empty [OF assms(1)], where ign = ign and d = d and b = "(-1, -1)" and nil = nil] by fastforce
qed


text \<open>C14: Every call of \<open>syscalls_getLongestPathPid\<close> that returns leaves one more reference to each process from 1 to 14, which
  nobody drops: such a process is never freed any more.\<close>

theorem longest_path_leaks:
  assumes "pids_ok st xs" and "syscalls_getLongestPathPid nil ign st = Some (st', r)" and "p \<in> set xs" and "1 \<le> i_process (pinfos st p)" "i_process (pinfos st p) \<le> 14"
  shows "i_refs (pinfos st' p) = i_refs (pinfos st p) + 1"
proof -
  have step: "leaked xs (I \<union> set is) st st1" if "distinct is" "set is \<inter> I = {}" "leaked xs I st st'" "path_search nil ign is b st' = Some (st1, b1)"
    for "is" I st' b st1 b1
    using that
  proof (induction "is" arbitrary: I st' b)
    case (Cons j "is")
    then obtain st2 b2 where r: "path_round nil ign j b st' = Some (st2, b2)" "path_search nil ign is b2 st2 = Some (st1, b1)" by (auto simp: bind_eq_Some_conv)
    have "leaked xs (insert j I) st st2" using path_round_leaked [OF Cons.prems(3) assms(1) _ r(1)] Cons.prems(2) by simp
    from Cons.IH [OF _ _ this r(2)] Cons.prems(1,2) show ?case by simp
  qed simp
  obtain b1 where "path_search nil ign [1..14] (-1, -1) st = Some (st', b1)" using assms(2) by (auto simp: syscalls_getLongestPathPid_def)
  from step [OF pids_1_14(2) _ leaked_empty [OF assms(1)] this] show ?thesis using assms(3-5) by (simp add: leaked_def)
qed


section \<open>Witnesses\<close>

text \<open>The processes 1, 2 and 3, each the child of the one before but for the third, whose parent is \<open>q\<close>.\<close>

definition demo_family :: "int \<Rightarrow> posixsys" where
  "demo_family q = kernel.extend demo
     (posixsys.fields rb_sample
       (\<lambda>p. \<lparr>i_process = (if p = 3 then 1 else if p = 5 then 2 else 3), i_parent = (if p = 3 then 0 else if p = 5 then 1 else q), i_refs = 1, i_exitcode = 0,
          i_children = [], i_zombies = [], i_pgid = 1, i_maxfd = MAX_FD_COUNT, i_fds = []\<rparr>)
       (\<lambda>_. \<lparr>f_ln = (0, 0), f_oid = (0, 0), f_refs = 1, f_offset = 0, f_status = 0, f_type = ftRegular\<rparr>) (\<lambda>_. [0]) [] (\<lambda>_. 0) [])"

lemma demo_family_simps:
  "pids (demo_family q) = rb_sample" "i_process (pinfos (demo_family q) p) = (if p = 3 then 1 else if p = 5 then 2 else 3)"
  "i_parent (pinfos (demo_family q) p) = (if p = 3 then 0 else if p = 5 then 1 else q)" "i_refs (pinfos (demo_family q) p) = 1"
  by (simp_all add: demo_family_def kernel.defs posixsys.defs)

lemma demo_family_ok: "pids_ok (demo_family q) [3, 5, 8]" "numbers (demo_family q) [3, 5, 8] = {1, 2, 3}"
  using rb_sample_nodes by (auto simp: pids_ok_def numbers_def demo_family_simps)

lemma demo_family_chains: "chain (demo_family 2) [3, 5, 8] 1 1" "chain (demo_family 2) [3, 5, 8] 2 2" "chain (demo_family 2) [3, 5, 8] 3 3"
proof -
  have "chain (demo_family 2) [3, 5, 8] 1 (Suc 0)" by (rule chain_step [of 3]) (simp_all add: demo_family_simps chain_end)
  then show 1: "chain (demo_family 2) [3, 5, 8] 1 1" by simp
  have "chain (demo_family 2) [3, 5, 8] 2 (Suc 1)" by (rule chain_step [of 5]) (use 1 in \<open>simp_all add: demo_family_simps\<close>)
  then show 2: "chain (demo_family 2) [3, 5, 8] 2 2" by (simp add: numeral_2_eq_2)
  have "chain (demo_family 2) [3, 5, 8] 3 (Suc 2)" by (rule chain_step [of 8]) (use 2 in \<open>simp_all add: demo_family_simps\<close>)
  then show "chain (demo_family 2) [3, 5, 8] 3 3" by (simp add: numeral_3_eq_3)
qed

lemma demo_candidates: "candidates (demo_family q) [3, 5, 8] 3 {1..14} = {1, 2}"
  by (auto simp: candidates_def demo_family_ok(2))

lemma demo_chains: "i \<in> candidates (demo_family 2) [3, 5, 8] 3 {1..14} \<Longrightarrow> chain (demo_family 2) [3, 5, 8] i (nat i)"
  using demo_family_chains by (auto simp: demo_candidates)


theorem longest_path_leaks_witness:
  "\<exists>st' r. syscalls_getLongestPathPid 90 3 (demo_family 2) = Some (st', r) \<and> i_refs (pinfos st' 5) = 2"
proof -
  from path_search_all [where ign = 3 and d = nat, OF demo_family_ok(1) demo_chains]
  obtain st1 b1 where "path_search 90 3 [1..14] (-1, -1) (demo_family 2) = Some (st1, b1)" by blast
  then have r: "syscalls_getLongestPathPid 90 3 (demo_family 2) = Some (st1, fst b1)" by (simp add: syscalls_getLongestPathPid_def)
  from longest_path_leaks [OF demo_family_ok(1) this, of 5] r show ?thesis by (auto simp: demo_family_simps)
qed


end
