(* ===== verification/Posix_File_Spec.thy ===== *)
theory Posix_File_Spec
  imports Posix_Pids Proc_Sched_Spec
begin

text \<open>
  The promises of the descriptor tables: the lowest free descriptor is handed out, the count of an open file is the number
  of descriptors that refer to it, and a file is given back with the last of them.
\<close>

section \<open>The lowest free descriptor\<close>

definition used :: "fildes list \<Rightarrow> nat \<Rightarrow> bool" where
  "used fds k \<longleftrightarrow> k < length fds \<and> fd_file (fds ! k) \<noteq> NULL"

lemma grow_size_returns: "0 < n \<Longrightarrow> \<exists>m. grow_size fd n = Some m \<and> fd < m \<and> n \<le> m"
proof (induction "Suc fd - n" arbitrary: n rule: less_induct)
  case less
  show ?case
  proof (cases "fd \<ge> n")
    case True
    have "Suc fd - n * 2 < Suc fd - n" using True less.prems by linarith
    then obtain m where "grow_size fd (n * 2) = Some m" "fd < m" "n * 2 \<le> m" using less.hyps [of "n * 2"] less.prems by auto
    then show ?thesis using True by (subst grow_size.simps) auto
  next
    case False
    then show ?thesis by (subst grow_size.simps) auto
  qed
qed

lemma grow_table_returns:
  assumes "0 < length fds" and "length fds \<le> fd" and "fd < maxfd"
  shows "\<exists>n. grow_table mem maxfd fds fd = Some (if mem then Some (fds @ replicate n no_fd) else None) \<and> fd < length fds + n \<and> length fds + n \<le> maxfd"
proof -
  obtain m where m: "grow_size fd (length fds) = Some m" "fd < m" using grow_size_returns [OF assms(1)] by blast
  show ?thesis using assms m by (intro exI [of _ "(if m > maxfd then maxfd else m) - length fds"]) (auto simp: grow_table_def Let_def)
qed

text \<open>The result of \<open>_posix_allocfd\<close> from \<open>fd\<close> on: no descriptor, or the lowest one that is free.\<close>

definition alloc_result :: "bool \<Rightarrow> nat \<Rightarrow> fildes list \<Rightarrow> nat \<Rightarrow> fildes list \<Rightarrow> int \<Rightarrow> bool" where
  "alloc_result mem maxfd fds fd fds' r \<longleftrightarrow>
     r = -1 \<and> fds' = fds \<and> (\<forall>k. fd \<le> k \<and> k < maxfd \<longrightarrow> used fds k \<or> \<not> mem \<and> length fds \<le> k) \<or>
     (\<exists>k n. r = int k \<and> fd \<le> k \<and> k < maxfd \<and> \<not> used fds k \<and> (\<forall>j. fd \<le> j \<and> j < k \<longrightarrow> used fds j) \<and>
        fds' = fds @ replicate n no_fd \<and> k < length fds' \<and> length fds' \<le> maxfd)"

lemma allocfd_loop_returns:
  assumes "0 < length fds" and "length fds \<le> maxfd"
  shows "\<exists>fds' r. allocfd_loop mem maxfd fds fd = Some (fds', r) \<and> alloc_result mem maxfd fds fd fds' r"
proof (induction "maxfd - fd" arbitrary: fd rule: less_induct)
  case less
  consider (full) "maxfd \<le> fd" | (grow) "fd < maxfd" "length fds \<le> fd" | (free) "fd < maxfd" "fd < length fds" "fd_file (fds ! fd) = NULL"
    | (used) "fd < maxfd" "fd < length fds" "fd_file (fds ! fd) \<noteq> NULL" by linarith
  then show ?case
  proof cases
    case full
    then show ?thesis by (subst allocfd_loop.simps) (auto simp: alloc_result_def)
  next
    case grow
    then obtain n where n: "grow_table mem maxfd fds fd = Some (if mem then Some (fds @ replicate n no_fd) else None)" "fd < length fds + n" "length fds + n \<le> maxfd"
      using grow_table_returns [OF assms(1)] by blast
    have "fd_file ((fds @ replicate n no_fd) ! fd) = NULL" using grow(2) n(2) by (simp add: nth_append no_fd_def)
    then show ?thesis using grow n by (subst allocfd_loop.simps) (auto simp: alloc_result_def used_def)
  next
    case free
    then have "alloc_result mem maxfd fds fd fds (int fd)" using assms(2) unfolding alloc_result_def used_def
      by (intro disjI2 exI [of _ fd] exI [of _ 0]) auto
    then show ?thesis using free by (subst allocfd_loop.simps) simp
  next
    case used
    obtain fds' r where r: "allocfd_loop mem maxfd fds (fd + 1) = Some (fds', r)" "alloc_result mem maxfd fds (fd + 1) fds' r"
      using less.hyps [of "fd + 1"] diff_less_mono2 [of fd "fd + 1" maxfd] used(1) by force
    have u: "used fds fd" using used by (simp add: used_def)
    have s: "used fds k" if "fd \<le> k" "\<not> fd + 1 \<le> k" for k using that u by (cases "k = fd") auto
    have "alloc_result mem maxfd fds fd fds' r"
      using r(2) s unfolding alloc_result_def by (metis Suc_eq_plus1 Suc_leD)
    then show ?thesis using r(1) used by (subst allocfd_loop.simps) simp
  qed
qed

section \<open>Counting\<close>

text \<open>The descriptors of a process that refer to a file, and those of the running processes \<open>A\<close>. \<open>H\<close> are the references that a
  call holds.\<close>

definition slots :: "'a posixsys_scheme \<Rightarrow> addr \<Rightarrow> addr \<Rightarrow> nat" where
  "slots st p f = count_list (map fd_file (i_fds (pinfos st p))) f"

definition users :: "addr set \<Rightarrow> 'a posixsys_scheme \<Rightarrow> addr \<Rightarrow> nat" where
  "users A st f = (\<Sum>p \<in> A. slots st p f)"

definition counted :: "addr set \<Rightarrow> (addr \<Rightarrow> nat) \<Rightarrow> 'a posixsys_scheme \<Rightarrow> bool" where
  "counted A H st \<longleftrightarrow> (\<forall>f. f \<noteq> NULL \<and> 0 < users A st f + H f \<longrightarrow> f_refs (files st f) = of_nat (users A st f + H f))"

lemma countedD: "counted A H st \<Longrightarrow> f \<noteq> NULL \<Longrightarrow> 0 < users A st f + H f \<Longrightarrow> f_refs (files st f) = of_nat (users A st f + H f)"
  by (simp add: counted_def)

lemma count_list_update:
  "k < length xs \<Longrightarrow> count_list (xs[k := y]) f + (if xs ! k = f then 1 else 0) = count_list xs f + (if y = f then 1 else 0)"
proof (induction xs arbitrary: k)
  case (Cons x xs)
  show ?case
  proof (cases k)
    case (Suc j)
    then show ?thesis using Cons.IH [of j] Cons.prems by (auto split: if_splits)
  qed simp
qed simp

lemma slots_set_fd:
  assumes "fd < fdsz st p"
  shows "slots (set_fd p fd g st) p f + (if file_of st p fd = f then 1 else 0) = slots st p f + (if g = f then 1 else 0)"
  using count_list_update [of fd "map fd_file (i_fds (pinfos st p))" g f] assms
  by (simp add: slots_def set_fd_def file_of_def fdsz_def map_update)

lemma slots_other [simp]: "q \<noteq> p \<Longrightarrow> slots (set_fd p fd g st) q f = slots st q f"
  by (simp add: slots_def set_fd_def)

lemma users_remove: "finite A \<Longrightarrow> p \<in> A \<Longrightarrow> users A st f = slots st p f + users (A - {p}) st f"
  by (simp add: users_def sum.remove)

lemma users_set_fd:
  assumes "finite A" and "p \<in> A" and "fd < fdsz st p"
  shows "users A (set_fd p fd g st) f + (if file_of st p fd = f then 1 else 0) = users A st f + (if g = f then 1 else 0)"
proof -
  have "users (A - {p}) (set_fd p fd g st) f = users (A - {p}) st f" unfolding users_def by (rule sum.cong) auto
  then show ?thesis using slots_set_fd [OF assms(3), of g f] by (simp add: users_remove [OF assms(1,2)])
qed

lemma users_positive:
  assumes "finite A" "p \<in> A" "fd < fdsz st p"
  shows "0 < users A st (file_of st p fd)"
proof -
  have "file_of st p fd \<in> set (map fd_file (i_fds (pinfos st p)))" using assms(3) by (simp add: file_of_def fdsz_def)
  then have "0 < slots st p (file_of st p fd)" unfolding slots_def by (metis count_list_0_iff gr0I)
  then show ?thesis unfolding users_remove [OF assms(1,2), of st] by (rule trans_less_add1)
qed

text \<open>The fields the count depends on.\<close>

definition same_slots :: "'a posixsys_scheme \<Rightarrow> 'a posixsys_scheme \<Rightarrow> bool" where
  "same_slots st st' \<longleftrightarrow> (\<forall>p. map fd_file (i_fds (pinfos st' p)) = map fd_file (i_fds (pinfos st p)))"

lemma same_slots_users: "same_slots st st' \<Longrightarrow> users A st' f = users A st f"
  by (simp add: same_slots_def users_def slots_def)

lemma counted_same: "counted A H st \<Longrightarrow> same_slots st st' \<Longrightarrow> (\<And>f. f_refs (files st' f) = f_refs (files st f)) \<Longrightarrow> counted A H st'"
  by (simp add: counted_def same_slots_users)

lemma upd_file_simps [simp]:
  "files (upd_file a g st) = (files st)(a := g (files st a))" "pinfos (upd_file a g st) = pinfos st" "pids (upd_file a g st) = pids st"
  "close_answers (upd_file a g st) = close_answers st" "pfreed (upd_file a g st) = pfreed st"
  by (simp_all add: upd_file_def)

lemma pfree_simps [simp]:
  "files (pfree a st) = files st" "pinfos (pfree a st) = pinfos st" "pids (pfree a st) = pids st" "close_answers (pfree a st) = close_answers st"
  "pfreed (pfree a st) = a # pfreed st"
  by (simp_all add: pfree_def)

lemma set_fd_simps [simp]:
  "files (set_fd p fd g st) = files st" "pids (set_fd p fd g st) = pids st" "close_answers (set_fd p fd g st) = close_answers st" "pfreed (set_fd p fd g st) = pfreed st"
  "fdsz (set_fd p fd g st) q = fdsz st q" "i_maxfd (pinfos (set_fd p fd g st) q) = i_maxfd (pinfos st q)"
  "i_process (pinfos (set_fd p fd g st) q) = i_process (pinfos st q)" "i_refs (pinfos (set_fd p fd g st) q) = i_refs (pinfos st q)"
  by (simp_all add: set_fd_def fdsz_def)

lemma set_flags_simps [simp]:
  "files (set_flags p fd w st) = files st" "pids (set_flags p fd w st) = pids st" "close_answers (set_flags p fd w st) = close_answers st"
  "pfreed (set_flags p fd w st) = pfreed st" "fdsz (set_flags p fd w st) q = fdsz st q" "i_maxfd (pinfos (set_flags p fd w st) q) = i_maxfd (pinfos st q)"
  "i_process (pinfos (set_flags p fd w st) q) = i_process (pinfos st q)" "i_refs (pinfos (set_flags p fd w st) q) = i_refs (pinfos st q)"
  by (simp_all add: set_flags_def fdsz_def)

lemma same_slots_flags: "fd < fdsz st p \<Longrightarrow> same_slots st (set_flags p fd w st)"
  by (auto simp: same_slots_def set_flags_def fdsz_def map_update intro: list_update_same_conv [THEN iffD2])

lemma same_slots_file: "same_slots st (upd_file a g st)" "same_slots st (pfree a st)"
  by (simp_all add: same_slots_def)

section \<open>References taken and dropped\<close>

lemma counted_take:
  assumes "counted A H st" and "f \<noteq> NULL" and "0 < users A st f + H f"
  shows "counted A (H(f := H f + 1)) (upd_file f (\<lambda>x. x\<lparr>f_refs := f_refs x + 1\<rparr>) st)"
  using assms countedD [OF assms] by (auto simp: counted_def same_slots_users [OF same_slots_file(1)])

text \<open>A held reference is put into a free descriptor, or taken out of one.\<close>

lemma counted_store:
  assumes "counted A (H(f := H f + 1)) st" and "finite A" "p \<in> A" "fd < fdsz st p" and "file_of st p fd = NULL"
  shows "counted A H (set_fd p fd f st)"
  unfolding counted_def
proof (intro allI impI)
  fix g assume g: "g \<noteq> NULL \<and> 0 < users A (set_fd p fd f st) g + H g"
  have "users A (set_fd p fd f st) g = users A st g + (if f = g then 1 else 0)"
    using users_set_fd [OF assms(2-4), of f g] assms(5) g by auto
  then have e: "users A (set_fd p fd f st) g + H g = users A st g + (H(f := H f + 1)) g" by auto
  show "f_refs (files (set_fd p fd f st) g) = of_nat (users A (set_fd p fd f st) g + H g)"
    unfolding set_fd_simps e by (rule countedD [OF assms(1) conjunct1 [OF g]]) (use conjunct2 [OF g] in \<open>simp only: e\<close>)
qed

lemma counted_clear:
  assumes "counted A H st" and "finite A" "p \<in> A" "fd < fdsz st p" and "f = file_of st p fd"
  shows "counted A (H(f := H f + 1)) (set_fd p fd NULL st)"
  unfolding counted_def
proof (intro allI impI)
  fix g assume g: "g \<noteq> NULL \<and> 0 < users A (set_fd p fd NULL st) g + (H(f := H f + 1)) g"
  have "users A (set_fd p fd NULL st) g + (if f = g then 1 else 0) = users A st g" using users_set_fd [OF assms(2-4), of NULL g] assms(5) g by auto
  then have e: "users A (set_fd p fd NULL st) g + (H(f := H f + 1)) g = users A st g + H g" by auto
  show "f_refs (files (set_fd p fd NULL st) g) = of_nat (users A (set_fd p fd NULL st) g + (H(f := H f + 1)) g)"
    unfolding set_fd_simps e by (rule countedD [OF assms(1) conjunct1 [OF g]]) (use conjunct2 [OF g] in \<open>simp only: e\<close>)
qed

text \<open>The servers answer every close in the end.\<close>

definition answering :: "'a posixsys_scheme \<Rightarrow> bool" where
  "answering st \<longleftrightarrow> (\<forall>f. \<exists>a \<in> set (close_answers st f). a \<noteq> - EINTR)"

lemma close_retry_answers: "\<exists>a \<in> set as. a \<noteq> - EINTR \<Longrightarrow> \<exists>a. close_retry as = Some a"
  by (induction "as") auto

lemma answering_close:
  assumes "answering st"
  obtains e where "(if f_type (files st' f) = ftUnixSocket then (case close_answers st f of [] \<Rightarrow> None | a # _ \<Rightarrow> Some a) else close_retry (close_answers st f)) = Some e"
proof -
  have a: "\<exists>a \<in> set (close_answers st f). a \<noteq> - EINTR" using assms by (simp add: answering_def)
  obtain e where "close_retry (close_answers st f) = Some e" using close_retry_answers [OF a] by blast
  moreover have "close_answers st f \<noteq> []" using a by auto
  ultimately show thesis using that by (cases "f_type (files st' f) = ftUnixSocket"; cases "close_answers st f") auto
qed

lemma of_nat_zero_word: "n < 2 ^ 32 \<Longrightarrow> (of_nat n :: 32 word) = 0 \<longleftrightarrow> n = 0"
  by (simp add: word_of_nat_eq_0_iff dvd_imp_le) (metis dvd_imp_le gr0I leD dvd_0_right)

lemma fileDeref_counted:
  assumes "counted A H st" and "f \<noteq> NULL" and "0 < H f" and "users A st f + H f < 2 ^ 32" and "answering st"
  shows "\<exists>st' e. posix_fileDeref f st = Some (st', e) \<and> counted A (H(f := H f - 1)) st' \<and> pinfos st' = pinfos st \<and> pids st' = pids st \<and>
    close_answers st' = close_answers st \<and> pfreed st' = (if users A st f + H f = 1 then f # pfreed st else pfreed st)"
proof -
  let ?u = "upd_file f (\<lambda>x. x\<lparr>f_refs := f_refs x - 1\<rparr>) st"
  define n where "n = users A st f + H f - 1"
  have n: "users A st f + H f = Suc n" using assms(3) by (simp add: n_def)
  then have r: "f_refs (files ?u f) = of_nat n" using countedD [OF assms(1,2)] by simp
  have k: "users A st f + (H f - 1) = n" using assms(3) n by simp
  have c: "counted A (H(f := H f - 1)) ?u" unfolding counted_def same_slots_users [OF same_slots_file(1)]
  proof (intro allI impI)
    fix g assume g: "g \<noteq> NULL \<and> 0 < users A st g + (H(f := H f - 1)) g"
    show "f_refs (files ?u g) = of_nat (users A st g + (H(f := H f - 1)) g)"
    proof (cases "g = f")
      case True
      then show ?thesis using r k by simp
    next
      case False
      then show ?thesis using countedD [OF assms(1), of g] g by simp
    qed
  qed
  have z: "f_refs (files ?u f) = 0 \<longleftrightarrow> n = 0" using of_nat_zero_word [of n] assms(4) r n by simp
  obtain e where a: "(if f_type (files ?u f) = ftUnixSocket then (case close_answers st f of [] \<Rightarrow> None | a # _ \<Rightarrow> Some a) else close_retry (close_answers st f)) = Some e"
    by (rule answering_close [OF assms(5)])
  have "counted A (H(f := H f - 1)) (pfree f ?u)" by (rule counted_same [OF c same_slots_file(2)]) simp
  then show ?thesis using a c z n by (cases "n = 0") (auto simp: posix_fileDeref_def Let_def)
qed

section \<open>Tables\<close>

definition tables :: "addr set \<Rightarrow> (addr \<Rightarrow> nat) \<Rightarrow> 'a posixsys_scheme \<Rightarrow> bool" where
  "tables A H st \<longleftrightarrow> finite A \<and> counted A H st \<and> (\<forall>p \<in> A. 0 < fdsz st p \<and> fdsz st p \<le> i_maxfd (pinfos st p)) \<and> answering st"

lemma tablesD:
  assumes "tables A H st"
  shows "finite A" "counted A H st" "p \<in> A \<Longrightarrow> 0 < fdsz st p" "p \<in> A \<Longrightarrow> fdsz st p \<le> i_maxfd (pinfos st p)" "answering st"
  using assms by (simp_all add: tables_def)

text \<open>What the tree of the processes depends on.\<close>

definition same_pids :: "'a posixsys_scheme \<Rightarrow> 'a posixsys_scheme \<Rightarrow> bool" where
  "same_pids st st' \<longleftrightarrow> pids st' = pids st \<and> (\<forall>q. i_process (pinfos st' q) = i_process (pinfos st q) \<and> i_refs (pinfos st' q) = i_refs (pinfos st q))"

lemma same_pids_refl [simp]: "same_pids st st"
  by (simp add: same_pids_def)

lemma same_pids_trans: "same_pids a b \<Longrightarrow> same_pids b c \<Longrightarrow> same_pids a c"
  by (simp add: same_pids_def)

lemma same_pids_ok: "same_pids st st' \<Longrightarrow> pids_ok st xs \<Longrightarrow> pids_ok st' xs"
  by (simp add: same_pids_def pids_ok_def)

lemma same_pids_simps [simp]: "same_pids st (set_fd p fd g st)" "same_pids st (set_flags p fd w st)" "same_pids st (upd_file f h st)" "same_pids st (pfree f st)"
  by (simp_all add: same_pids_def)

lemma tables_same:
  assumes "tables A H st" and "same_slots st st'" and "\<And>f. f_refs (files st' f) = f_refs (files st f)" and "\<And>p. i_maxfd (pinfos st' p) = i_maxfd (pinfos st p)"
    and "close_answers st' = close_answers st"
  shows "tables A H st'"
proof -
  have "fdsz st' p = fdsz st p" for p using assms(2) by (metis fdsz_def length_map same_slots_def)
  then show ?thesis using assms counted_same [OF tablesD(2) [OF assms(1)] assms(2,3)] by (simp add: tables_def answering_def)
qed

lemma tables_refs: "tables A H st \<Longrightarrow> tables A H (upd_pinfo p (\<lambda>x. x\<lparr>i_refs := g x\<rparr>) st)"
  by (erule tables_same) (auto simp: same_slots_def)

lemma tables_flags: "tables A H st \<Longrightarrow> fd < fdsz st p \<Longrightarrow> tables A H (set_flags p fd w st)"
  by (erule tables_same) (simp_all add: same_slots_flags)

lemma tables_take: "tables A H st \<Longrightarrow> f \<noteq> NULL \<Longrightarrow> 0 < users A st f + H f \<Longrightarrow> tables A (H(f := H f + 1)) (upd_file f (\<lambda>x. x\<lparr>f_refs := f_refs x + 1\<rparr>) st)"
  using counted_take by (auto simp: tables_def answering_def fdsz_def)

lemma tables_store:
  "tables A (H(f := H f + 1)) st \<Longrightarrow> p \<in> A \<Longrightarrow> fd < fdsz st p \<Longrightarrow> file_of st p fd = NULL \<Longrightarrow> tables A H (set_fd p fd f st)"
  using counted_store [of A H f st p fd] by (auto simp: tables_def answering_def)

lemma tables_clear:
  "tables A H st \<Longrightarrow> p \<in> A \<Longrightarrow> fd < fdsz st p \<Longrightarrow> f = file_of st p fd \<Longrightarrow> tables A (H(f := H f + 1)) (set_fd p fd NULL st)"
  using counted_clear [of A H st p fd f] by (auto simp: tables_def answering_def)

lemma tables_deref:
  assumes "tables A H st" and "f \<noteq> NULL" and "0 < H f" and "users A st f + H f < 2 ^ 32"
  obtains st' e where "posix_fileDeref f st = Some (st', e)" and "tables A (H(f := H f - 1)) st'" and "pinfos st' = pinfos st" and "same_pids st st'"
    and "pfreed st' = (if users A st f + H f = 1 then f # pfreed st else pfreed st)"
proof -
  obtain st' e where d: "posix_fileDeref f st = Some (st', e)" "counted A (H(f := H f - 1)) st'" "pinfos st' = pinfos st" "pids st' = pids st"
    "close_answers st' = close_answers st" "pfreed st' = (if users A st f + H f = 1 then f # pfreed st else pfreed st)"
    using fileDeref_counted [OF tablesD(2) [OF assms(1)] assms(2-4) tablesD(5) [OF assms(1)]] by blast
  have "tables A (H(f := H f - 1)) st'" using assms(1) d(2,3,5) by (simp add: tables_def answering_def fdsz_def)
  then show thesis using that d(1,3,4,6) by (simp add: same_pids_def)
qed

text \<open>A descriptor is found without changing what the counts depend on.\<close>

lemma allocfd_tables:
  assumes "tables A H st" and "p \<in> A"
  obtains st' r where "posix_allocfd mem p fd st = Some (st', r)" and "tables A H st'" and "same_pids st st'"
    and "0 \<le> r \<longrightarrow> nat r < fdsz st' p \<and> file_of st' p (nat r) = NULL" and "\<forall>k < fdsz st p. k < fdsz st' p \<and> file_of st' p k = file_of st p k"
    and "\<forall>f. f \<noteq> NULL \<longrightarrow> users A st' f = users A st f" and "pfreed st' = pfreed st"
proof -
  let ?fds = "i_fds (pinfos st p)" and ?m = "i_maxfd (pinfos st p)"
  have s: "0 < length ?fds" "length ?fds \<le> ?m" using tablesD(3,4) [OF assms(1)] assms(2) by (simp_all add: fdsz_def)
  obtain fds' r where a: "allocfd_loop mem ?m ?fds fd = Some (fds', r)" "alloc_result mem ?m ?fds fd fds' r" using allocfd_loop_returns [OF s] by blast
  then obtain n where n: "fds' = ?fds @ replicate n no_fd" "length fds' \<le> ?m" using s(2) unfolding alloc_result_def by (metis append_Nil2 replicate_0)
  let ?st = "upd_pinfo p (\<lambda>x. x\<lparr>i_fds := fds'\<rparr>) st"
  have k: "0 \<le> r \<Longrightarrow> nat r < length fds' \<and> fd_file (fds' ! nat r) = NULL"
    using a(2) n(1) by (auto simp: alloc_result_def used_def nth_append no_fd_def)
  have u: "users A ?st f = users A st f" if "f \<noteq> NULL" for f
  proof -
    have "count_list (replicate n NULL) f = 0" using that by (simp add: count_list_0_iff)
    then have "slots ?st q f = slots st q f" for q using n(1) by (simp add: slots_def no_fd_def map_replicate_const)
    then show ?thesis by (simp add: users_def)
  qed
  have "counted A H ?st" unfolding counted_def using countedD [OF tablesD(2) [OF assms(1)]] u by auto
  then have t: "tables A H ?st" using assms(1) n s(1) by (auto simp: tables_def answering_def fdsz_def)
  have e: "posix_allocfd mem p fd st = Some (?st, r)" using a(1) by (simp add: posix_allocfd_def)
  show thesis by (rule that [OF e t]) (use k u n(1) in \<open>auto simp: same_pids_def fdsz_def file_of_def nth_append\<close>)
qed

section \<open>Operations on a table\<close>

lemma file_of_set_fd: "fd < fdsz st p \<Longrightarrow> file_of (set_fd p fd g st) p k = (if k = fd then g else file_of st p k)"
  by (simp add: file_of_def set_fd_def fdsz_def nth_list_update)

lemma file_of_frames [simp]: "file_of (upd_file f h st) p k = file_of st p k" "file_of (set_flags q fd w st) p k = file_of st p k" "fdsz (upd_file f h st) p = fdsz st p"
  by (simp_all add: file_of_def set_flags_def fdsz_def) (metis (no_types, lifting) fildes.select_convs(1) fildes.surjective fildes.update_convs(2) list_update_beyond not_le nth_list_update nth_list_update_neq)

lemma set_fd_upd_file: "upd_file f h (set_flags p k w (set_fd p fd g st)) = set_flags p k w (set_fd p fd g (upd_file f h st))"
  by (simp add: upd_file_def set_fd_def set_flags_def upd_pinfo_def)

text \<open>One more descriptor for a file that is in use.\<close>

lemma share_slot:
  assumes "tables A H st" and "p \<in> A" and "fd < fdsz st p" and "file_of st p fd = NULL" and "f \<noteq> NULL" and "0 < users A st f + H f"
  shows "tables A H (upd_file f (\<lambda>x. x\<lparr>f_refs := f_refs x + 1\<rparr>) (set_flags p fd 0 (set_fd p fd f st)))"
  unfolding set_fd_upd_file
  by (rule tables_flags [OF tables_store [OF tables_take [OF assms(1,5,6)] assms(2)]]) (use assms(3,4) in simp_all)

section \<open>Calls\<close>

definition files_ok :: "addr list \<Rightarrow> addr set \<Rightarrow> 'a posixsys_scheme \<Rightarrow> bool" where
  "files_ok xs A st \<longleftrightarrow> pids_ok st xs \<and> A \<subseteq> set xs \<and> tables A (\<lambda>_. 0) st"

text \<open>The process that makes a call on a processor, and counters that do not overflow.\<close>

definition caller :: "addr set \<Rightarrow> nat \<Rightarrow> 'a posixsys_scheme \<Rightarrow> addr \<Rightarrow> bool" where
  "caller A cpu st p \<longleftrightarrow> p \<in> A \<and> i_process (pinfos st p) = my_pid cpu st"

definition room :: "addr set \<Rightarrow> 'a posixsys_scheme \<Rightarrow> bool" where
  "room A st \<longleftrightarrow> (\<forall>f. f \<noteq> NULL \<longrightarrow> users A st f + 1 < 2 ^ 32)"

lemma roomD: "room A st \<Longrightarrow> f \<noteq> NULL \<Longrightarrow> users A st f < 2 ^ 32"
  unfolding room_def using add_lessD1 by blast

abbreviation (input) held :: "addr \<Rightarrow> 'a posixsys_scheme \<Rightarrow> 'a posixsys_scheme" where
  "held p st \<equiv> upd_pinfo p (\<lambda>x. x\<lparr>i_refs := i_refs x + 1\<rparr>) st"

lemma users_refs [simp]: "users A (upd_pinfo p (\<lambda>x. x\<lparr>i_refs := g x\<rparr>) st) f = users A st f"
  by (rule same_slots_users) (simp add: same_slots_def)

lemma refs_frames [simp]:
  "file_of (upd_pinfo p (\<lambda>x. x\<lparr>i_refs := g x\<rparr>) st) q k = file_of st q k" "fdsz (upd_pinfo p (\<lambda>x. x\<lparr>i_refs := g x\<rparr>) st) q = fdsz st q"
  by (simp_all add: file_of_def fdsz_def)

text \<open>A call that found its entry and worked on the tables drops the reference and keeps the tree.\<close>

lemma call_entry:
  assumes "files_ok xs A st" and "caller A cpu st p"
  shows "pinfo_find (my_pid cpu st) st = Some (held p st, p)" and "p \<noteq> NULL" and "p \<in> A" and "tables A (\<lambda>_. 0) (held p st)"
proof -
  have p: "pids_ok st xs" "p \<in> set xs" "i_process (pinfos st p) = my_pid cpu st" using assms by (auto simp: files_ok_def caller_def)
  show "pinfo_find (my_pid cpu st) st = Some (held p st, p)" by (rule pinfo_find_found [OF p])
  show "p \<noteq> NULL" by (rule pids_ok_nodes [OF p(1,2)])
  show "p \<in> A" using assms(2) by (simp add: caller_def)
  show "tables A (\<lambda>_. 0) (held p st)" using assms(1) by (simp add: files_ok_def tables_refs)
qed

lemma call_return:
  assumes "files_ok xs A st" and "p \<in> A" and "same_pids (held p st) st2" and "tables A H st2"
  obtains st3 where "pinfo_put nil p st2 = Some st3" and "pids_ok st3 xs" and "tables A H st3" and "\<And>f. users A st3 f = users A st2 f" and "pfreed st3 = pfreed st2"
proof -
  let ?st3 = "upd_pinfo p (\<lambda>x. x\<lparr>i_refs := i_refs x - 1\<rparr>) st2"
  have p: "pids_ok st xs" "p \<in> set xs" using assms(1,2) by (auto simp: files_ok_def)
  have r: "i_refs (pinfos st2 p) = i_refs (pinfos st p) + 1" using assms(3) by (simp add: same_pids_def)
  then have e: "pinfo_put nil p st2 = Some ?st3" using pids_ok_refs [OF p] by (simp add: pinfo_put_keeps)
  have "same_pids st ?st3" using assms(3) r by (auto simp: same_pids_def)
  from that [OF e same_pids_ok [OF this p(1)] tables_refs [OF assms(4)]] show thesis by simp
qed

text \<open>Nothing but the error when the descriptor is not open.\<close>

lemma call_fails:
  assumes "files_ok xs A st" and "p \<in> A"
  shows "pinfo_put nil p (held p st) = Some st"
  using find_put_same [of st xs p nil] assms by (auto simp: files_ok_def)

lemma close_ok:
  assumes ok: "files_ok xs A st" and c: "caller A cpu st p" and room: "room A st" and fd: "0 \<le> fd" "fd < int (fdsz st p)" "file_of st p (nat fd) \<noteq> NULL"
  shows "\<exists>st' r. posix_close nil cpu fd st = Some (st', r) \<and> files_ok xs A st' \<and>
    pfreed st' = (if users A st (file_of st p (nat fd)) = 1 then file_of st p (nat fd) # pfreed st else pfreed st)"
proof -
  note e = call_entry [OF ok c]
  define f where "f = file_of st p (nat fd)"
  let ?H = "(\<lambda>_. 0)(f := Suc 0)"
  let ?st2 = "set_fd p (nat fd) NULL (held p st)"
  have t2: "tables A ?H ?st2" using tables_clear [OF e(4,3), of "nat fd" f] fd(1,2) by (simp add: f_def nat_less_iff)
  obtain st3 where st3: "pinfo_put nil p ?st2 = Some st3" "pids_ok st3 xs" "tables A ?H st3" "\<And>f. users A st3 f = users A ?st2 f" "pfreed st3 = pfreed ?st2"
    by (rule call_return [OF ok e(3) _ t2]) (auto simp: same_pids_def)
  have fA: "finite A" using tablesD(1) [OF e(4)] .
  have u: "users A st3 f + 1 = users A st f"
    using users_set_fd [OF fA e(3), of "nat fd" "held p st" NULL f] fd by (simp add: st3(4) f_def nat_less_iff)
  obtain st4 r where st4: "posix_fileDeref f st3 = Some (st4, r)" "tables A (?H(f := ?H f - 1)) st4" "same_pids st3 st4"
    "pfreed st4 = (if users A st3 f + ?H f = 1 then f # pfreed st3 else pfreed st3)"
    by (rule tables_deref [OF st3(3), of f]) (use u fd(3) roomD [OF room, of f] in \<open>auto simp: f_def\<close>)
  have "posix_close nil cpu fd st = Some (st4, r)"
    using e(1,2) fd st3(1) st4(1) by (simp add: posix_close_def f_def)
  moreover have "files_ok xs A st4" using st4(2) same_pids_ok [OF st4(3) st3(2)] ok by (simp add: files_ok_def fun_upd_idem)
  ultimately show ?thesis using st4(4) u st3(5) by (simp add: f_def)
qed

lemma close_bad: "files_ok xs A st \<Longrightarrow> caller A cpu st p \<Longrightarrow> \<not> (0 \<le> fd \<and> fd < int (fdsz st p) \<and> file_of st p (nat fd) \<noteq> NULL) \<Longrightarrow>
  posix_close nil cpu fd st = Some (st, - EBADF)"
  using call_entry [of xs A st cpu p] call_fails [of xs A st p nil] by (auto simp: posix_close_def)

lemma dup_ok:
  assumes ok: "files_ok xs A st" and c: "caller A cpu st p"
  shows "\<exists>st' r. posix_dup nil cpu mem fd st = Some (st', r) \<and> files_ok xs A st'"
proof (cases "0 \<le> fd \<and> fd < int (fdsz st p) \<and> file_of st p (nat fd) \<noteq> NULL")
  case False
  then show ?thesis using call_entry [OF ok c] call_fails [OF ok, of p nil] ok by (auto simp: posix_dup_def)
next
  case True
  note e = call_entry [OF ok c]
  define f where "f = file_of st p (nat fd)"
  have u: "0 < users A st f" using users_positive [OF tablesD(1) [OF e(4)] e(3), of "nat fd" st] True by (simp add: f_def nat_less_iff)
  obtain st2 r where a: "posix_allocfd mem p 0 (held p st) = Some (st2, r)" "tables A (\<lambda>_. 0) st2" "same_pids (held p st) st2"
    "0 \<le> r \<longrightarrow> nat r < fdsz st2 p \<and> file_of st2 p (nat r) = NULL" "\<forall>f. f \<noteq> NULL \<longrightarrow> users A st2 f = users A (held p st) f"
    by (rule allocfd_tables [OF e(4,3), of mem 0])
  define st3 where "st3 = (if r < 0 then st2 else upd_file f (\<lambda>x. x\<lparr>f_refs := f_refs x + 1\<rparr>) (set_flags p (nat r) 0 (set_fd p (nat r) f st2)))"
  have t3: "tables A (\<lambda>_. 0) st3"
  proof (cases "r < 0")
    case False
    then show ?thesis using share_slot [OF a(2) e(3), of "nat r" f] a(4,5) u True by (simp add: st3_def f_def)
  qed (use a(2) in \<open>simp add: st3_def\<close>)
  have s3: "same_pids (held p st) st3" using a(3) by (auto simp: st3_def same_pids_def)
  obtain st4 where st4: "pinfo_put nil p st3 = Some st4" "pids_ok st4 xs" "tables A (\<lambda>_. 0) st4" by (rule call_return [OF ok e(3) s3 t3])
  have "posix_dup nil cpu mem fd st = Some (st4, if r < 0 then - EBADF else r)"
    using e(1,2) a(1) True st4(1) by (cases "r < 0") (simp_all add: posix_dup_def Let_def st3_def f_def)
  then show ?thesis using st4(2,3) ok by (simp add: files_ok_def)
qed

lemma set_fd_same:
  assumes "file_of st p fd = g"
  shows "set_fd p fd g st = st"
proof -
  have "(i_fds (pinfos st p) ! fd)\<lparr>fd_file := g\<rparr> = i_fds (pinfos st p) ! fd" using assms by (cases "i_fds (pinfos st p) ! fd") (simp add: file_of_def)
  then have "(pinfos st p)\<lparr>i_fds := (i_fds (pinfos st p))[fd := (i_fds (pinfos st p) ! fd)\<lparr>fd_file := g\<rparr>]\<rparr> = pinfos st p"
    by (cases "pinfos st p") simp
  then show ?thesis unfolding set_fd_def by (rule upd_pinfo_same)
qed

text \<open>Replacing the file of a descriptor by that of another one.\<close>

lemma dup2_replace_ok:
  assumes t: "tables A (\<lambda>_. 0) st" and p: "p \<in> A" and fd: "fd < fdsz st p" "fd2 < fdsz st p" "fd \<noteq> fd2" "file_of st p fd \<noteq> NULL" and room: "room A st"
  shows "\<exists>st'. dup2_replace p fd fd2 st = Some (st', int fd2) \<and> tables A (\<lambda>_. 0) st' \<and> same_pids st st'"
proof -
  define f where "f = file_of st p fd"
  define f2 where "f2 = file_of st p fd2"
  have fA: "finite A" by (rule tablesD(1) [OF t])
  obtain st2 where st2: "(if f2 \<noteq> NULL then map_option fst (posix_fileDeref f2 (set_fd p fd2 NULL st)) else Some st) = Some st2" "tables A (\<lambda>_. 0) st2"
    "same_pids st st2" "pinfos st2 = pinfos (set_fd p fd2 NULL st)"
  proof (cases "f2 = NULL")
    case True
    then have "set_fd p fd2 NULL st = st" by (intro set_fd_same) (simp add: f2_def)
    then show thesis using that True t by simp
  next
    case False
    let ?st1 = "set_fd p fd2 NULL st"
    have t1: "tables A ((\<lambda>_. 0)(f2 := Suc 0)) ?st1" using tables_clear [OF t p fd(2), of f2] by (simp add: f2_def)
    have u: "users A ?st1 f2 + 1 = users A st f2" using users_set_fd [OF fA p fd(2), of NULL f2] False by (simp add: f2_def)
    obtain st2 e where "posix_fileDeref f2 ?st1 = Some (st2, e)" "tables A (((\<lambda>_. 0)(f2 := Suc 0))(f2 := 0)) st2" "pinfos st2 = pinfos ?st1" "same_pids ?st1 st2"
      by (rule tables_deref [OF t1 False]) (use u roomD [OF room False] in auto)
    then show thesis using that False same_pids_trans [OF same_pids_simps(1) [of st p fd2 NULL], of st2] by (simp add: fun_upd_idem)
  qed
  have k: "fd < fdsz st2 p" "fd2 < fdsz st2 p" "file_of st2 p fd = f" "file_of st2 p fd2 = NULL"
    using st2(4) fd by (simp_all add: fdsz_def file_of_def set_fd_def f_def)
  have "0 < users A st2 f" using users_positive [OF fA p k(1)] k(3) by simp
  then have "tables A (\<lambda>_. 0) (upd_file f (\<lambda>x. x\<lparr>f_refs := f_refs x + 1\<rparr>) (set_flags p fd2 0 (set_fd p fd2 f st2)))"
    using share_slot [OF st2(2) p k(2,4), of f] fd(4) by (simp add: f_def)
  moreover have "same_pids st (upd_file f (\<lambda>x. x\<lparr>f_refs := f_refs x + 1\<rparr>) (set_flags p fd2 0 (set_fd p fd2 f st2)))"
    using st2(3) by (auto simp: same_pids_def)
  ultimately show ?thesis using st2(1) by (simp add: dup2_replace_def Let_def flip: f_def f2_def)
qed

lemma dup2_table_ok:
  assumes t: "tables A (\<lambda>_. 0) st" and p: "p \<in> A" and ne: "fd \<noteq> fd2" and room: "room A st"
  shows "\<exists>st' r. posix_dup2_table mem p fd fd2 st = Some (st', r) \<and> tables A (\<lambda>_. 0) st' \<and> same_pids st st'"
proof (cases "0 \<le> fd \<and> fd < int (fdsz st p) \<and> 0 \<le> fd2 \<and> fd2 < int (i_maxfd (pinfos st p)) \<and> file_of st p (nat fd) \<noteq> NULL")
  case False
  then have "posix_dup2_table mem p fd fd2 st = Some (st, - EBADF)" by (auto simp: posix_dup2_table_def)
  then show ?thesis using t by simp
next
  case True
  obtain st2 r where a: "(if fd2 \<ge> int (fdsz st p) then posix_allocfd mem p (nat fd2) st else Some (st, fd2)) = Some (st2, r)" "tables A (\<lambda>_. 0) st2" "same_pids st st2"
    "r = fd2 \<longrightarrow> nat fd2 < fdsz st2 p" "nat fd < fdsz st2 p" "file_of st2 p (nat fd) = file_of st p (nat fd)" "\<forall>f. f \<noteq> NULL \<longrightarrow> users A st2 f = users A st f"
  proof (cases "fd2 \<ge> int (fdsz st p)")
    case grow: True
    obtain st2 r where r: "posix_allocfd mem p (nat fd2) st = Some (st2, r)" "tables A (\<lambda>_. 0) st2" "same_pids st st2"
      "0 \<le> r \<longrightarrow> nat r < fdsz st2 p \<and> file_of st2 p (nat r) = NULL" "\<forall>k < fdsz st p. k < fdsz st2 p \<and> file_of st2 p k = file_of st p k"
      "\<forall>f. f \<noteq> NULL \<longrightarrow> users A st2 f = users A st f" by (rule allocfd_tables [OF t p, of mem "nat fd2"])
    have "r = fd2 \<longrightarrow> nat fd2 < fdsz st2 p" using r(4) True by auto
    moreover have "nat fd < fdsz st p" using True by (simp add: nat_less_iff)
    ultimately show thesis using that [of st2 r] grow r by simp
  qed (use True t that in \<open>auto simp: nat_less_iff\<close>)
  show ?thesis
  proof (cases "r = fd2")
    case fit: True
    have "room A st2" using room a(7) by (simp add: room_def)
    moreover have "nat fd \<noteq> nat fd2" using ne True by auto
    ultimately obtain st3 where "dup2_replace p (nat fd) (nat fd2) st2 = Some (st3, int (nat fd2))" "tables A (\<lambda>_. 0) st3" "same_pids st2 st3"
      using dup2_replace_ok [OF a(2) p a(5) mp [OF a(4) fit]] a(6) True by auto
    then show ?thesis using True fit a(1) same_pids_trans [OF a(3)] by (auto simp: posix_dup2_table_def)
  next
    case False
    then have "posix_dup2_table mem p fd fd2 st = Some (st2, - EFAULT)" using True a(1) by (simp add: posix_dup2_table_def)
    then show ?thesis using a(2,3) by simp
  qed
qed

lemma dup2_ok:
  assumes ok: "files_ok xs A st" and c: "caller A cpu st p" and ne: "fd \<noteq> fd2" and room: "room A st"
  shows "\<exists>st' r. posix_dup2 nil cpu mem fd fd2 st = Some (st', r) \<and> files_ok xs A st'"
proof -
  note e = call_entry [OF ok c]
  have "room A (held p st)" using room by (simp add: room_def)
  from dup2_table_ok [OF e(4,3) ne this, of mem] obtain st2 r where d: "posix_dup2_table mem p fd fd2 (held p st) = Some (st2, r)" "tables A (\<lambda>_. 0) st2" "same_pids (held p st) st2" by blast
  obtain st3 where "pinfo_put nil p st2 = Some st3" "pids_ok st3 xs" "tables A (\<lambda>_. 0) st3" by (rule call_return [OF ok e(3) d(3,2)])
  then show ?thesis using e(1,2) d(1) ok by (simp add: posix_dup2_def files_ok_def)
qed

section \<open>Exec and exit\<close>

lemma deref_set_fd: "posix_fileDeref f (set_fd p k g st) = map_option (\<lambda>(s, e). (set_fd p k g s, e)) (posix_fileDeref f st)"
  by (simp add: posix_fileDeref_def Let_def upd_file_def set_fd_def upd_pinfo_def pfree_def option.map_comp comp_def split: list.split bind_splits)

lemma exec_close_step:
  assumes t: "tables A (\<lambda>_. 0) st" and p: "p \<in> A" and fd: "fd < fdsz st p" "file_of st p fd \<noteq> NULL" and room: "room A st"
  obtains st' where "map_option (\<lambda>(st, _). set_fd p fd NULL st) (posix_fileDeref (file_of st p fd) st) = Some st'" and "tables A (\<lambda>_. 0) st'" and "same_pids st st'"
    and "fdsz st' p = fdsz st p" and "room A st'"
proof -
  define f where "f = file_of st p fd"
  let ?st1 = "set_fd p fd NULL st"
  have t1: "tables A ((\<lambda>_. 0)(f := Suc 0)) ?st1" using tables_clear [OF t p fd(1), of f] by (simp add: f_def)
  have u: "users A ?st1 g + (if f = g then 1 else 0) = users A st g" if "g \<noteq> NULL" for g
    using users_set_fd [OF tablesD(1) [OF t] p fd(1), of NULL g] that by (simp add: f_def)
  have f: "f \<noteq> NULL" using fd(2) by (simp add: f_def)
  have h: "0 < ((\<lambda>_. 0)(f := Suc 0)) f" by simp
  have b: "users A ?st1 f + ((\<lambda>_. 0)(f := Suc 0)) f < 2 ^ 32" using u [OF f] roomD [OF room f] by simp
  obtain st2 e where d: "posix_fileDeref f ?st1 = Some (st2, e)" "tables A (((\<lambda>_. 0)(f := Suc 0))(f := ((\<lambda>_. 0)(f := Suc 0)) f - 1)) st2" "pinfos st2 = pinfos ?st1" "same_pids ?st1 st2"
    by (rule tables_deref [OF t1 f h b])
  have "users A st2 g = users A ?st1 g" for g by (rule same_slots_users) (simp add: same_slots_def d(3))
  then have "room A st2" using room u unfolding room_def by (metis add_lessD1 add.commute add.assoc)
  moreover have "map_option (\<lambda>(st, _). set_fd p fd NULL st) (posix_fileDeref f st) = Some st2" using d(1) by (auto simp: deref_set_fd)
  moreover have "same_pids st st2" using d(4) by (auto simp: same_pids_def)
  moreover have "fdsz st2 p = fdsz st p" using d(3) by (simp add: fdsz_def set_fd_def)
  ultimately show thesis using that d(2) by (simp add: f_def fun_upd_idem)
qed

lemma exec_close_ok:
  assumes "tables A (\<lambda>_. 0) st" and "p \<in> A" and "fd + n \<le> fdsz st p" and "room A st"
  shows "\<exists>st'. exec_close p fd n st = Some st' \<and> tables A (\<lambda>_. 0) st' \<and> same_pids st st'"
  using assms
proof (induction n arbitrary: fd st)
  case (Suc n)
  let ?close = "file_of st p fd \<noteq> NULL \<and> fd_flags (i_fds (pinfos st p) ! fd) AND FD_CLOEXEC \<noteq> 0"
  obtain st2 where st2: "(if ?close then map_option (\<lambda>(st, _). set_fd p fd NULL st) (posix_fileDeref (file_of st p fd) st) else Some st) = Some st2"
    "tables A (\<lambda>_. 0) st2" "same_pids st st2" "fdsz st2 p = fdsz st p" "room A st2"
  proof (cases ?close)
    case True
    show thesis by (rule exec_close_step [OF Suc.prems(1,2) _ _ Suc.prems(4), of fd]) (use True Suc.prems(3) that in auto)
  qed (use Suc.prems that in auto)
  from Suc.IH [OF st2(2) Suc.prems(2) _ st2(5), of "fd + 1"] Suc.prems(3) st2(4)
  obtain st3 where "exec_close p (fd + 1) n st2 = Some st3" "tables A (\<lambda>_. 0) st3" "same_pids st2 st3" by auto
  then show ?case using st2(1) same_pids_trans [OF st2(3)] by (simp del: exec_close.simps add: exec_close.simps(2))
qed simp

lemma exec_ok:
  assumes ok: "files_ok xs A st" and c: "caller A cpu st p" and room: "room A st"
  shows "\<exists>st' r. posix_exec nil cpu st = Some (st', r) \<and> files_ok xs A st'"
proof -
  note e = call_entry [OF ok c]
  have "room A (held p st)" using room by (simp add: room_def)
  from exec_close_ok [OF e(4,3) _ this, of 0 "fdsz st p"] obtain st2 where d: "exec_close p 0 (fdsz st p) (held p st) = Some st2" "tables A (\<lambda>_. 0) st2" "same_pids (held p st) st2" by auto
  obtain st3 where "pinfo_put nil p st2 = Some st3" "pids_ok st3 xs" "tables A (\<lambda>_. 0) st3" by (rule call_return [OF ok e(3) d(3,2)])
  then show ?thesis using e(1,2) d(1) ok by (simp add: posix_exec_def files_ok_def)
qed

text \<open>The descriptors that a process which ends still has to close are held references.\<close>

lemma counted_cong: "counted A H st \<Longrightarrow> (\<And>f. f \<noteq> NULL \<Longrightarrow> H' f = H f) \<Longrightarrow> counted A H' st"
  unfolding counted_def by metis

lemma tables_cong: "tables A H st \<Longrightarrow> (\<And>f. f \<noteq> NULL \<Longrightarrow> H' f = H f) \<Longrightarrow> tables A H' st"
  unfolding tables_def using counted_cong by blast

definition rest :: "'a posixsys_scheme \<Rightarrow> addr \<Rightarrow> nat \<Rightarrow> addr \<Rightarrow> nat" where
  "rest st p fd f = count_list (drop fd (map fd_file (i_fds (pinfos st p)))) f"

lemma rest_step: "fd < fdsz st p \<Longrightarrow> rest st p fd f = rest st p (fd + 1) f + (if file_of st p fd = f then 1 else 0)"
  by (simp add: rest_def fdsz_def file_of_def Cons_nth_drop_Suc [symmetric])

lemma exit_close_ok:
  assumes "tables B (rest st p fd) st" and "fd + n = fdsz st p" and "\<And>f. f \<noteq> NULL \<Longrightarrow> users B st f + rest st p fd f < 2 ^ 32"
  shows "\<exists>st'. exit_close p fd n st = Some st' \<and> tables B (\<lambda>_. 0) st' \<and> same_pids st st'"
  using assms
proof (induction n arbitrary: fd st)
  case 0
  then have "rest st p fd f = 0" for f by (simp add: rest_def fdsz_def)
  then show ?case using 0(1) by (simp add: tables_def counted_def)
next
  case (Suc n)
  define f where "f = file_of st p fd"
  have fd: "fd < fdsz st p" using Suc.prems(2) by simp
  obtain st2 where st2: "(if f \<noteq> NULL then map_option fst (posix_fileDeref f st) else Some st) = Some st2" "tables B (rest st p (fd + 1)) st2" "pinfos st2 = pinfos st" "same_pids st st2"
  proof (cases "f = NULL")
    case True
    have "tables B (rest st p (fd + 1)) st" by (rule tables_cong [OF Suc.prems(1)]) (use True rest_step [OF fd] in \<open>simp add: f_def\<close>)
    then show thesis using that True by simp
  next
    case False
    have h: "0 < rest st p fd f" using rest_step [OF fd, of f] by (simp add: f_def)
    obtain st2 e where d: "posix_fileDeref f st = Some (st2, e)" "tables B ((rest st p fd)(f := rest st p fd f - 1)) st2" "pinfos st2 = pinfos st" "same_pids st st2"
      by (rule tables_deref [OF Suc.prems(1) False h Suc.prems(3) [OF False]])
    have "tables B (rest st p (fd + 1)) st2" by (rule tables_cong [OF d(2)]) (use rest_step [OF fd] in \<open>simp add: f_def\<close>)
    then show thesis using that False d by simp
  qed
  have r: "rest st2 p = rest st p" "fdsz st2 p = fdsz st p" "users B st2 = users B st" using st2(3) by (auto simp: rest_def fdsz_def users_def slots_def fun_eq_iff)
  have "users B st2 g + rest st2 p (fd + 1) g < 2 ^ 32" if "g \<noteq> NULL" for g using Suc.prems(3) [OF that] rest_step [OF fd, of g] r by simp
  from Suc.IH [of st2 "fd + 1", OF _ _ this] st2(2) r Suc.prems(2)
  obtain st3 where "exit_close p (fd + 1) n st2 = Some st3" "tables B (\<lambda>_. 0) st3" "same_pids st2 st3" by auto
  moreover from this(1) have "exit_close p fd (Suc n) st = Some st3" unfolding exit_close.simps f_def [symmetric] st2(1) by simp
  ultimately show ?case using same_pids_trans [OF st2(4)] by blast
qed

lemma exit_ok:
  assumes ok: "files_ok xs A st" and p: "p \<in> A" and room: "room A st"
  shows "\<exists>st' r. posix_exit p code st = Some (st', r) \<and> files_ok xs (A - {p}) st'"
proof -
  define st1 where "st1 = upd_pinfo p (\<lambda>x. x\<lparr>i_exitcode := code\<rparr>) st"
  have t: "tables A (\<lambda>_. 0) st" and fA: "finite A" using ok by (simp_all add: files_ok_def tables_def)
  have s: "same_slots st st1" by (auto simp: st1_def same_slots_def)
  have t1: "tables A (\<lambda>_. 0) st1" by (rule tables_same [OF t s]) (auto simp: st1_def)
  have u: "users A st1 f = users (A - {p}) st1 f + rest st1 p 0 f" for f
    using users_remove [OF fA p, of st1 f] by (simp add: rest_def slots_def)
  have "tables (A - {p}) (rest st1 p 0) st1" using t1 u by (simp add: tables_def counted_def)
  moreover have "users (A - {p}) st1 f + rest st1 p 0 f < 2 ^ 32" if "f \<noteq> NULL" for f
    using roomD [OF room that] u [of f] same_slots_users [OF s, of A f] by simp
  ultimately obtain st2 where st2: "exit_close p 0 (fdsz st1 p) st1 = Some st2" "tables (A - {p}) (\<lambda>_. 0) st2" "same_pids st1 st2"
    using exit_close_ok [of "A - {p}" st1 p 0 "fdsz st1 p"] by auto
  have "same_pids st st1" by (simp add: st1_def same_pids_def)
  from same_pids_ok [OF same_pids_trans [OF this st2(3)]] ok st2(1,2) show ?thesis by (auto simp: posix_exit_def files_ok_def Let_def simp flip: st1_def)
qed

section \<open>Creation\<close>

interpretation pidorder: rb_order "\<lambda>a b. pinfo_cmp (pinfos st a) (pinfos st b)" "\<lambda>a. i_process (pinfos st a)" for st :: "'a posixsys_scheme"
  by unfold_locales (auto simp: pinfo_cmp_def)

lemma pinfo_insert_ok:
  assumes "pids_ok st xs" and "q \<notin> set xs" "q \<noteq> NULL" and "i_process (pinfos st q) \<notin> numbers st xs" and "0 < i_refs (pinfos st q)"
  obtains t ys where "pinfo_insert q st = Some (st\<lparr>pids := t\<rparr>)" and "pids_ok (st\<lparr>pids := t\<rparr>) ys" and "set ys = insert q (set xs)"
proof -
  let ?c = "\<lambda>a b. pinfo_cmp (pinfos st a) (pinfos st b)"
  have s: "rb_nodes (pids st) xs" "sorted_wrt (\<lambda>a b. i_process (pinfos st a) < i_process (pinfos st b)) xs" using assms(1) by (simp_all add: pids_ok_def)
  have nz: "?c a q \<noteq> 0" if "a \<in> set xs" for a
  proof -
    have "i_process (pinfos st a) \<in> numbers st xs" using that by (simp add: numbers_def)
    then show ?thesis using assms(4) by (metis pidorder.compare_equal)
  qed
  obtain t where t: "lib_rbInsert no_augment ?c q (pids st) = Some (t, EOK)" "rb_nodes t (ordered_insert ?c q xs)"
    using plain.insert_new [OF s(1) pidorder.key_search_cut [OF s(2)] nz assms(3,2)] by blast
  have y: "set (ordered_insert ?c q xs) = insert q (set xs)" by (auto simp: ordered_insert_def dest: set_takeWhileD set_dropWhileD) (metis Un_iff set_append takeWhile_dropWhile_id)
  have "sorted_wrt (\<lambda>a b. i_process (pinfos st a) < i_process (pinfos st b)) (ordered_insert ?c q xs)"
    using pidorder.key_ordered_insert [OF s(2), of q] assms(4) by (simp add: numbers_def)
  then have "pids_ok (st\<lparr>pids := t\<rparr>) (ordered_insert ?c q xs)" using t(2) y assms(1,5) by (auto simp: pids_ok_def)
  then show thesis using that [of t] t(1) y by (simp add: pinfo_insert_def)
qed

lemma share_files_fields [simp]:
  "pinfos (share_files fs st) = pinfos st" "pids (share_files fs st) = pids st" "close_answers (share_files fs st) = close_answers st" "pfreed (share_files fs st) = pfreed st"
  by (induction fs st rule: share_files.induct) simp_all

lemma share_files_counted:
  assumes "counted A H st" and "\<And>f. f \<in> set fs \<Longrightarrow> f \<noteq> NULL \<Longrightarrow> 0 < users A st f + H f"
  shows "counted A (\<lambda>f. H f + count_list fs f) (share_files fs st)"
  using assms
proof (induction fs arbitrary: H st)
  case (Cons f fs)
  show ?case
  proof (cases "f = NULL")
    case True
    have "counted A (\<lambda>g. H g + count_list fs g) (share_files fs st)" using Cons True by simp
    then have "counted A (\<lambda>g. H g + count_list (f # fs) g) (share_files fs st)" by (rule counted_cong) (use True in simp)
    then show ?thesis using True by simp
  next
    case False
    let ?st1 = "upd_file f (\<lambda>x. x\<lparr>f_refs := f_refs x + 1\<rparr>) st"
    have "counted A (H(f := H f + 1)) ?st1" using counted_take [OF Cons.prems(1) False] Cons.prems(2) [of f] False by simp
    moreover have "0 < users A ?st1 g + (H(f := H f + 1)) g" if "g \<in> set fs" "g \<noteq> NULL" for g
      using Cons.prems(2) [of g] that by (simp add: same_slots_users [OF same_slots_file(1)])
    ultimately have "counted A (\<lambda>g. (H(f := H f + 1)) g + count_list fs g) (share_files fs ?st1)" using Cons.IH by blast
    then have "counted A (\<lambda>g. H g + count_list (f # fs) g) (share_files fs ?st1)" by (rule counted_cong) simp
    then show ?thesis using False by simp
  qed
qed simp

text \<open>The entry of a child before it goes into the tree: its descriptors are those of the parent, and every file has one more
  reference for each of them.\<close>

lemma clone_shares:
  assumes t: "tables A (\<lambda>_. 0) st" and q: "q \<notin> A" and pp: "pp \<in> A"
    and fds: "i_fds (pinfos st q) = i_fds (pinfos st pp)" and m: "i_maxfd (pinfos st q) = i_maxfd (pinfos st pp)"
  shows "tables (insert q A) (\<lambda>_. 0) (share_files (map fd_file (i_fds (pinfos st q))) st)"
proof -
  let ?fs = "map fd_file (i_fds (pinfos st q))" let ?st = "share_files ?fs st"
  have fA: "finite A" and c: "counted A (\<lambda>_. 0) st" using t by (simp_all add: tables_def)
  have "0 < users A st f" if "f \<in> set ?fs" for f
  proof -
    obtain k where "k < fdsz st pp" "file_of st pp k = f" using \<open>f \<in> set ?fs\<close> fds by (auto simp: in_set_conv_nth fdsz_def file_of_def)
    then show ?thesis using users_positive [OF fA pp, of k st] by simp
  qed
  then have "counted A (\<lambda>f. 0 + count_list ?fs f) ?st" by (intro share_files_counted [OF c]) simp
  moreover have "users (insert q A) ?st f = users A ?st f + count_list ?fs f" for f using fA q by (simp add: users_def slots_def)
  ultimately have "counted (insert q A) (\<lambda>_. 0) ?st" by (simp add: counted_def)
  moreover have "fdsz ?st p = fdsz st p" for p by (simp add: fdsz_def)
  moreover have "fdsz st q = fdsz st pp" using fds by (simp add: fdsz_def)
  ultimately show ?thesis using t pp m by (simp add: tables_def answering_def)
qed

lemma set_queue_posix [simp]:
  "pinfos (set_queue r w st) = pinfos st" "pids (set_queue r w st) = pids st" "files (set_queue r w st) = files st" "close_answers (set_queue r w st) = close_answers st"
  "pfreed (set_queue r w st) = pfreed st"
  by (simp_all add: set_queue_def)

lemma my_pid_frames [simp]: "my_pid cpu (upd_pinfo p g st) = my_pid cpu st" "my_pid cpu (set_queue r w st) = my_pid cpu st"
  by (simp_all add: my_pid_def my_process_def upd_pinfo_def set_queue_def)

text \<open>The state of a call of \<open>posix_clone\<close> before the files are shared.\<close>

definition clone_entry :: "int \<Rightarrow> addr \<Rightarrow> addr \<Rightarrow> int \<Rightarrow> 'a posixsys_scheme \<Rightarrow> 'a posixsys_scheme" where
  "clone_entry pid q pp ppid st =
     (let st = held pp (set_queue (Qobj q) (Queue []) (upd_pinfo q (\<lambda>x. x\<lparr>i_children := [], i_zombies := [], i_refs := 1\<rparr>) st));
          st = upd_pinfo q (\<lambda>x. x\<lparr>i_maxfd := i_maxfd (pinfos st pp)\<rparr>) st;
          st = upd_pinfo pp (\<lambda>x. x\<lparr>i_children := LIST_ADD (i_children x) q\<rparr>) st;
          st = upd_pinfo q (\<lambda>x. x\<lparr>i_parent := ppid, i_process := pid\<rparr>) st
      in upd_pinfo q (\<lambda>x. x\<lparr>i_fds := i_fds (pinfos st pp)\<rparr>) st)"

lemma clone_entry_fields:
  assumes "q \<noteq> pp"
  shows "pids (clone_entry pid q pp ppid st) = pids st" "files (clone_entry pid q pp ppid st) = files st" "close_answers (clone_entry pid q pp ppid st) = close_answers st"
    "p \<noteq> q \<Longrightarrow> i_fds (pinfos (clone_entry pid q pp ppid st) p) = i_fds (pinfos st p)" "p \<noteq> q \<Longrightarrow> i_maxfd (pinfos (clone_entry pid q pp ppid st) p) = i_maxfd (pinfos st p)"
    "p \<noteq> q \<Longrightarrow> i_process (pinfos (clone_entry pid q pp ppid st) p) = i_process (pinfos st p)"
    "p \<noteq> q \<Longrightarrow> i_refs (pinfos (clone_entry pid q pp ppid st) p) = i_refs (pinfos st p) + (if p = pp then 1 else 0)"
    "i_fds (pinfos (clone_entry pid q pp ppid st) q) = i_fds (pinfos st pp)" "i_maxfd (pinfos (clone_entry pid q pp ppid st) q) = i_maxfd (pinfos st pp)"
    "i_process (pinfos (clone_entry pid q pp ppid st) q) = pid" "i_refs (pinfos (clone_entry pid q pp ppid st) q) = 1"
  using assms by (auto simp: clone_entry_def Let_def)

lemma clone_entry_tables:
  assumes "tables A (\<lambda>_. 0) st" and "q \<notin> A" and "q \<noteq> pp"
  shows "tables A (\<lambda>_. 0) (clone_entry pid q pp ppid st)"
proof -
  note f = clone_entry_fields [OF assms(3), where pid = pid and ppid = ppid and st = st]
  have p: "p \<noteq> q" if "p \<in> A" for p using that assms(2) by auto
  have "users A (clone_entry pid q pp ppid st) g = users A st g" for g
    unfolding users_def slots_def by (rule sum.cong) (use f(4) p in auto)
  moreover have "fdsz (clone_entry pid q pp ppid st) p = fdsz st p" if "p \<in> A" for p using f(4) [OF p [OF that]] by (simp add: fdsz_def)
  ultimately show ?thesis using assms(1) f(2,3,5) p by (simp add: tables_def counted_def answering_def)
qed

lemma clone_ok:
  assumes ok: "files_ok xs A st" and q: "q \<notin> set xs" "q \<noteq> NULL" and pp: "pp \<in> A" "i_process (pinfos st pp) = ppid" and new: "my_pid cpu st \<notin> numbers st xs"
  obtains st' ys where "posix_clone nil cpu True fs q ppid st = Some (st', EOK)" and "files_ok ys (insert q A) st'" and "set ys = insert q (set xs)"
proof -
  let ?pid = "my_pid cpu st"
  have st: "pids_ok st xs" "A \<subseteq> set xs" "tables A (\<lambda>_. 0) st" using ok by (simp_all add: files_ok_def)
  have n: "q \<notin> A" "q \<noteq> pp" "pp \<in> set xs" "pp \<noteq> NULL" using q pp(1) st(2) pids_ok_nodes [OF st(1), of pp] by auto
  define e where "e = clone_entry ?pid q pp ppid st"
  note f = clone_entry_fields [OF n(2), where pid = ?pid and ppid = ppid and st = st, folded e_def]
  define s where "s = share_files (map fd_file (i_fds (pinfos e q))) e"
  have "tables A (\<lambda>_. 0) e" unfolding e_def by (rule clone_entry_tables [OF st(3) n(1,2)])
  then have ts: "tables (insert q A) (\<lambda>_. 0) s" unfolding s_def by (rule clone_shares [OF _ n(1) pp(1)]) (use f(4,5,8,9) n(2) in simp_all)
  define u where "u = upd_pinfo pp (\<lambda>x. x\<lparr>i_refs := i_refs x - 1\<rparr>) (upd_pinfo q (\<lambda>x. x\<lparr>i_pgid := i_pgid (pinfos s pp)\<rparr>) s)"
  have tu: "tables (insert q A) (\<lambda>_. 0) u" unfolding u_def by (intro tables_refs tables_same [OF ts]) (auto simp: same_slots_def)
  have i: "i_process (pinfos u p) = (if p = q then ?pid else i_process (pinfos st p))" "i_refs (pinfos u p) = (if p = q then 1 else i_refs (pinfos st p))" for p
    using f(6,7,10,11) n(2) by (auto simp: u_def s_def)
  have x: "p \<noteq> q" if "p \<in> set xs" for p using that q(1) by auto
  have "sorted_wrt (\<lambda>a b. i_process (pinfos u a) < i_process (pinfos u b)) xs"
    using st(1) q(1) unfolding pids_ok_def by (auto elim!: sorted_wrt_mono_rel [rotated] simp: i x)
  moreover have "pids u = pids st" using f(1) by (simp add: u_def s_def)
  moreover have "0 < i_refs (pinfos u p)" if "p \<in> set xs" for p using that st(1) x by (simp add: i pids_ok_def)
  ultimately have pu: "pids_ok u xs" using st(1) by (simp add: pids_ok_def)
  have nu: "numbers u xs = numbers st xs" unfolding numbers_def by (rule image_cong) (simp_all add: i x)
  obtain t ys where t: "pinfo_insert q u = Some (u\<lparr>pids := t\<rparr>)" "pids_ok (u\<lparr>pids := t\<rparr>) ys" "set ys = insert q (set xs)"
    by (rule pinfo_insert_ok [OF pu q]) (use new in \<open>simp_all add: i nu\<close>)
  have "tables (insert q A) (\<lambda>_. 0) (u\<lparr>pids := t\<rparr>)" by (rule tables_same [OF tu]) (simp_all add: same_slots_def)
  then have k: "files_ok ys (insert q A) (u\<lparr>pids := t\<rparr>)" using t(2,3) st(2) by (auto simp: files_ok_def)
  let ?st1 = "set_queue (Qobj q) (Queue []) (upd_pinfo q (\<lambda>x. x\<lparr>i_children := [], i_zombies := [], i_refs := 1\<rparr>) st)"
  have "pids_ok ?st1 xs" using st(1) unfolding pids_ok_def by (auto elim!: sorted_wrt_mono_rel [rotated] simp: x)
  then have find: "pinfo_find ppid ?st1 = Some (held pp ?st1, pp)" by (rule pinfo_find_found [OF _ n(3)]) (use pp(2) n(2) in simp)
  have "i_refs (pinfos s pp) \<noteq> 1" using f(7) [of pp] n(2) pids_ok_refs [OF st(1) n(3)] by (simp add: s_def)
  then have put: "pinfo_put nil pp (upd_pinfo q (\<lambda>x. x\<lparr>i_pgid := i_pgid (pinfos s pp)\<rparr>) s) = Some u" using n(2) by (simp add: pinfo_put_keeps u_def)
  have "clone_child nil True ?pid q pp ppid (held pp ?st1) = Some (u\<lparr>pids := t\<rparr>, EOK)"
    using put t(1) unfolding clone_child_def s_def e_def clone_entry_def Let_def by simp
  then have "posix_clone nil cpu True fs q ppid st = Some (u\<lparr>pids := t\<rparr>, EOK)" using find n(4) q(2) by (simp add: posix_clone_def)
  from that [OF this k t(3)] show thesis .
qed

section \<open>Runs\<close>

text \<open>The calls of running processes, one after the other; a call is made when no count is about to overflow. \<open>entry\<close> says which
  blocks are entries of the tree.\<close>

definition entry :: "'a posixsys_scheme \<Rightarrow> addr \<Rightarrow> bool" where
  "entry st p \<longleftrightarrow> (\<exists>xs. pids_ok st xs \<and> p \<in> set xs)"

inductive file_step :: "addr \<Rightarrow> addr set \<times> 'a posixsys_scheme \<Rightarrow> addr set \<times> 'a posixsys_scheme \<Rightarrow> bool" for nil where
  close: "room A st \<Longrightarrow> caller A cpu st p \<Longrightarrow> posix_close nil cpu fd st = Some (st', r) \<Longrightarrow> file_step nil (A, st) (A, st')"
| dup: "room A st \<Longrightarrow> caller A cpu st p \<Longrightarrow> posix_dup nil cpu mem fd st = Some (st', r) \<Longrightarrow> file_step nil (A, st) (A, st')"
| dup2: "room A st \<Longrightarrow> caller A cpu st p \<Longrightarrow> fd \<noteq> fd2 \<Longrightarrow> posix_dup2 nil cpu mem fd fd2 st = Some (st', r) \<Longrightarrow> file_step nil (A, st) (A, st')"
| exec: "room A st \<Longrightarrow> caller A cpu st p \<Longrightarrow> posix_exec nil cpu st = Some (st', r) \<Longrightarrow> file_step nil (A, st) (A, st')"
| exit: "room A st \<Longrightarrow> p \<in> A \<Longrightarrow> posix_exit p code st = Some (st', r) \<Longrightarrow> file_step nil (A, st) (A - {p}, st')"
| clone: "room A st \<Longrightarrow> q \<noteq> NULL \<Longrightarrow> \<not> entry st q \<Longrightarrow> pp \<in> A \<Longrightarrow> (\<forall>p. entry st p \<longrightarrow> i_process (pinfos st p) \<noteq> my_pid cpu st) \<Longrightarrow>
    posix_clone nil cpu True fs q (i_process (pinfos st pp)) st = Some (st', r) \<Longrightarrow> file_step nil (A, st) (insert q A, st')"

lemma file_step_ok:
  assumes "file_step nil (A, st) (A', st')" and "files_ok xs A st"
  shows "\<exists>ys. files_ok ys A' st'"
  using assms(1)
proof cases
  case (close cpu p fd r)
  have "\<exists>st' r. posix_close nil cpu fd st = Some (st', r) \<and> files_ok xs A st'"
  proof (cases "0 \<le> fd \<and> fd < int (fdsz st p) \<and> file_of st p (nat fd) \<noteq> NULL")
    case True
    then show ?thesis using close_ok [OF assms(2) close(3,2), of fd nil] by blast
  next
    case False
    then show ?thesis using close_bad [OF assms(2) close(3) False, of nil] assms(2) by blast
  qed
  then show ?thesis using close by auto
next
  case (dup cpu p mem fd r)
  then show ?thesis using dup_ok [OF assms(2), of cpu p nil mem fd] by auto
next
  case (dup2 cpu p fd fd2 mem r)
  then show ?thesis using dup2_ok [OF assms(2), of cpu p fd fd2 nil mem] by auto
next
  case (exec cpu p r)
  then show ?thesis using exec_ok [OF assms(2), of cpu p nil] by auto
next
  case (exit p code r)
  then show ?thesis using exit_ok [OF assms(2), of p code] by auto
next
  case (clone q pp cpu fs r)
  have e: "pids_ok st xs" using assms(2) by (simp add: files_ok_def)
  have "q \<notin> set xs" "my_pid cpu st \<notin> numbers st xs" using clone(4,6) e by (auto simp: entry_def numbers_def)
  then obtain st2 ys where "posix_clone nil cpu True fs q (i_process (pinfos st pp)) st = Some (st2, EOK)" "files_ok ys (insert q A) st2"
    using clone_ok [OF assms(2) _ clone(3,5) refl] by blast
  then show ?thesis using clone(1,7) by auto
qed

inductive file_run :: "addr \<Rightarrow> addr set \<times> 'a posixsys_scheme \<Rightarrow> addr set \<times> 'a posixsys_scheme \<Rightarrow> bool" for nil x where
  run_start: "file_run nil x x"
| run_step: "file_run nil x y \<Longrightarrow> file_step nil y z \<Longrightarrow> file_run nil x z"

lemma file_run_ok: "file_run nil x y \<Longrightarrow> files_ok xs (fst x) (snd x) \<Longrightarrow> \<exists>ys. files_ok ys (fst y) (snd y)"
proof (induction rule: file_run.induct)
  case (run_step y z)
  then obtain ys where "files_ok ys (fst y) (snd y)" by blast
  then show ?case using file_step_ok [of nil "fst y" "snd y" "fst z" "snd z"] run_step.hyps(2) by simp
qed blast

section \<open>Properties\<close>

text \<open>C11: Along every run of \<open>posix_close\<close>, \<open>posix_dup\<close>, \<open>posix_dup2\<close> on two descriptors, \<open>posix_exec\<close>, \<open>posix_exit\<close> and
  \<open>posix_clone\<close>, the counter of an open file that a running process has is the number of descriptors that refer to it.\<close>

theorem file_run_counted:
  assumes "file_run nil (A0, st0) (A, st)" and "files_ok xs A0 st0" and "p \<in> A" and "fd < fdsz st p" and "file_of st p fd \<noteq> NULL"
  shows "f_refs (files st (file_of st p fd)) = of_nat (users A st (file_of st p fd))"
proof -
  obtain ys where "files_ok ys A st" using file_run_ok [OF assms(1)] assms(2) by auto
  then have "tables A (\<lambda>_. 0) st" by (simp add: files_ok_def)
  from countedD [OF tablesD(2) [OF this] assms(5)] users_positive [OF tablesD(1) [OF this] assms(3,4)] show ?thesis by simp
qed

text \<open>C26: \<open>posix_close\<close> returns, keeps the counts of all files exact, and gives the file back exactly when no other descriptor of
  a running process refers to it.\<close>

theorem close_frees_last:
  assumes "files_ok xs A st" and "caller A cpu st p" and "room A st" and "0 \<le> fd" "fd < int (fdsz st p)" and "f = file_of st p (nat fd)" "f \<noteq> NULL"
  shows "\<exists>st' r. posix_close nil cpu fd st = Some (st', r) \<and> files_ok xs A st' \<and> pfreed st' = (if users A st f = 1 then f # pfreed st else pfreed st)"
  using close_ok [OF assms(1-5)] assms(6,7) by blast

text \<open>C27: \<open>_posix_allocfd\<close> returns; it finds the lowest free descriptor from the given one on, makes the table larger with free
  descriptors when it needs to, and fails only when there is none below the limit or no memory for the larger table.\<close>

theorem allocfd_lowest:
  assumes "0 < fdsz st p" and "fdsz st p \<le> i_maxfd (pinfos st p)"
  shows "\<exists>fds' r. posix_allocfd mem p fd st = Some (upd_pinfo p (\<lambda>x. x\<lparr>i_fds := fds'\<rparr>) st, r) \<and>
    alloc_result mem (i_maxfd (pinfos st p)) (i_fds (pinfos st p)) fd fds' r"
proof -
  obtain fds' r where "allocfd_loop mem (i_maxfd (pinfos st p)) (i_fds (pinfos st p)) fd = Some (fds', r)"
    "alloc_result mem (i_maxfd (pinfos st p)) (i_fds (pinfos st p)) fd fds' r"
    using allocfd_loop_returns [of "i_fds (pinfos st p)" "i_maxfd (pinfos st p)" mem fd] assms by (auto simp: fdsz_def)
  then show ?thesis by (intro exI conjI) (simp_all add: posix_allocfd_def)
qed

text \<open>\<open>_posix_dup2\<close> of a descriptor to itself gives the file back when it has no other descriptor, and leaves the descriptor
  with the freed file.\<close>

theorem dup2_same_frees:
  assumes "fd < fdsz st p" "fdsz st p \<le> i_maxfd (pinfos st p)" and "f = file_of st p fd" "f \<noteq> NULL" and "f_refs (files st f) = 1" and "answering st"
  shows "\<exists>st'. posix_dup2_table mem p (int fd) (int fd) st = Some (st', int fd) \<and> pfreed st' = f # pfreed st \<and> file_of st' p fd = f"
proof -
  obtain e where "(if f_type (files st f) = ftUnixSocket then (case close_answers st f of [] \<Rightarrow> None | a # _ \<Rightarrow> Some a) else close_retry (close_answers st f)) = Some e"
    by (rule answering_close [OF assms(6)])
  then have d: "\<exists>s. posix_fileDeref f (set_fd p fd NULL st) = Some (s, e) \<and> pfreed s = f # pfreed st \<and> pinfos s = pinfos (set_fd p fd NULL st)"
    using assms(5) by (auto simp: posix_fileDeref_def Let_def)
  then obtain s where s: "posix_fileDeref f (set_fd p fd NULL st) = Some (s, e)" "pfreed s = f # pfreed st" "fdsz s p = fdsz st p" by (auto simp: fdsz_def set_fd_def)
  then have "file_of (set_fd p fd f s) p fd = f" using assms(1) by (simp add: file_of_set_fd)
  then show ?thesis using s assms(1-4) by (simp add: posix_dup2_table_def dup2_replace_def Let_def)
qed

section \<open>Witnesses\<close>

text \<open>The processes 1, 2 and 3; the second runs and has a file at its first descriptor.\<close>

definition demo_files :: posixsys where
  "demo_files = kernel.extend (demo\<lparr>procs := \<lambda>_. (procs demo 0)\<lparr>p_pid := 2\<rparr>\<rparr>)
     (posixsys.fields rb_sample
       (\<lambda>p. \<lparr>i_process = (if p = 3 then 1 else if p = 5 then 2 else 3), i_parent = (if p = 3 then 0 else 1), i_refs = 1, i_exitcode = 7,
          i_children = [], i_zombies = (if p = 5 then [8] else []), i_pgid = 1, i_maxfd = 8, i_fds = [\<lparr>fd_file = 70, fd_flags = 0\<rparr>, no_fd]\<rparr>)
       (\<lambda>_. \<lparr>f_ln = (0, 0), f_oid = (0, 0), f_refs = 1, f_offset = 0, f_status = 0, f_type = ftRegular\<rparr>) (\<lambda>_. [- EINTR, 0]) [] (\<lambda>_. 0) [])"

lemma demo_files_simps:
  "pids demo_files = rb_sample" "i_process (pinfos demo_files p) = (if p = 3 then 1 else if p = 5 then 2 else 3)" "i_refs (pinfos demo_files p) = 1"
  "i_fds (pinfos demo_files p) = [\<lparr>fd_file = 70, fd_flags = 0\<rparr>, no_fd]" "i_maxfd (pinfos demo_files p) = 8" "f_refs (files demo_files f) = 1"
  "close_answers demo_files f = [- EINTR, 0]" "my_pid cpu demo_files = 2" "pfreed demo_files = []" "i_zombies (pinfos demo_files 5) = [8]" "i_pgid (pinfos demo_files p) = 1"
  "i_exitcode (pinfos demo_files p) = 7"
  by (simp_all add: demo_files_def kernel.defs posixsys.defs my_pid_def my_process_def)

lemma demo_users: "users {5} demo_files f = (if f = 70 then 1 else if f = NULL then 1 else 0)"
  by (simp add: users_def slots_def demo_files_simps no_fd_def)

lemma demo_files_ok: "files_ok [3, 5, 8] {5} demo_files" "caller {5} 0 demo_files 5" "room {5} demo_files" "fdsz demo_files 5 = 2" "file_of demo_files 5 0 = 70"
    "pids_ok demo_files [3, 5, 8]" "answering demo_files"
proof -
  show p: "pids_ok demo_files [3, 5, 8]" using rb_sample_nodes by (auto simp: pids_ok_def demo_files_simps)
  show a: "answering demo_files" by (simp add: answering_def demo_files_simps)
  show s: "fdsz demo_files 5 = 2" by (simp add: fdsz_def demo_files_simps)
  show "file_of demo_files 5 0 = 70" by (simp add: file_of_def demo_files_simps)
  have "counted {5} (\<lambda>_. 0) demo_files" by (simp add: counted_def demo_users demo_files_simps)
  then show "files_ok [3, 5, 8] {5} demo_files" using p a s by (simp add: files_ok_def tables_def demo_files_simps)
  show "caller {5} 0 demo_files 5" by (simp add: caller_def demo_files_simps)
  show "room {5} demo_files" by (simp add: room_def demo_users)
qed

theorem close_frees_last_witness: "\<exists>st' r. posix_close 90 0 0 demo_files = Some (st', r) \<and> pfreed st' = [70]"
  using close_frees_last [OF demo_files_ok(1-3), of 0 70 90] by (auto simp: demo_files_ok demo_users demo_files_simps)

theorem file_run_counted_witness:
  "\<exists>st'. file_step 90 ({5}, demo_files) ({5}, st') \<and> posix_dup 90 0 True 0 demo_files = Some (st', 1) \<and> f_refs (files st' 70) = of_nat (users {5} st' 70)"
proof -
  have g: "allocfd_loop True 8 [\<lparr>fd_file = 70, fd_flags = 0\<rparr>, no_fd] 0 = Some ([\<lparr>fd_file = 70, fd_flags = 0\<rparr>, no_fd], 1)"
    by (simp add: allocfd_loop.simps no_fd_def)
  have "pinfo_find 2 demo_files = Some (held 5 demo_files, 5)" by (rule pinfo_find_found [OF demo_files_ok(6)]) (simp_all add: demo_files_simps)
  then obtain st' where d: "posix_dup 90 0 True 0 demo_files = Some (st', 1)" and k: "fdsz st' 5 = 2" "file_of st' 5 0 = 70"
    using g by (simp add: posix_dup_def posix_allocfd_def demo_files_simps fdsz_def file_of_def pinfo_put_def Let_def set_fd_def set_flags_def no_fd_def)
  have s: "file_step 90 ({5}, demo_files) ({5}, st')" by (rule file_step.dup [OF demo_files_ok(3,2) d])
  have "f_refs (files st' (file_of st' 5 0)) = of_nat (users {5} st' (file_of st' 5 0))"
    by (rule file_run_counted [OF run_step [OF run_start s] demo_files_ok(1)]) (simp_all add: k)
  then show ?thesis using s d k by auto
qed

theorem allocfd_lowest_witness:
  "\<exists>fds' r. posix_allocfd True 5 1 demo_files = Some (upd_pinfo 5 (\<lambda>x. x\<lparr>i_fds := fds'\<rparr>) demo_files, r) \<and> alloc_result True 8 [\<lparr>fd_file = 70, fd_flags = 0\<rparr>, no_fd] 1 fds' r"
  using allocfd_lowest [of demo_files 5 True 1] by (simp add: demo_files_ok(4) demo_files_simps)

theorem dup2_same_frees_witness: "\<exists>st'. posix_dup2_table True 5 0 0 demo_files = Some (st', 0) \<and> pfreed st' = [70] \<and> file_of st' 5 0 = 70"
  using dup2_same_frees [of 0 demo_files 5 70 True] by (simp add: demo_files_ok demo_files_simps)

end
