(* ===== verification/Posix_Proc_Spec.thy ===== *)
theory Posix_Proc_Spec
  imports Posix_File_Spec
begin

text \<open>
  Families of processes: what waiting for a child and adopting children do, a wait that never ends, and a child that stays
  linked after it was freed.
\<close>

section \<open>Adoption\<close>


section \<open>Properties\<close>


text \<open>C12: \<open>posix_waitpid\<close> takes the first zombie that matches: it returns its number and stores its exit code, the zombie leaves the
  list of its parent and, when nobody else refers to it, the tree, and its entry is freed.\<close>

theorem waitpid_reaps:
  assumes "pids_ok st xs" and "p \<in> set xs" "i_process (pinfos st p) = my_pid cpu st" and "waitpid_scan p child st = Some c"
    and "c \<in> set xs" "c \<noteq> p" "i_refs (pinfos st c) = 1" and "nil \<noteq> NULL" "nil \<notin> set xs" and "status \<noteq> NULL"
  shows "\<exists>st'. posix_waitpid nil cpu child status nohang st = Some (Return st' (i_process (pinfos st c))) \<and> intmem st' status = i_exitcode (pinfos st c) \<and>
    i_zombies (pinfos st' p) = LIST_REMOVE (i_zombies (pinfos st p)) c \<and> pfreed st' = c # pfreed st \<and> rb_nodes (pids st') (remove1 c xs)"
proof -
  let ?h = "held p st"
  have p: "p \<noteq> NULL" by (rule pids_ok_nodes [OF assms(1,2)])
  have find: "pinfo_find (my_pid cpu st) st = Some (?h, p)" by (rule pinfo_find_found [OF assms(1-3)])
  have sc: "waitpid_scan p child ?h = Some c"
  proof -
    have m: "waitpid_match child (i_pgid (pinfos ?h p)) (pinfos ?h d) = waitpid_match child (i_pgid (pinfos st p)) (pinfos st d)" for d
      by (simp add: waitpid_match_def)
    show ?thesis using assms(4) unfolding waitpid_scan_def m by simp
  qed
  then have z: "i_zombies (pinfos ?h p) \<noteq> []" by (auto simp: waitpid_scan_def)
  obtain as bs where xs: "xs = as @ c # bs" and c: "c \<notin> set as" using assms(5) split_list_first by metis
  have "rb_nodes (pids st) xs" using assms(1) by (simp add: pids_ok_def)
  then obtain t where t: "lib_rbRemove no_augment nil c (pids st) = Some t" "rb_nodes t (remove1 c xs)"
    using plain.remove_node [of "pids st" as c bs nil] assms(8,9) xs c by (auto simp: remove1_append)
  let ?s = "upd_pinfo p (\<lambda>x. x\<lparr>i_zombies := LIST_REMOVE (i_zombies x) c\<rparr>) ?h"
  let ?s2 = "?s\<lparr>intmem := (intmem ?s)(status := i_exitcode (pinfos ?s c))\<rparr>"
  let ?s3 = "pfree c (upd_pinfo c (\<lambda>x. x\<lparr>i_refs := i_refs x - 1\<rparr>) ?s2\<lparr>pids := t\<rparr>)"
  have cp: "pinfo_put nil c ?s2 = Some ?s3" using assms(6,7) t(1) by (simp add: pinfo_put_def Let_def)
  have "i_refs (pinfos ?s3 p) \<noteq> 1" using pids_ok_refs [OF assms(1,2)] assms(6) by simp
  note pp = pinfo_put_keeps [OF this, of nil]
  let ?f = "upd_pinfo p (\<lambda>x. x\<lparr>i_refs := i_refs x - 1\<rparr>) ?s3"
  have "waitpid_found nil p c status ?h = Some (Return ?f (i_process (pinfos st c)))"
    unfolding waitpid_found_def Let_def using cp pp assms(6,10) by simp
  then have "posix_waitpid nil cpu child status nohang st = Some (Return ?f (i_process (pinfos st c)))"
    using find p z sc by (simp add: posix_waitpid_def waitpid_search.simps)
  moreover have "intmem ?f status = i_exitcode (pinfos st c)" by (simp add: upd_pinfo_def pfree_def)
  ultimately show ?thesis using assms(6) t(2) by (intro exI [of _ ?f]) simp
qed

text \<open>\<open>posix_waitpid\<close> without the option to return at once never returns when there are zombies and none of them matches.\<close>

theorem waitpid_spins:
  assumes "pids_ok st xs" and "p \<in> set xs" "i_process (pinfos st p) = my_pid cpu st" and "i_zombies (pinfos st p) \<noteq> []"
    and "\<forall>c \<in> set (i_zombies (pinfos st p)). \<not> waitpid_match child (i_pgid (pinfos st p)) (pinfos st c)"
  shows "posix_waitpid nil cpu child status False st = None"
proof -
  let ?h = "held p st"
  have m: "waitpid_match child (i_pgid (pinfos ?h p)) (pinfos ?h d) = waitpid_match child (i_pgid (pinfos st p)) (pinfos st d)" for d
    by (simp add: waitpid_match_def)
  have n: "waitpid_scan p child ?h = None" using assms(5) unfolding waitpid_scan_def m by (simp add: find_None_iff)
  have "waitpid_search nil p child status False ?h = None"
  proof (rule ccontr)
    assume "waitpid_search nil p child status False ?h \<noteq> None"
    then obtain y where "waitpid_search nil p child status False ?h = Some y" by auto
    then have "\<not> False \<longrightarrow> waitpid_scan p child ?h = None \<longrightarrow> False"
      by (rule waitpid_search.raw_induct [where P = "\<lambda>nil p child status nohang st y. \<not> nohang \<longrightarrow> waitpid_scan p child st = None \<longrightarrow> False", rotated])
        (fastforce split: option.splits if_splits)
    then show False using n by simp
  qed
  then show ?thesis using pinfo_find_found [OF assms(1-3)] pids_ok_nodes [OF assms(1,2)] assms(4) by (simp add: posix_waitpid_def)
qed

text \<open>When the descriptors of a child cannot be allocated, its entry is freed while it stays in the list of the children of its
  parent.\<close>

theorem clone_dangles:
  assumes "pids_ok st xs" and "pp \<in> set xs" "i_process (pinfos st pp) = ppid" and "q \<notin> set xs" "q \<noteq> NULL"
  shows "\<exists>st'. posix_clone nil cpu False fs q ppid st = Some (st', - ENOMEM) \<and> pfreed st' = q # pfreed st \<and> q \<in> set (i_children (pinfos st' pp))"
proof -
  let ?st1 = "set_queue (Qobj q) (Queue []) (upd_pinfo q (\<lambda>x. x\<lparr>i_children := [], i_zombies := [], i_refs := 1\<rparr>) st)"
  have x: "p \<noteq> q" if "p \<in> set xs" for p using that assms(4) by auto
  have "pids_ok ?st1 xs" using assms(1) unfolding pids_ok_def by (auto elim!: sorted_wrt_mono_rel [rotated] simp: x)
  then have find: "pinfo_find ppid ?st1 = Some (held pp ?st1, pp)" by (rule pinfo_find_found [OF _ assms(2)]) (use assms(3) x [OF assms(2)] in simp)
  have n: "pp \<noteq> NULL" "pp \<noteq> q" "0 < i_refs (pinfos st pp)" using pids_ok_nodes [OF assms(1,2)] x [OF assms(2)] pids_ok_refs [OF assms(1,2)] by auto
  show ?thesis using find n assms(5) by (simp add: posix_clone_def clone_child_def Let_def pinfo_put_keeps)
qed

section \<open>Witnesses\<close>


theorem waitpid_reaps_witness:
  "\<exists>st'. posix_waitpid 90 0 (-1) 200 False demo_files = Some (Return st' 3) \<and> intmem st' 200 = 7 \<and> i_zombies (pinfos st' 5) = [] \<and> pfreed st' = [8]"
proof -
  have "waitpid_scan 5 (-1) demo_files = Some 8" by (simp add: waitpid_scan_def waitpid_match_def demo_files_simps)
  from waitpid_reaps [OF demo_files_ok(6) _ _ this, of 0 90 200 False] show ?thesis by (auto simp: demo_files_simps LIST_REMOVE_def)
qed

theorem waitpid_spins_witness: "posix_waitpid 90 0 9 200 False demo_files = None"
  by (rule waitpid_spins [OF demo_files_ok(6), of 5]) (simp_all add: demo_files_simps waitpid_match_def)

theorem clone_dangles_witness:
  "\<exists>st'. posix_clone 90 0 False [] 11 1 demo_files = Some (st', - ENOMEM) \<and> pfreed st' = [11] \<and> 11 \<in> set (i_children (pinfos st' 3))"
  using clone_dangles [OF demo_files_ok(6), of 3 1 11 90 0 "[]"] by (simp add: demo_files_simps)

end
